(* ===== verification/Prelude.thy ===== *)
theory Prelude
  imports Complex_Main "HOL-Library.Word" "HOL-Library.AList"
begin

text \<open>
  The shared vocabulary of the development: names for the Go types that the components use, the
  three ways a Go call can end (a value, an error value, a panic), clock arithmetic of the
  standard library's \<open>time\<close> package, the functions of the \<open>strings\<close> package that the sources
  call, and generic lemmas on lists and words. The collection \<open>go_simps\<close> gathers the equations
  that unfold this layer; component proofs pass it to the simplifier.
\<close>

named_theorems go_simps \<open>equations of the Go layer\<close>

section \<open>Types\<close>

type_synonym bytes = string
type_synonym uint64 = "64 word"
type_synonym time = int
type_synonym duration = int

text \<open>
  An instant is the number of nanoseconds since the zero time of the \<open>time\<close> package (so the zero
  value of \<open>time.Time\<close> is 0); a duration is a number of nanoseconds.
\<close>

abbreviation (input) Nanosecond :: duration where "Nanosecond \<equiv> 1"
abbreviation (input) Millisecond :: duration where "Millisecond \<equiv> 1000000"
abbreviation (input) Second :: duration where "Second \<equiv> 1000000000"
abbreviation (input) Minute :: duration where "Minute \<equiv> 60000000000"
abbreviation (input) Hour :: duration where "Hour \<equiv> 3600000000000"

section \<open>Panics\<close>

text \<open>
  A Go function that indexes out of range, dereferences a nil pointer or calls \<open>panic\<close> does not
  return. Such functions have the type \<open>'a outcome\<close>.
\<close>

datatype 'a outcome = Done 'a | Panic string

fun obind :: "'a outcome \<Rightarrow> ('a \<Rightarrow> 'b outcome) \<Rightarrow> 'b outcome" where
  "obind (Done x) f = f x"
| "obind (Panic s) f = Panic s"

lemma obind_Done_iff [simp]: "obind m f = Done y \<longleftrightarrow> (\<exists>x. m = Done x \<and> f x = Done y)"
  by (cases m) auto

lemma obind_Panic_iff: "obind m f = Panic s \<longleftrightarrow> m = Panic s \<or> (\<exists>x. m = Done x \<and> f x = Panic s)"
  by (cases m) auto

lemma obind_assoc [simp]: "obind (obind m f) g = obind m (\<lambda>x. obind (f x) g)"
  by (cases m) auto

section \<open>The time package\<close>

text \<open>\<open>Time.Round\<close>: the nearest multiple of \<open>d\<close>, halves rounding up; \<open>Time.Truncate\<close>: the
  multiple at or below. Both return the time unchanged for \<open>d \<le> 0\<close>.\<close>

definition time_Round :: "duration \<Rightarrow> time \<Rightarrow> time" where
  "time_Round d t = (if d \<le> 0 then t else let r = t mod d in if r + r < d then t - r else t + (d - r))"

definition time_Truncate :: "duration \<Rightarrow> time \<Rightarrow> time" where
  "time_Truncate d t = (if d \<le> 0 then t else t - t mod d)"

lemma time_Round_nearest:
  assumes d: "0 < d"
  shows "\<bar>time_Round d t - t\<bar> * 2 \<le> d"
proof -
  have "0 \<le> t mod d" and "t mod d < d" using d by auto
  with d show ?thesis by (simp add: time_Round_def Let_def abs_if)
qed

lemma time_Round_dvd: "0 < d \<Longrightarrow> d dvd time_Round d t"
proof -
  assume d: "0 < d"
  have low: "d dvd t - t mod d" by (simp add: minus_mod_eq_mult_div)
  moreover have "t + (d - t mod d) = (t - t mod d) + d" by simp
  then have "d dvd t + (d - t mod d)" using low by (metis dvd_add_right_iff dvd_refl add.commute)
  ultimately show ?thesis using d by (simp add: time_Round_def Let_def)
qed

lemma time_Round_mono:
  assumes le: "s \<le> t"
  shows "time_Round d s \<le> time_Round d t"
proof (cases "0 < d")
  case False
  with le show ?thesis by (simp add: time_Round_def)
next
  case True
  let ?m = "time_Round d s" and ?n = "time_Round d t"
  show ?thesis
  proof (rule ccontr)
    assume "\<not> ?thesis"
    then have lt: "?n < ?m" by simp
    have "d dvd ?m - ?n" by (intro dvd_diff time_Round_dvd True)
    with lt have "d \<le> ?m - ?n" by (simp add: zdvd_imp_le)
    moreover have "\<bar>?m - s\<bar> * 2 \<le> d" and "\<bar>?n - t\<bar> * 2 \<le> d"
      using True by (rule time_Round_nearest)+
    ultimately have "s = t" using le by (simp add: abs_if split: if_splits)
    with lt show False by simp
  qed
qed

lemma time_Round_idem: "time_Round d (time_Round d t) = time_Round d t"
proof (cases "0 < d")
  case True
  then have "time_Round d t mod d = 0"
    using time_Round_dvd [OF True, of t] by (simp add: dvd_eq_mod_eq_0)
  with True show ?thesis by (simp add: time_Round_def [of d "time_Round d t"])
qed (simp add: time_Round_def)

lemma time_Truncate_le: "time_Truncate d t \<le> t"
  by (simp add: time_Truncate_def)

lemma time_Truncate_eqD:
  assumes d: "0 < d" and eq: "time_Truncate d s = time_Truncate d t"
  shows "t - s < d"
proof -
  have "0 \<le> s mod d" and "t mod d < d" using d by auto
  moreover have "t - s = t mod d - s mod d" using d eq by (simp add: time_Truncate_def)
  ultimately show ?thesis by simp
qed

section \<open>The strings package\<close>

definition strings_HasPrefix :: "string \<Rightarrow> string \<Rightarrow> bool" where
  "strings_HasPrefix s p = (take (length p) s = p)"

definition strings_HasSuffix :: "string \<Rightarrow> string \<Rightarrow> bool" where
  "strings_HasSuffix s p = (length p \<le> length s \<and> drop (length s - length p) s = p)"

definition strings_TrimPrefix :: "string \<Rightarrow> string \<Rightarrow> string" where
  "strings_TrimPrefix s p = (if strings_HasPrefix s p then drop (length p) s else s)"

text \<open>\<open>strings.Split\<close> for a one-character separator: always at least one piece.\<close>

fun strings_Split :: "string \<Rightarrow> char \<Rightarrow> string list" where
  "strings_Split [] c = [[]]"
| "strings_Split (x # xs) c =
     (if x = c then [] # strings_Split xs c
      else case strings_Split xs c of [] \<Rightarrow> [[x]] | p # ps \<Rightarrow> (x # p) # ps)"

fun strings_Join :: "string list \<Rightarrow> string \<Rightarrow> string" where
  "strings_Join [] sep = []"
| "strings_Join [s] sep = s"
| "strings_Join (s # t # r) sep = s @ sep @ strings_Join (t # r) sep"

definition is_space :: "char \<Rightarrow> bool" where
  "is_space c = (c \<in> {CHR 0x09, CHR 0x0A, CHR 0x0B, CHR 0x0C, CHR 0x0D, CHR 0x20})"

definition strings_TrimSpace :: "string \<Rightarrow> string" where
  "strings_TrimSpace s = rev (dropWhile is_space (rev (dropWhile is_space s)))"

lemma strings_Split_ne [simp]: "strings_Split s c \<noteq> []"
  by (induction s) (auto split: list.splits)

lemma strings_Split_no_sep: "p \<in> set (strings_Split s c) \<Longrightarrow> c \<notin> set p"
  by (induction s arbitrary: p) (auto split: if_splits list.splits)

lemma strings_Join_Split: "strings_Join (strings_Split s c) [c] = s"
proof (induction s)
  case (Cons x xs)
  then show ?case
  proof (cases "strings_Split xs c")
    case (Cons p ps)
    with Cons.IH show ?thesis by (cases ps) auto
  qed simp
qed simp

lemma strings_Split_absent: "c \<notin> set s \<Longrightarrow> strings_Split s c = [s]"
  by (induction s) auto

section \<open>Lists\<close>

text \<open>Insertion at a position, \<open>append(xs[:i], append([]T{x}, xs[i:]...)...)\<close>.\<close>

definition insert_at :: "nat \<Rightarrow> 'a \<Rightarrow> 'a list \<Rightarrow> 'a list" where
  "insert_at i x xs = take i xs @ x # drop i xs"

lemma insert_at_append: "insert_at (length xs) x (xs @ ys) = xs @ x # ys"
  by (simp add: insert_at_def)

lemma length_insert_at [simp]: "length (insert_at i x xs) = Suc (length xs)"
  by (simp add: insert_at_def)

text \<open>Splitting into consecutive pieces of at most \<open>n\<close> elements.\<close>

function chunks :: "nat \<Rightarrow> 'a list \<Rightarrow> 'a list list" where
  "chunks n xs = (if n = 0 \<or> xs = [] then [] else take n xs # chunks n (drop n xs))"
  by pat_completeness auto
termination
  by (relation "measure (\<lambda>(n, xs). length xs)") auto

declare chunks.simps [simp del]

lemma concat_chunks: "0 < n \<Longrightarrow> concat (chunks n xs) = xs"
proof (induction n xs rule: chunks.induct)
  case (1 n xs)
  then show ?case
    by (cases "xs = []") (simp_all add: chunks.simps [of n xs] chunks.simps [of n "[]"])
qed

lemma chunks_length: "c \<in> set (chunks n xs) \<Longrightarrow> 0 < length c \<and> length c \<le> n"
proof (induction n xs rule: chunks.induct)
  case (1 n xs)
  then show ?case by (auto simp: chunks.simps [of n xs] split: if_splits)
qed

lemma chunks_subset: "c \<in> set (chunks n xs) \<Longrightarrow> set c \<subseteq> set xs"
proof (induction n xs rule: chunks.induct)
  case (1 n xs)
  then show ?case
    by (auto simp: chunks.simps [of n xs] split: if_splits dest: in_set_takeD in_set_dropD)
qed

lemma list_all2_set2: "list_all2 P xs ys \<Longrightarrow> y \<in> set ys \<Longrightarrow> \<exists>x \<in> set xs. P x y"
  by (induction rule: list_all2_induct) auto

end
