(* ===== verification/Sliding_Window.thy ===== *)
theory Sliding_Window
  imports Prelude
begin

text \<open>
  \<open>proxyd/pkg/avg-sliding-window/sliding.go\<close>: the bucketed moving sum from which a backend's error
  rate and latency are read. The buckets live in an insertion-ordered map of the package
  \<open>gods/maps/linkedhashmap\<close>, which is not part of the repository: it is the parameter \<open>L\<close> of
  every operation, a record of the map's functions, and the laws its documentation promises are the
  locale \<open>linked_hash_map\<close>. A clock reading is an argument \<open>now\<close>; one call reads one instant.
  A \<open>float64\<close> is an exact rational: the sums the program forms are whole numbers below
  \<open>2 ^ 53\<close>, which \<open>float64\<close> represents exactly.
\<close>

section \<open>The insertion-ordered map\<close>

record bucket =
  bk_sum :: rat
  bk_qty :: uint64

record 'm lhm =
  lm_New :: 'm
  lm_Get :: "'m \<Rightarrow> time \<Rightarrow> bucket option"
  lm_Put :: "'m \<Rightarrow> time \<Rightarrow> bucket \<Rightarrow> 'm"
  lm_Remove :: "'m \<Rightarrow> time \<Rightarrow> 'm"
  lm_Keys :: "'m \<Rightarrow> time list"
  lm_Size :: "'m \<Rightarrow> nat"

section \<open>The window\<close>

record 'm AvgSlidingWindow =
  sw_bucketSize :: duration
  sw_windowLength :: duration
  sw_buckets :: 'm
  sw_qty :: uint64
  sw_sum :: rat

definition WithWindowLength :: "duration \<Rightarrow> 'm AvgSlidingWindow \<Rightarrow> 'm AvgSlidingWindow" where
  "WithWindowLength d sw = sw\<lparr>sw_windowLength := d\<rparr>"

definition WithBucketSize :: "duration \<Rightarrow> 'm AvgSlidingWindow \<Rightarrow> 'm AvgSlidingWindow" where
  "WithBucketSize d sw = sw\<lparr>sw_bucketSize := d\<rparr>"

definition NewSlidingWindow ::
  "'m lhm \<Rightarrow> ('m AvgSlidingWindow \<Rightarrow> 'm AvgSlidingWindow) list \<Rightarrow> 'm AvgSlidingWindow" where
  "NewSlidingWindow L opts =
     (let sw = \<lparr>sw_bucketSize = 0, sw_windowLength = 0, sw_buckets = lm_New L, sw_qty = 0, sw_sum = 0\<rparr>;
          sw = fold (\<lambda>opt sw. opt sw) opts sw;
          sw = (if sw_bucketSize sw = 0 then sw\<lparr>sw_bucketSize := Second\<rparr> else sw);
          sw = (if sw_windowLength sw = 0 then sw\<lparr>sw_windowLength := 5 * Minute\<rparr> else sw)
      in sw)"

definition windowStart :: "time \<Rightarrow> 'm AvgSlidingWindow \<Rightarrow> time" where
  "windowStart now sw = time_Round (sw_bucketSize sw) now - sw_windowLength sw"

definition inWindow :: "time \<Rightarrow> 'm AvgSlidingWindow \<Rightarrow> time \<Rightarrow> bool" where
  "inWindow now sw t =
     (let n = time_Round (sw_bucketSize sw) now; start = n - sw_windowLength sw
      in start < t \<and> \<not> n < t)"

text \<open>\<open>advance\<close> walks a snapshot of the keys and stops at the first one inside the window. A key of
  the snapshot is always present, so the lookup never fails.\<close>

fun advance_loop :: "'m lhm \<Rightarrow> time \<Rightarrow> time list \<Rightarrow> 'm AvgSlidingWindow \<Rightarrow> 'm AvgSlidingWindow" where
  "advance_loop L start [] sw = sw"
| "advance_loop L start (k # ks) sw =
     (if start < k then sw
      else case lm_Get L (sw_buckets sw) k of
             None \<Rightarrow> sw
           | Some b \<Rightarrow>
               let m = lm_Remove L (sw_buckets sw) k;
                   sw = sw\<lparr>sw_buckets := m\<rparr>;
                   sw = (if 0 < lm_Size L m
                         then sw\<lparr>sw_qty := sw_qty sw - bk_qty b, sw_sum := sw_sum sw - bk_sum b\<rparr>
                         else sw\<lparr>sw_qty := 0, sw_sum := 0\<rparr>)
               in advance_loop L start ks sw)"

definition advance :: "'m lhm \<Rightarrow> time \<Rightarrow> 'm AvgSlidingWindow \<Rightarrow> 'm AvgSlidingWindow" where
  "advance L now sw = advance_loop L (windowStart now sw) (lm_Keys L (sw_buckets sw)) sw"

definition AddWithTime ::
  "'m lhm \<Rightarrow> time \<Rightarrow> time \<Rightarrow> rat \<Rightarrow> 'm AvgSlidingWindow \<Rightarrow> 'm AvgSlidingWindow" where
  "AddWithTime L now t val sw =
     (let sw = advance L now sw;
          key = time_Round (sw_bucketSize sw) t
      in if \<not> inWindow now sw key then sw
         else let b = (case lm_Get L (sw_buckets sw) key of
                         None \<Rightarrow> \<lparr>bk_sum = 0, bk_qty = 0\<rparr> | Some b \<Rightarrow> b);
                  bsum = bk_sum b;
                  b = b\<lparr>bk_qty := bk_qty b + 1, bk_sum := bsum + val\<rparr>
              in sw\<lparr>sw_qty := sw_qty sw + 1, sw_sum := sw_sum sw - bsum + bk_sum b,
                    sw_buckets := lm_Put L (sw_buckets sw) key b\<rparr>)"

definition sw_Add :: "'m lhm \<Rightarrow> time \<Rightarrow> rat \<Rightarrow> 'm AvgSlidingWindow \<Rightarrow> 'm AvgSlidingWindow" where
  "sw_Add L now val sw = AddWithTime L now now val sw"

definition sw_Incr :: "'m lhm \<Rightarrow> time \<Rightarrow> 'm AvgSlidingWindow \<Rightarrow> 'm AvgSlidingWindow" where
  "sw_Incr L now sw = sw_Add L now 1 sw"

definition sw_Avg :: "'m lhm \<Rightarrow> time \<Rightarrow> 'm AvgSlidingWindow \<Rightarrow> 'm AvgSlidingWindow \<times> rat" where
  "sw_Avg L now sw =
     (let sw = advance L now sw
      in (sw, if sw_qty sw = 0 then 0 else sw_sum sw / of_nat (unat (sw_qty sw))))"

definition sw_Sum :: "'m lhm \<Rightarrow> time \<Rightarrow> 'm AvgSlidingWindow \<Rightarrow> 'm AvgSlidingWindow \<times> rat" where
  "sw_Sum L now sw = (let sw = advance L now sw in (sw, sw_sum sw))"

definition sw_Count :: "'m lhm \<Rightarrow> time \<Rightarrow> 'm AvgSlidingWindow \<Rightarrow> 'm AvgSlidingWindow \<times> uint64" where
  "sw_Count L now sw = (let sw = advance L now sw in (sw, sw_qty sw))"

definition sw_Clear :: "'m AvgSlidingWindow \<Rightarrow> 'm AvgSlidingWindow" where
  "sw_Clear sw = sw\<lparr>sw_qty := 0, sw_sum := 0\<rparr>"

section \<open>The map's contract\<close>

locale linked_hash_map =
  fixes L :: "'m lhm" and minv :: "'m \<Rightarrow> bool"
  assumes minv_New: "minv (lm_New L)"
    and minv_Put: "minv m \<Longrightarrow> minv (lm_Put L m k v)"
    and minv_Remove: "minv m \<Longrightarrow> minv (lm_Remove L m k)"
    and Keys_New: "lm_Keys L (lm_New L) = []"
    and Keys_Put: "minv m \<Longrightarrow> lm_Keys L (lm_Put L m k v) =
          (if k \<in> set (lm_Keys L m) then lm_Keys L m else lm_Keys L m @ [k])"
    and Keys_Remove: "minv m \<Longrightarrow> lm_Keys L (lm_Remove L m k) = removeAll k (lm_Keys L m)"
    and Keys_distinct: "minv m \<Longrightarrow> distinct (lm_Keys L m)"
    and Get_Put: "minv m \<Longrightarrow> lm_Get L (lm_Put L m k v) j = (if j = k then Some v else lm_Get L m j)"
    and Get_Remove: "minv m \<Longrightarrow> lm_Get L (lm_Remove L m k) j = (if j = k then None else lm_Get L m j)"
    and Get_None: "minv m \<Longrightarrow> (lm_Get L m k = None) = (k \<notin> set (lm_Keys L m))"
    and Size_Keys: "minv m \<Longrightarrow> lm_Size L m = length (lm_Keys L m)"
begin

lemmas laws = minv_New minv_Put minv_Remove Keys_New Keys_Put Keys_Remove Get_Put Get_Remove Size_Keys

end

text \<open>An association list in insertion order satisfies the contract.\<close>

definition alist_lhm :: "(time \<times> bucket) list lhm" where
  "alist_lhm = \<lparr>lm_New = [], lm_Get = map_of, lm_Put = (\<lambda>m k v. AList.update k v m),
     lm_Remove = (\<lambda>m k. AList.delete k m), lm_Keys = map fst, lm_Size = length\<rparr>"

lemma keys_update: "map fst (AList.update k v m) =
    (if k \<in> set (map fst m) then map fst m else map fst m @ [k])"
  by (induction m) auto

lemma keys_delete: "map fst (AList.delete k m) = removeAll k (map fst m)"
  by (induction m) (auto simp: AList.delete_eq)

interpretation alm: linked_hash_map alist_lhm "\<lambda>m. distinct (map fst m)"
  by unfold_locales
    (auto simp: alist_lhm_def keys_update keys_delete update_conv' delete_conv' map_of_eq_None_iff
      distinct_removeAll)

section \<open>What the window computes\<close>

text \<open>The totals kept beside the buckets agree with the buckets.\<close>

definition bucket_at :: "'m lhm \<Rightarrow> 'm \<Rightarrow> time \<Rightarrow> bucket" where
  "bucket_at L m k = the (lm_Get L m k)"

definition sw_ok :: "'m lhm \<Rightarrow> ('m \<Rightarrow> bool) \<Rightarrow> 'm AvgSlidingWindow \<Rightarrow> bool" where
  "sw_ok L minv sw \<longleftrightarrow> minv (sw_buckets sw) \<and>
     sw_qty sw = (\<Sum>k\<leftarrow>lm_Keys L (sw_buckets sw). bk_qty (bucket_at L (sw_buckets sw) k)) \<and>
     sw_sum sw = (\<Sum>k\<leftarrow>lm_Keys L (sw_buckets sw). bk_sum (bucket_at L (sw_buckets sw) k))"

lemma advance_loop_config [simp]:
  "sw_bucketSize (advance_loop L start ks sw) = sw_bucketSize sw"
  "sw_windowLength (advance_loop L start ks sw) = sw_windowLength sw"
  by (induction ks arbitrary: sw) (auto simp: Let_def split: option.splits)

lemma advance_config [simp]:
  "sw_bucketSize (advance L now sw) = sw_bucketSize sw"
  "sw_windowLength (advance L now sw) = sw_windowLength sw"
  "windowStart now' (advance L now sw) = windowStart now' sw"
  by (simp_all add: advance_def windowStart_def)

lemma Add_config [simp]:
  "sw_bucketSize (sw_Add L now v sw) = sw_bucketSize sw"
  "sw_windowLength (sw_Add L now v sw) = sw_windowLength sw"
  by (simp_all add: sw_Add_def AddWithTime_def Let_def)

context linked_hash_map begin

lemma loop_result:
  assumes "minv (sw_buckets sw)" and "lm_Keys L (sw_buckets sw) = ks" and "sw_ok L minv sw"
  shows "sw_ok L minv (advance_loop L start ks sw) \<and>
    lm_Keys L (sw_buckets (advance_loop L start ks sw)) = dropWhile (\<lambda>k. k \<le> start) ks \<and>
    (\<forall>k \<in> set (lm_Keys L (sw_buckets (advance_loop L start ks sw))).
       lm_Get L (sw_buckets (advance_loop L start ks sw)) k = lm_Get L (sw_buckets sw) k)"
  using assms
proof (induction ks arbitrary: sw)
  case Nil
  then show ?case by simp
next
  case (Cons k ks)
  show ?case
  proof (cases "start < k")
    case True
    with Cons.prems show ?thesis by simp
  next
    case False
    let ?m = "lm_Remove L (sw_buckets sw) k"
    from Cons.prems have "distinct (k # ks)" using Keys_distinct by metis
    then have notin: "k \<notin> set ks" by simp
    from Cons.prems have "lm_Get L (sw_buckets sw) k \<noteq> None" by (simp add: Get_None)
    then obtain b where b: "lm_Get L (sw_buckets sw) k = Some b" by auto
    have wf': "minv ?m" and keys': "lm_Keys L ?m = ks"
      using Cons.prems notin by (simp_all add: minv_Remove Keys_Remove)
    have same: "\<And>j. j \<in> set ks \<Longrightarrow> lm_Get L ?m j = lm_Get L (sw_buckets sw) j"
      using Cons.prems(1) notin by (auto simp: Get_Remove)
    define sw1 where "sw1 = sw\<lparr>sw_buckets := ?m,
      sw_qty := (\<Sum>j\<leftarrow>ks. bk_qty (bucket_at L ?m j)), sw_sum := (\<Sum>j\<leftarrow>ks. bk_sum (bucket_at L ?m j))\<rparr>"
    have sums: "(\<Sum>j\<leftarrow>ks. bk_qty (bucket_at L ?m j)) = sw_qty sw - bk_qty b"
      "(\<Sum>j\<leftarrow>ks. bk_sum (bucket_at L ?m j)) = sw_sum sw - bk_sum b"
      using Cons.prems(2,3) b same
      by (simp_all add: sw_ok_def bucket_at_def cong: map_cong)
    have step: "advance_loop L start (k # ks) sw = advance_loop L start ks sw1"
      using False b wf' keys' sums
      by (subst advance_loop.simps(2), cases "ks = []")
        (simp_all add: Let_def sw1_def Size_Keys del: advance_loop.simps)
    have "sw_ok L minv sw1" using wf' keys' by (simp add: sw1_def sw_ok_def)
    with Cons.IH [of sw1] wf' keys' False step same show ?thesis
      by (auto simp: sw1_def dest: set_dropWhileD)
  qed
qed

lemma advance_ok: "sw_ok L minv sw \<Longrightarrow> sw_ok L minv (advance L now sw)"
  using loop_result [of sw] by (simp add: advance_def sw_ok_def [of L minv sw])

lemma advance_keys: "sw_ok L minv sw \<Longrightarrow>
    lm_Keys L (sw_buckets (advance L now sw)) =
      dropWhile (\<lambda>k. k \<le> windowStart now sw) (lm_Keys L (sw_buckets sw))"
  using loop_result [of sw] by (simp add: advance_def sw_ok_def [of L minv sw])

lemma advance_get: "sw_ok L minv sw \<Longrightarrow>
    k \<in> set (lm_Keys L (sw_buckets (advance L now sw))) \<Longrightarrow>
    lm_Get L (sw_buckets (advance L now sw)) k = lm_Get L (sw_buckets sw) k"
  using loop_result [of sw] by (simp add: advance_def sw_ok_def [of L minv sw])

lemma New_ok: "(\<And>opt sw. opt \<in> set opts \<Longrightarrow> sw_ok L minv sw \<Longrightarrow> sw_ok L minv (opt sw)) \<Longrightarrow>
    sw_ok L minv (NewSlidingWindow L opts)"
proof -
  assume *: "\<And>opt sw. opt \<in> set opts \<Longrightarrow> sw_ok L minv sw \<Longrightarrow> sw_ok L minv (opt sw)"
  have "sw_ok L minv sw \<Longrightarrow> sw_ok L minv (fold (\<lambda>opt sw. opt sw) opts sw)" for sw
    using * by (induction opts arbitrary: sw) auto
  moreover have "sw_ok L minv \<lparr>sw_bucketSize = 0, sw_windowLength = 0, sw_buckets = lm_New L,
      sw_qty = 0, sw_sum = 0\<rparr>"
    by (simp add: sw_ok_def minv_New Keys_New)
  ultimately show ?thesis by (auto simp: NewSlidingWindow_def Let_def sw_ok_def)
qed

lemma sum_list_put:
  fixes f :: "bucket \<Rightarrow> 'b::ab_group_add"
  assumes m: "minv m" and get: "lm_Get L m k = Some b"
  shows "(\<Sum>j\<leftarrow>lm_Keys L (lm_Put L m k v). f (bucket_at L (lm_Put L m k v) j)) =
    (\<Sum>j\<leftarrow>lm_Keys L m. f (bucket_at L m j)) - f b + f v"
proof -
  have k: "k \<in> set (lm_Keys L m)" using Get_None [OF m, of k] get by auto
  then obtain xs ys where ks: "lm_Keys L m = xs @ k # ys" by (meson split_list)
  have "distinct (lm_Keys L m)" using m by (rule Keys_distinct)
  with ks have "k \<notin> set xs" and "k \<notin> set ys" by auto
  then have "map (\<lambda>j. f (bucket_at L (lm_Put L m k v) j)) xs = map (\<lambda>j. f (bucket_at L m j)) xs"
    and "map (\<lambda>j. f (bucket_at L (lm_Put L m k v) j)) ys = map (\<lambda>j. f (bucket_at L m j)) ys"
    using m by (auto simp: bucket_at_def Get_Put)
  with k m ks get show ?thesis by (simp add: Keys_Put bucket_at_def Get_Put cong: map_cong)
qed

lemma sum_list_put_new:
  fixes f :: "bucket \<Rightarrow> 'b::ab_group_add"
  assumes m: "minv m" and get: "lm_Get L m k = None"
  shows "(\<Sum>j\<leftarrow>lm_Keys L (lm_Put L m k v). f (bucket_at L (lm_Put L m k v) j)) =
    (\<Sum>j\<leftarrow>lm_Keys L m. f (bucket_at L m j)) + f v"
proof -
  have k: "k \<notin> set (lm_Keys L m)" using Get_None [OF m, of k] get by auto
  then have "map (\<lambda>j. f (bucket_at L (lm_Put L m k v) j)) (lm_Keys L m) =
      map (\<lambda>j. f (bucket_at L m j)) (lm_Keys L m)"
    using m by (auto simp: bucket_at_def Get_Put)
  with k m show ?thesis by (simp add: Keys_Put bucket_at_def Get_Put cong: map_cong)
qed

lemma AddWithTime_ok:
  assumes "sw_ok L minv sw"
  shows "sw_ok L minv (AddWithTime L now t v sw)"
proof -
  let ?sw = "advance L now sw"
  have ok: "sw_ok L minv ?sw" using assms by (rule advance_ok)
  then have m: "minv (sw_buckets ?sw)" by (simp add: sw_ok_def)
  show ?thesis
  proof (cases "lm_Get L (sw_buckets ?sw) (time_Round (sw_bucketSize sw) t)")
    case None
    with ok m show ?thesis
      by (simp add: AddWithTime_def Let_def sw_ok_def minv_Put sum_list_put_new)
  next
    case (Some b)
    with ok m show ?thesis
      by (simp add: AddWithTime_def Let_def sw_ok_def minv_Put sum_list_put [OF m Some])
  qed
qed

lemma advance_advance:
  assumes ok: "sw_ok L minv sw" and le: "now \<le> now'"
  shows "advance L now' (advance L now sw) = advance L now' sw"
proof -
  have loop: "minv (sw_buckets sw) \<Longrightarrow> lm_Keys L (sw_buckets sw) = ks \<Longrightarrow> s \<le> s' \<Longrightarrow>
      advance_loop L s' (lm_Keys L (sw_buckets (advance_loop L s ks sw))) (advance_loop L s ks sw) =
      advance_loop L s' ks sw" for s s' ks sw
  proof (induction ks arbitrary: sw)
    case (Cons k ks)
    then have "distinct (k # ks)" using Keys_distinct by metis
    with Cons.prems have *: "minv (lm_Remove L (sw_buckets sw) k)"
      "lm_Keys L (lm_Remove L (sw_buckets sw) k) = ks"
      by (simp_all add: minv_Remove Keys_Remove)
    have "lm_Get L (sw_buckets sw) k \<noteq> None" using Cons.prems by (simp add: Get_None)
    then obtain b where "lm_Get L (sw_buckets sw) k = Some b" by auto
    with * Cons.IH Cons.prems show ?case by (cases "s < k") (auto simp: Let_def)
  qed simp
  have "windowStart now sw \<le> windowStart now' sw"
    using le by (simp add: windowStart_def time_Round_mono)
  with loop ok show ?thesis by (simp add: advance_def [of L] sw_ok_def windowStart_def)
qed

end

section \<open>Refinement: the window is the sum over the recent data points\<close>

text \<open>The specification keeps every data point and filters by age when it is asked.\<close>

definition recent :: "duration \<Rightarrow> time \<Rightarrow> (time \<times> rat) list \<Rightarrow> (time \<times> rat) list" where
  "recent b start ps = filter (\<lambda>(t, v). start < time_Round b t) ps"

fun sw_adds :: "'m lhm \<Rightarrow> (time \<times> rat) list \<Rightarrow> 'm AvgSlidingWindow \<Rightarrow> 'm AvgSlidingWindow" where
  "sw_adds L [] sw = sw"
| "sw_adds L ((t, v) # ps) sw = sw_adds L ps (sw_Add L t v sw)"

definition points_at :: "duration \<Rightarrow> time \<Rightarrow> (time \<times> rat) list \<Rightarrow> (time \<times> rat) list" where
  "points_at b k ps = filter (\<lambda>(t, v). time_Round b t = k) ps"

definition represents ::
  "'m lhm \<Rightarrow> ('m \<Rightarrow> bool) \<Rightarrow> time \<Rightarrow> (time \<times> rat) list \<Rightarrow> 'm AvgSlidingWindow \<Rightarrow> bool" where
  "represents L minv start ps sw \<longleftrightarrow> sw_ok L minv sw \<and>
     (let b = sw_bucketSize sw; m = sw_buckets sw in
      sorted (lm_Keys L m) \<and>
      set (lm_Keys L m) = {k. start < k \<and> (\<exists>p \<in> set ps. k = time_Round b (fst p))} \<and>
      (\<forall>k \<in> set (lm_Keys L m). lm_Get L m k =
         Some \<lparr>bk_sum = sum_list (map snd (points_at b k ps)),
               bk_qty = of_nat (length (points_at b k ps))\<rparr>))"

text \<open>A window whose contents stem from the data points \<open>ps\<close>, all added up to \<open>t\<close>.\<close>

definition window_rep ::
  "'m lhm \<Rightarrow> ('m \<Rightarrow> bool) \<Rightarrow> time \<Rightarrow> (time \<times> rat) list \<Rightarrow> 'm AvgSlidingWindow \<Rightarrow> bool" where
  "window_rep L minv t ps sw \<longleftrightarrow>
     (\<exists>s. represents L minv s ps sw \<and> s \<le> windowStart t sw) \<and> 0 < sw_windowLength sw \<and>
     (\<forall>p \<in> set ps. fst p \<le> t)"

lemma sum_points_by_key:
  fixes f :: "time \<times> rat \<Rightarrow> 'b::comm_monoid_add"
  assumes "finite A"
  shows "(\<Sum>k\<in>A. \<Sum>p\<leftarrow>points_at b k ps. f p) = (\<Sum>p\<leftarrow>filter (\<lambda>p. time_Round b (fst p) \<in> A) ps. f p)"
proof (induction ps)
  case Nil
  then show ?case by (simp add: points_at_def)
next
  case (Cons p ps)
  have "(\<Sum>k\<in>A. \<Sum>q\<leftarrow>points_at b k (p # ps). f q) =
      (\<Sum>k\<in>A. (if time_Round b (fst p) = k then f p else 0) + (\<Sum>q\<leftarrow>points_at b k ps. f q))"
    by (rule sum.cong) (auto simp: points_at_def split: prod.splits)
  also have "\<dots> = (if time_Round b (fst p) \<in> A then f p else 0) +
      (\<Sum>p\<leftarrow>filter (\<lambda>p. time_Round b (fst p) \<in> A) ps. f p)"
    using assms Cons.IH by (simp add: sum.distrib)
  finally show ?case by simp
qed

lemma sum_list_one: "(\<Sum>x\<leftarrow>xs. 1) = (of_nat (length xs) :: 'a::semiring_1)"
  by (induction xs) (simp_all add: algebra_simps)

context linked_hash_map begin

lemma represents_totals:
  assumes "represents L minv start ps sw"
  shows "sw_sum sw = sum_list (map snd (recent (sw_bucketSize sw) start ps))"
    and "sw_qty sw = of_nat (length (recent (sw_bucketSize sw) start ps))"
proof -
  let ?b = "sw_bucketSize sw" and ?ks = "lm_Keys L (sw_buckets sw)"
  have ok: "sw_ok L minv sw" and get: "\<And>k. k \<in> set ?ks \<Longrightarrow> bucket_at L (sw_buckets sw) k =
      \<lparr>bk_sum = (\<Sum>p\<leftarrow>points_at ?b k ps. snd p), bk_qty = (\<Sum>p\<leftarrow>points_at ?b k ps. 1)\<rparr>"
    and keys: "set ?ks = {k. start < k \<and> (\<exists>p \<in> set ps. k = time_Round ?b (fst p))}"
    using assms by (auto simp: represents_def Let_def bucket_at_def sum_list_one)
  have "distinct ?ks" using ok by (simp add: sw_ok_def Keys_distinct)
  then have set_sum: "(\<Sum>k\<leftarrow>?ks. g k) = (\<Sum>k\<in>set ?ks. g k)" for g :: "time \<Rightarrow> 'b::comm_monoid_add"
    by (simp add: sum_list_distinct_conv_sum_set)
  have filt: "filter (\<lambda>p. time_Round ?b (fst p) \<in> set ?ks) ps = recent ?b start ps"
    unfolding recent_def by (rule filter_cong) (auto simp: keys)
  have "sw_sum sw = (\<Sum>k\<leftarrow>?ks. bk_sum (bucket_at L (sw_buckets sw) k))"
    using ok by (simp add: sw_ok_def)
  also have "\<dots> = (\<Sum>k\<leftarrow>?ks. \<Sum>p\<leftarrow>points_at ?b k ps. snd p)"
    by (simp add: get cong: map_cong)
  finally show "sw_sum sw = sum_list (map snd (recent ?b start ps))"
    by (simp add: set_sum sum_points_by_key filt)
  have "sw_qty sw = (\<Sum>k\<leftarrow>?ks. bk_qty (bucket_at L (sw_buckets sw) k))"
    using ok by (simp add: sw_ok_def)
  also have "\<dots> = (\<Sum>k\<leftarrow>?ks. \<Sum>p\<leftarrow>points_at ?b k ps. 1)"
    by (simp add: get cong: map_cong)
  also have "\<dots> = (\<Sum>p\<leftarrow>recent ?b start ps. 1)"
    by (simp only: set_sum sum_points_by_key [OF finite_set] filt)
  finally show "sw_qty sw = of_nat (length (recent ?b start ps))"
    by (simp add: sum_list_one)
qed

lemma represents_advance:
  assumes rep: "represents L minv start ps sw" and le: "start \<le> windowStart now sw"
  shows "represents L minv (windowStart now sw) ps (advance L now sw)"
proof -
  have ok: "sw_ok L minv sw" and srt: "sorted (lm_Keys L (sw_buckets sw))"
    using rep by (simp_all add: represents_def Let_def)
  have drop: "sorted ks \<Longrightarrow> dropWhile (\<lambda>k. k \<le> s) ks = filter (\<lambda>k. s < k) ks" for s and ks :: "time list"
    by (induction ks) (auto simp: not_less intro!: filter_True [symmetric])
  show ?thesis
    using rep le advance_ok [OF ok] advance_get [OF ok]
    by (auto simp: represents_def Let_def advance_keys [OF ok] drop [OF srt] sorted_wrt_filter)
qed

lemma represents_Add:
  assumes rep: "represents L minv start ps sw" and le: "start \<le> windowStart now sw"
    and older: "\<And>p. p \<in> set ps \<Longrightarrow> fst p \<le> now" and W: "0 < sw_windowLength sw"
  shows "represents L minv (windowStart now sw) (ps @ [(now, v)]) (sw_Add L now v sw)"
proof -
  let ?sw = "advance L now sw" and ?b = "sw_bucketSize sw" and ?k = "time_Round (sw_bucketSize sw) now"
  let ?m = "sw_buckets ?sw"
  have rep': "represents L minv (windowStart now sw) ps ?sw" using rep le by (rule represents_advance)
  then have m: "minv ?m" by (simp add: represents_def sw_ok_def)
  have recent_k: "windowStart now sw < ?k" using W by (simp add: windowStart_def)
  have cur: "lm_Get L ?m ?k = (if points_at ?b ?k ps = [] then None
      else Some \<lparr>bk_sum = sum_list (map snd (points_at ?b ?k ps)),
                 bk_qty = of_nat (length (points_at ?b ?k ps))\<rparr>)"
    using rep' recent_k Get_None [OF m, of ?k]
    by (auto simp: represents_def Let_def points_at_def filter_empty_conv)
  have "inWindow now ?sw ?k" using W by (simp add: inWindow_def)
  then have add: "sw_buckets (sw_Add L now v sw) = lm_Put L ?m ?k
      \<lparr>bk_sum = sum_list (map snd (points_at ?b ?k (ps @ [(now, v)]))),
       bk_qty = of_nat (length (points_at ?b ?k (ps @ [(now, v)])))\<rparr>"
    using cur by (cases "points_at ?b ?k ps = []")
      (simp_all add: sw_Add_def AddWithTime_def Let_def, simp_all add: points_at_def add.commute)
  have top: "k \<le> ?k" if "k \<in> set (lm_Keys L ?m)" for k
    using that rep' older by (auto simp: represents_def Let_def intro: time_Round_mono)
  have "sw_ok L minv (sw_Add L now v sw)"
    using rep by (simp add: represents_def sw_Add_def AddWithTime_ok)
  moreover have "sorted (lm_Keys L (sw_buckets (sw_Add L now v sw)))"
    using rep' top by (auto simp: add Keys_Put [OF m] represents_def Let_def sorted_append)
  ultimately show ?thesis
    using rep' recent_k
    by (auto simp: represents_def Let_def add Keys_Put [OF m] Get_Put [OF m] points_at_def)
qed

lemma represents_adds:
  assumes "represents L minv start ps sw" and "0 < sw_windowLength sw"
    and "sorted (map fst qs)"
    and "\<And>p q. p \<in> set ps \<Longrightarrow> q \<in> set qs \<Longrightarrow> fst p \<le> fst q"
    and "\<And>q. q \<in> set qs \<Longrightarrow> start \<le> windowStart (fst q) sw"
    and "\<And>q. q \<in> set qs \<Longrightarrow> fst q \<le> now" and "start \<le> windowStart now sw"
  shows "\<exists>start'. start' \<le> windowStart now sw \<and> represents L minv start' (ps @ qs) (sw_adds L qs sw)"
  using assms
proof (induction qs arbitrary: start ps sw)
  case Nil
  then show ?case by auto
next
  case (Cons q qs)
  obtain t v where q: "q = (t, v)" by (cases q)
  let ?sw = "sw_Add L t v sw"
  have ws: "windowStart n ?sw = windowStart n sw" for n by (simp add: windowStart_def)
  have mono: "a \<le> b \<Longrightarrow> windowStart a sw \<le> windowStart b sw" for a b
    by (simp add: windowStart_def time_Round_mono)
  have "represents L minv (windowStart t sw) (ps @ [(t, v)]) ?sw"
    using Cons.prems(1,2) Cons.prems(4) [of _ q] Cons.prems(5) [of q] q
    by (intro represents_Add) auto
  moreover have "0 < sw_windowLength ?sw" using Cons.prems by simp
  moreover have "\<And>p r. p \<in> set (ps @ [(t, v)]) \<Longrightarrow> r \<in> set qs \<Longrightarrow> fst p \<le> fst r"
    using Cons.prems(3,4) q by auto
  moreover have "\<And>r. r \<in> set qs \<Longrightarrow> windowStart t sw \<le> windowStart (fst r) ?sw"
    using Cons.prems(3) q by (auto simp: ws intro: mono)
  moreover have "windowStart t sw \<le> windowStart now ?sw"
    using Cons.prems(6) [of q] q by (auto simp: ws intro: mono)
  ultimately have "\<exists>start'. start' \<le> windowStart now ?sw \<and>
      represents L minv start' ((ps @ [(t, v)]) @ qs) (sw_adds L qs ?sw)"
    using Cons.prems by (intro Cons.IH) auto
  then show ?case by (simp add: q ws)
qed

lemma adds_config [simp]:
  "sw_bucketSize (sw_adds L qs sw) = sw_bucketSize sw"
  "sw_windowLength (sw_adds L qs sw) = sw_windowLength sw"
  by (induction qs arbitrary: sw) auto

lemma window_totals:
  assumes "sorted (map fst ps)" and "\<And>p. p \<in> set ps \<Longrightarrow> fst p \<le> now" and "0 < b" and "0 < w"
  defines "sw \<equiv> advance L now (sw_adds L ps (NewSlidingWindow L [WithBucketSize b, WithWindowLength w]))"
  shows "sw_sum sw = sum_list (map snd (recent b (time_Round b now - w) ps))"
    and "sw_qty sw = of_nat (length (recent b (time_Round b now - w) ps))"
proof -
  let ?new = "NewSlidingWindow L [WithBucketSize b, WithWindowLength w]"
  have cfg: "sw_bucketSize ?new = b" "sw_windowLength ?new = w"
    using assms(3,4) by (simp_all add: NewSlidingWindow_def WithBucketSize_def WithWindowLength_def Let_def)
  have "sw_ok L minv ?new"
    by (rule New_ok) (auto simp: WithBucketSize_def WithWindowLength_def sw_ok_def)
  then have new: "represents L minv s [] ?new" for s
    by (simp add: represents_def Let_def NewSlidingWindow_def WithBucketSize_def WithWindowLength_def Keys_New)
  let ?s = "Min (insert (windowStart now ?new) ((\<lambda>q. windowStart (fst q) ?new) ` set ps))"
  have "\<exists>start'. start' \<le> windowStart now ?new \<and> represents L minv start' ([] @ ps) (sw_adds L ps ?new)"
    using assms(1,2,4) cfg by (intro represents_adds [OF new [of ?s]]) auto
  then obtain s where s: "s \<le> windowStart now ?new" "represents L minv s ps (sw_adds L ps ?new)" by auto
  have "windowStart now (sw_adds L ps ?new) = time_Round b now - w"
    by (simp add: windowStart_def cfg)
  with represents_advance [OF s(2), of now] s(1)
  have rep: "represents L minv (time_Round b now - w) ps sw"
    by (simp add: sw_def windowStart_def cfg)
  show "sw_sum sw = sum_list (map snd (recent b (time_Round b now - w) ps))"
    and "sw_qty sw = of_nat (length (recent b (time_Round b now - w) ps))"
    using represents_totals [OF rep] by (simp_all add: sw_def cfg)
qed

text \<open>Reading a window and adding to it, for a window with a history.\<close>

lemma window_rep_mono: "window_rep L minv t ps sw \<Longrightarrow> t \<le> t' \<Longrightarrow> window_rep L minv t' ps sw"
  unfolding window_rep_def windowStart_def by (meson time_Round_mono diff_right_mono order_trans)

lemma window_rep_Add: "window_rep L minv t ps sw \<Longrightarrow> t \<le> now \<Longrightarrow>
    window_rep L minv now (ps @ [(now, v)]) (sw_Add L now v sw)"
proof (drule (1) window_rep_mono, unfold window_rep_def, elim exE conjE)
  fix s assume a: "represents L minv s ps sw" "s \<le> windowStart now sw" "0 < sw_windowLength sw"
    "\<forall>p \<in> set ps. fst p \<le> now"
  then have "represents L minv (windowStart now sw) (ps @ [(now, v)]) (sw_Add L now v sw)"
    by (intro represents_Add) auto
  then show "(\<exists>s. represents L minv s (ps @ [(now, v)]) (sw_Add L now v sw) \<and>
      s \<le> windowStart now (sw_Add L now v sw)) \<and> 0 < sw_windowLength (sw_Add L now v sw) \<and>
      (\<forall>p \<in> set (ps @ [(now, v)]). fst p \<le> now)"
    using a by (intro conjI exI [of _ "windowStart now sw"]) (auto simp: windowStart_def)
qed

lemma window_rep_advance: "window_rep L minv t ps sw \<Longrightarrow> t \<le> now \<Longrightarrow>
    window_rep L minv now ps (advance L now sw)"
proof (drule (1) window_rep_mono, unfold window_rep_def, elim exE conjE)
  fix s assume a: "represents L minv s ps sw" "s \<le> windowStart now sw" "0 < sw_windowLength sw"
    "\<forall>p \<in> set ps. fst p \<le> now"
  then show "(\<exists>s. represents L minv s ps (advance L now sw) \<and> s \<le> windowStart now (advance L now sw)) \<and>
      0 < sw_windowLength (advance L now sw) \<and> (\<forall>p \<in> set ps. fst p \<le> now)"
    using represents_advance [OF a(1,2)] a
    by (intro conjI exI [of _ "windowStart now sw"]) (auto simp: windowStart_def)
qed

lemma window_rep_totals:
  assumes "window_rep L minv t ps sw" and "t \<le> now"
  defines "pts \<equiv> recent (sw_bucketSize sw) (windowStart now sw) ps"
  shows "snd (sw_Sum L now sw) = sum_list (map snd pts)"
    and "snd (sw_Count L now sw) = of_nat (length pts)"
    and "length ps < 2 ^ 64 \<Longrightarrow>
      snd (sw_Avg L now sw) = (if pts = [] then 0 else sum_list (map snd pts) / of_nat (length pts))"
proof -
  obtain s where "represents L minv s ps sw" "s \<le> windowStart now sw"
    using window_rep_mono [OF assms(1,2)] by (auto simp: window_rep_def)
  then have "represents L minv (windowStart now sw) ps (advance L now sw)" by (rule represents_advance)
  from represents_totals [OF this] have tot: "sw_sum (advance L now sw) = sum_list (map snd pts)"
      "sw_qty (advance L now sw) = of_nat (length pts)"
    by (simp_all add: pts_def)
  then show "snd (sw_Sum L now sw) = sum_list (map snd pts)"
    and "snd (sw_Count L now sw) = of_nat (length pts)"
    by (simp_all add: sw_Sum_def sw_Count_def Let_def)
  assume "length ps < 2 ^ 64"
  moreover have "length pts \<le> length ps" by (simp add: pts_def recent_def)
  ultimately have "length pts < 2 ^ LENGTH(64)" by simp
  then have cnt: "unat (of_nat (length pts) :: uint64) = length pts"
    by (simp only: unat_of_nat mod_less)
  then have "(of_nat (length pts) :: uint64) = 0 \<longleftrightarrow> pts = []"
    unfolding unat_eq_zero [symmetric] by simp
  with tot cnt show "snd (sw_Avg L now sw) = (if pts = [] then 0 else sum_list (map snd pts) / of_nat (length pts))"
    by (simp only: sw_Avg_def Let_def snd_conv)
qed

lemma window_rep_New:
  assumes "0 < b" and "0 < w"
  shows "window_rep L minv t [] (NewSlidingWindow L [WithBucketSize b, WithWindowLength w])"
    (is "window_rep L minv t [] ?new")
proof -
  have "sw_ok L minv ?new"
    by (rule New_ok) (auto simp: WithBucketSize_def WithWindowLength_def sw_ok_def)
  then have "represents L minv (windowStart t ?new) [] ?new"
    by (simp add: represents_def Let_def NewSlidingWindow_def WithBucketSize_def WithWindowLength_def Keys_New)
  then show ?thesis
    using assms by (auto simp: window_rep_def NewSlidingWindow_def WithBucketSize_def WithWindowLength_def Let_def)
qed

end

section \<open>Properties\<close>

text \<open>
  C6: the window refines its specification. After any sequence of data points added at
  non-decreasing clock times, \<open>Sum\<close>, \<open>Count\<close> and \<open>Avg\<close> at a later time are the sum, the number
  and the mean of exactly those points whose rounded time is younger than the window length.
\<close>

theorem sliding_window_refines:
  assumes "linked_hash_map L minv" and "sorted (map fst ps)" and "\<forall>p \<in> set ps. fst p \<le> now"
    and "0 < b" and "0 < w" and "length ps < 2 ^ 64"
  shows "let sw = sw_adds L ps (NewSlidingWindow L [WithBucketSize b, WithWindowLength w]);
             pts = recent b (time_Round b now - w) ps
         in snd (sw_Sum L now sw) = sum_list (map snd pts) \<and>
            unat (snd (sw_Count L now sw)) = length pts \<and>
            snd (sw_Avg L now sw) = (if pts = [] then 0 else sum_list (map snd pts) / of_nat (length pts))"
proof -
  let ?pts = "recent b (time_Round b now - w) ps"
  have "length ?pts \<le> length ps"
    by (simp add: recent_def)
  with assms(6) have len: "length ?pts < 2 ^ LENGTH(64)"
    by simp
  then have cnt: "unat (of_nat (length ?pts) :: uint64) = length ?pts"
    by (simp only: unat_of_nat mod_less)
  have zero: "(of_nat (length ?pts) :: uint64) = 0 \<longleftrightarrow> ?pts = []"
    unfolding unat_eq_zero [symmetric] cnt by simp
  show ?thesis
    using linked_hash_map.window_totals [OF assms(1,2) _ assms(4,5)] assms(3)
    by (simp only: sw_Sum_def sw_Count_def sw_Avg_def Let_def cnt zero fst_conv snd_conv if_True simp_thms)
qed

lemma sliding_window_refines_witness:
  "linked_hash_map alist_lhm (\<lambda>m. distinct (map fst m)) \<and>
   snd (sw_Sum alist_lhm 12 (sw_adds alist_lhm [(1, 5), (9, 2), (11, 4)]
     (NewSlidingWindow alist_lhm [WithBucketSize 2, WithWindowLength 6]))) = 6"
proof -
  have "sorted (map fst [(1, 5), (9, 2), (11, 4 :: rat)] :: time list)" by simp
  from sliding_window_refines [OF alm.linked_hash_map_axioms this, of 12 2 6] show ?thesis
    using alm.linked_hash_map_axioms
    by (simp add: Let_def recent_def time_Round_def)
qed



text \<open>
  evictions are unobservable. A read at some time has the same result, and leaves the same
  window, whether or not an earlier read already evicted expired buckets.
\<close>

theorem advance_unobservable:
  assumes "linked_hash_map L minv" and "sw_ok L minv sw" and "now \<le> now'"
  shows "sw_Sum L now' (fst (sw_Sum L now sw)) = sw_Sum L now' sw \<and>
         sw_Avg L now' (fst (sw_Sum L now sw)) = sw_Avg L now' sw \<and>
         sw_Count L now' (fst (sw_Sum L now sw)) = sw_Count L now' sw"
  using linked_hash_map.advance_advance [OF assms]
  by (simp_all add: sw_Sum_def sw_Avg_def sw_Count_def Let_def)

lemma advance_unobservable_witness:
  "sw_Sum alist_lhm 9 (fst (sw_Sum alist_lhm 8 (NewSlidingWindow alist_lhm []))) =
   sw_Sum alist_lhm 9 (NewSlidingWindow alist_lhm [])"
  by (rule advance_unobservable [OF alm.linked_hash_map_axioms, THEN conjunct1])
    (simp_all add: sw_ok_def NewSlidingWindow_def alist_lhm_def Let_def)

text \<open>
  C22: \<open>Clear\<close> resets the totals and keeps the buckets, so the next eviction subtracts from
  zero: when the oldest bucket has expired and the next has not, the sum read after \<open>Clear\<close> is
  minus the evicted bucket's sum and the count has wrapped around below zero.
\<close>

theorem clear_then_evict_underflows:
  assumes "linked_hash_map L minv" and "sw_ok L minv sw"
    and "lm_Keys L (sw_buckets sw) = k # j # ks"
    and "k \<le> windowStart now sw" and "windowStart now sw < j"
    and "lm_Get L (sw_buckets sw) k = Some b"
  shows "snd (sw_Sum L now (sw_Clear sw)) = - bk_sum b \<and>
         snd (sw_Count L now (sw_Clear sw)) = - bk_qty b"
proof -
  have m: "minv (sw_buckets sw)" using assms(2) by (simp add: sw_ok_def)
  have "distinct (k # j # ks)"
    using linked_hash_map.Keys_distinct [OF assms(1) m] assms(3) by simp
  then have "lm_Size L (lm_Remove L (sw_buckets sw) k) = Suc (length ks)"
    using assms(3) m linked_hash_map.minv_Remove [OF assms(1) m]
    by (simp add: linked_hash_map.Size_Keys [OF assms(1)] linked_hash_map.Keys_Remove [OF assms(1)])
  moreover have "windowStart now (sw_Clear sw) = windowStart now sw"
    by (simp add: windowStart_def sw_Clear_def)
  ultimately show ?thesis
    using assms(3-6) by (simp add: sw_Sum_def sw_Count_def advance_def sw_Clear_def Let_def)
qed

lemma clear_then_evict_underflows_witness:
  "snd (sw_Sum alist_lhm 12 (sw_Clear (sw_adds alist_lhm [(1, 5), (9, 2)]
     (NewSlidingWindow alist_lhm [WithBucketSize 2, WithWindowLength 10])))) = - 5"
proof -
  let ?sw = "sw_adds alist_lhm [(1, 5), (9, 2)]
    (NewSlidingWindow alist_lhm [WithBucketSize 2, WithWindowLength 10])"
  have sw: "?sw = \<lparr>sw_bucketSize = 2, sw_windowLength = 10,
      sw_buckets = [(2, \<lparr>bk_sum = 5, bk_qty = 1\<rparr>), (10, \<lparr>bk_sum = 2, bk_qty = 1\<rparr>)],
      sw_qty = 2, sw_sum = 7\<rparr>"
    by (simp add: NewSlidingWindow_def WithBucketSize_def WithWindowLength_def Let_def sw_Add_def
        AddWithTime_def advance_def windowStart_def inWindow_def time_Round_def alist_lhm_def)
  show ?thesis
    unfolding sw
    using clear_then_evict_underflows [of alist_lhm "\<lambda>m. distinct (map fst m)" _ 2 10 "[]" 12
        "\<lparr>bk_sum = 5, bk_qty = 1\<rparr>", THEN conjunct1, OF alm.linked_hash_map_axioms, of
        "\<lparr>sw_bucketSize = 2, sw_windowLength = 10,
      sw_buckets = [(2, \<lparr>bk_sum = 5, bk_qty = 1\<rparr>), (10, \<lparr>bk_sum = 2, bk_qty = 1\<rparr>)],
      sw_qty = 2, sw_sum = 7\<rparr>"]
    by (simp add: sw_ok_def bucket_at_def alist_lhm_def windowStart_def time_Round_def)
qed

end
