(* ===== verification/JSON.thy ===== *)
theory JSON
  imports Prelude "HOL-Library.Char_ord" "HOL-Library.List_Lexorder"
begin

text \<open>
  The part of Go's \<open>encoding/json\<close> the sources use: the scanner (\<open>json_parse\<close>, which keeps the
  source text of array elements and object members for \<open>json.RawMessage\<close> fields), decoding into
  \<open>interface{}\<close> values (\<open>any_of\<close>), the encoder (\<open>json_encode\<close>) and the compaction of raw
  messages by the encoder (\<open>compact\<close>).

  A number literal is kept as text. Decoding it into an \<open>interface{}\<close> goes through \<open>float64\<close>; the
  text that the encoder prints for the nearest \<open>float64\<close> is the argument \<open>fnum\<close> of \<open>any_of\<close>
  (\<open>None\<close> when the literal is out of range), so nothing below depends on how doubles are printed;
  the locale \<open>float_text\<close> states that the printed form is a JSON number that is read as the same
  \<open>float64\<close>, and under it what the encoder prints is decoded as the same value.
  Strings are byte strings: bytes from 0x80 on are taken as valid UTF-8. Field names match up to
  ASCII case.
\<close>

section \<open>Values\<close>

datatype gojson =
    JNull
  | JBool bool
  | JNum string
  | JString string
  | JArray "gojson list"
  | JObject "(string \<times> gojson) list"

section \<open>Scanning\<close>

definition is_ws :: "char \<Rightarrow> bool" where
  "is_ws c = (c = CHR 0x20 \<or> c = CHR 0x09 \<or> c = CHR 0x0A \<or> c = CHR 0x0D)"

definition skip_ws :: "string \<Rightarrow> string" where
  "skip_ws s = dropWhile is_ws s"

definition is_digit :: "char \<Rightarrow> bool" where
  "is_digit c = (CHR ''0'' \<le> c \<and> c \<le> CHR ''9'')"

definition p_frac :: "string \<Rightarrow> (string \<times> string) option" where
  "p_frac s = (case s of
       [] \<Rightarrow> Some ([], [])
     | c # r \<Rightarrow>
         if c = CHR ''.'' then
           (let ds = takeWhile is_digit r
            in if ds = [] then None else Some (c # ds, dropWhile is_digit r))
         else Some ([], s))"

definition p_exp :: "string \<Rightarrow> (string \<times> string) option" where
  "p_exp s = (case s of
       [] \<Rightarrow> Some ([], [])
     | c # r \<Rightarrow>
         if c = CHR ''e'' \<or> c = CHR ''E'' then
           (let (sg, r) = (case r of
                  d # r' \<Rightarrow> if d = CHR ''+'' \<or> d = CHR ''-'' then ([d], r') else ([], r)
                | [] \<Rightarrow> ([], r));
                ds = takeWhile is_digit r
            in if ds = [] then None else Some (c # sg @ ds, dropWhile is_digit r))
         else Some ([], s))"

definition p_number :: "string \<Rightarrow> (string \<times> string) option" where
  "p_number s =
     (let (sg, r) = (case s of
            c # r \<Rightarrow> if c = CHR ''-'' then ([c], r) else ([], s)
          | [] \<Rightarrow> ([], s));
          ds = takeWhile is_digit r;
          r = dropWhile is_digit r
      in if ds = [] \<or> (hd ds = CHR ''0'' \<and> 1 < length ds) then None
         else case p_frac r of
             None \<Rightarrow> None
           | Some (fr, r) \<Rightarrow>
               (case p_exp r of
                  None \<Rightarrow> None
                | Some (ex, r) \<Rightarrow> Some (sg @ ds @ fr @ ex, r)))"

definition hex_val :: "char \<Rightarrow> nat option" where
  "hex_val c =
     (let n = of_char c :: nat
      in if CHR ''0'' \<le> c \<and> c \<le> CHR ''9'' then Some (n - 48)
         else if CHR ''a'' \<le> c \<and> c \<le> CHR ''f'' then Some (n - 87)
         else if CHR ''A'' \<le> c \<and> c \<le> CHR ''F'' then Some (n - 55)
         else None)"

definition hex4 :: "string \<Rightarrow> nat option" where
  "hex4 s = (case s of
       [a, b, c, d] \<Rightarrow>
         (case (hex_val a, hex_val b, hex_val c, hex_val d) of
            (Some i, Some j, Some k, Some l) \<Rightarrow> Some (4096 * i + 256 * j + 16 * k + l)
          | _ \<Rightarrow> None)
     | _ \<Rightarrow> None)"

definition utf8 :: "nat \<Rightarrow> string" where
  "utf8 n =
     (if n < 0x80 then [char_of n]
      else if n < 0x800 then [char_of (0xC0 + n div 64), char_of (0x80 + n mod 64)]
      else if n < 0x10000 then
        [char_of (0xE0 + n div 4096), char_of (0x80 + n div 64 mod 64), char_of (0x80 + n mod 64)]
      else [char_of (0xF0 + n div 262144), char_of (0x80 + n div 4096 mod 64),
            char_of (0x80 + n div 64 mod 64), char_of (0x80 + n mod 64)])"

text \<open>The simple escapes of a JSON string.\<close>

definition unescape :: "char \<Rightarrow> char option" where
  "unescape c = map_of
     [(CHR 0x22, CHR 0x22), (CHR 0x5C, CHR 0x5C), (CHR 0x2F, CHR 0x2F), (CHR ''b'', CHR 0x08),
      (CHR ''f'', CHR 0x0C), (CHR ''n'', CHR 0x0A), (CHR ''r'', CHR 0x0D), (CHR ''t'', CHR 0x09)] c"

text \<open>One \<open>\u\<close> escape after its four digits: a high surrogate followed by an escaped low one is one
  code point, a lone surrogate is U+FFFD.\<close>

definition p_unicode :: "nat \<Rightarrow> string \<Rightarrow> string \<times> string" where
  "p_unicode n r =
     (if 0xD800 \<le> n \<and> n < 0xE000 then
        (case (if take 2 r = [CHR 0x5C, CHR ''u''] then hex4 (take 4 (drop 2 r)) else None) of
           Some m \<Rightarrow>
             if n < 0xDC00 \<and> 0xDC00 \<le> m \<and> m < 0xE000
             then (utf8 (0x10000 + (n - 0xD800) * 1024 + (m - 0xDC00)), drop 6 r)
             else (utf8 0xFFFD, r)
         | None \<Rightarrow> (utf8 0xFFFD, r))
      else (utf8 n, r))"

lemma p_unicode_length: "length (snd (p_unicode n r)) \<le> length r"
  by (auto simp: p_unicode_def split: option.splits)

text \<open>A string after its opening quote: the decoded bytes and what follows the closing quote.\<close>

function p_string :: "string \<Rightarrow> (string \<times> string) option" where
  "p_string [] = None"
| "p_string (c # r) =
     (if c = CHR 0x22 then Some ([], r)
      else if c = CHR 0x5C then
        (case r of
           [] \<Rightarrow> None
         | d # r' \<Rightarrow>
             if d = CHR ''u'' then
               (case hex4 (take 4 r') of
                  None \<Rightarrow> None
                | Some n \<Rightarrow>
                    map_option (apfst ((@) (fst (p_unicode n (drop 4 r')))))
                      (p_string (snd (p_unicode n (drop 4 r')))))
             else
               (case unescape d of
                  None \<Rightarrow> None
                | Some e \<Rightarrow> map_option (apfst ((#) e)) (p_string r')))
      else if c < CHR 0x20 then None
      else map_option (apfst ((#) c)) (p_string r))"
  by pat_completeness auto
termination
proof (relation "measure length", goal_cases)
  case (2 c r d r' n)
  have "length (snd (p_unicode n (drop 4 r'))) \<le> length (drop 4 r')" by (rule p_unicode_length)
  with 2 show ?case by simp
qed auto

lemma p_string_length: "p_string s = Some (t, r) \<Longrightarrow> length r < length s"
proof (induction s arbitrary: t r rule: p_string.induct)
  case (2 c s)
  show ?case
  proof (cases "c = CHR 0x5C")
    case False
    with 2 show ?thesis by (fastforce split: if_splits)
  next
    case True
    then obtain d s' where s: "s = d # s'" using 2(4) by (auto split: list.splits)
    show ?thesis
    proof (cases "d = CHR ''u''")
      case False
      with True s 2 show ?thesis by (fastforce split: option.splits if_splits)
    next
      case u: True
      then obtain n where n: "hex4 (take 4 s') = Some n" using True s 2(4)
        by (auto split: option.splits)
      have "length (snd (p_unicode n (drop 4 s'))) \<le> length (drop 4 s')" by (rule p_unicode_length)
      moreover obtain t' where "p_string (snd (p_unicode n (drop 4 s'))) = Some (t', r)"
        using True s u n 2(4) by auto
      then have "length r < length (snd (p_unicode n (drop 4 s')))"
        using 2(1) [OF _ True s u n] True by auto
      ultimately show ?thesis using s by simp
    qed
  qed
qed simp

section \<open>Parsing\<close>

definition p_literal :: "string \<Rightarrow> (gojson \<times> string) option" where
  "p_literal s =
     (if take 4 s = ''null'' then Some (JNull, drop 4 s)
      else if take 4 s = ''true'' then Some (JBool True, drop 4 s)
      else if take 5 s = ''false'' then Some (JBool False, drop 5 s)
      else map_option (apfst JNum) (p_number s))"

text \<open>
  The text of a value is what the parser consumed. The first argument bounds the number of nested
  calls; \<open>json_parse\<close> supplies more than the text can need (lemma \<open>parse_fuel\<close>).
\<close>

definition consumed :: "string \<Rightarrow> string \<Rightarrow> string" where
  "consumed s r = take (length s - length r) s"

fun p_value :: "nat \<Rightarrow> string \<Rightarrow> (gojson \<times> string) option"
  and p_elems :: "nat \<Rightarrow> string \<Rightarrow> ((bytes \<times> gojson) list \<times> string) option"
  and p_members :: "nat \<Rightarrow> string \<Rightarrow> ((string \<times> bytes \<times> gojson) list \<times> string) option"
where
  "p_value 0 s = None"
| "p_value (Suc n) s = (case s of
       [] \<Rightarrow> None
     | c # r \<Rightarrow>
         if c = CHR 0x22 then map_option (apfst JString) (p_string r)
         else if c = CHR ''['' then
           (case skip_ws r of
              [] \<Rightarrow> None
            | d # r' \<Rightarrow>
                if d = CHR '']'' then Some (JArray [], r')
                else map_option (apfst (JArray \<circ> map snd)) (p_elems n (d # r')))
         else if c = CHR ''{'' then
           (case skip_ws r of
              [] \<Rightarrow> None
            | d # r' \<Rightarrow>
                if d = CHR ''}'' then Some (JObject [], r')
                else map_option (apfst (JObject \<circ> map (\<lambda>(k, _, v). (k, v)))) (p_members n (d # r')))
         else p_literal s)"
| "p_elems 0 s = None"
| "p_elems (Suc n) s = (case p_value n s of
       None \<Rightarrow> None
     | Some (v, r) \<Rightarrow>
         (case skip_ws r of
            [] \<Rightarrow> None
          | c # r' \<Rightarrow>
              if c = CHR '']'' then Some ([(consumed s r, v)], r')
              else if c = CHR '','' then
                map_option (apfst ((#) (consumed s r, v))) (p_elems n (skip_ws r'))
              else None))"
| "p_members 0 s = None"
| "p_members (Suc n) s = (case s of
       [] \<Rightarrow> None
     | q # s' \<Rightarrow>
         if q \<noteq> CHR 0x22 then None
         else case p_string s' of
             None \<Rightarrow> None
           | Some (k, r) \<Rightarrow>
               (case skip_ws r of
                  [] \<Rightarrow> None
                | c # r' \<Rightarrow>
                    if c \<noteq> CHR '':'' then None
                    else case p_value n (skip_ws r') of
                        None \<Rightarrow> None
                      | Some (v, t) \<Rightarrow>
                          (case skip_ws t of
                             [] \<Rightarrow> None
                           | c # t' \<Rightarrow>
                               if c = CHR ''}'' then
                                 Some ([(k, consumed (skip_ws r') t, v)], t')
                               else if c = CHR '','' then
                                 map_option (apfst ((#) (k, consumed (skip_ws r') t, v)))
                                   (p_members n (skip_ws t'))
                               else None)))"

definition json_parse :: "bytes \<Rightarrow> gojson option" where
  "json_parse s = (case p_value (2 * length s + 2) (skip_ws s) of
       Some (v, r) \<Rightarrow> if skip_ws r = [] then Some v else None
     | None \<Rightarrow> None)"

text \<open>The elements of an array and the members of an object as raw messages.\<close>

definition raw_elems :: "bytes \<Rightarrow> bytes list option" where
  "raw_elems s = (case json_parse s of
       Some (JArray []) \<Rightarrow> Some []
     | Some (JArray vs) \<Rightarrow>
         map_option (map fst \<circ> fst) (p_elems (2 * length s + 1) (skip_ws (tl (skip_ws s))))
     | _ \<Rightarrow> None)"

definition raw_members :: "bytes \<Rightarrow> (string \<times> bytes) list option" where
  "raw_members s = (case json_parse s of
       Some (JObject []) \<Rightarrow> Some []
     | Some (JObject kvs) \<Rightarrow>
         map_option (map (\<lambda>(k, raw, _). (k, raw)) \<circ> fst)
           (p_members (2 * length s + 1) (skip_ws (tl (skip_ws s))))
     | _ \<Rightarrow> None)"

section \<open>Lengths and fuel\<close>


lemma skip_ws_length [simp]: "length (skip_ws s) \<le> length s"
  by (simp add: skip_ws_def length_dropWhile_le)

lemma skip_ws_ConsD: "skip_ws s = c # r \<Longrightarrow> length r < length s"
  using skip_ws_length [of s] by simp

lemma p_frac_length: "p_frac s = Some (t, r) \<Longrightarrow> length r \<le> length s"
  by (auto simp: p_frac_def Let_def le_Suc_eq length_dropWhile_le split: list.splits if_splits)

lemma p_exp_length: "p_exp s = Some (t, r) \<Longrightarrow> length r \<le> length s"
  using length_dropWhile_le [of is_digit]
  by (fastforce simp: p_exp_def Let_def split: list.splits if_splits intro: le_SucI)

lemma dropWhile_shorter: "takeWhile P s \<noteq> [] \<Longrightarrow> length (dropWhile P s) < length s"
  by (cases s) (auto simp: le_imp_less_Suc length_dropWhile_le split: if_splits)

lemma p_number_length:
  assumes "p_number s = Some (t, r)"
  shows "length r < length s"
proof -
  obtain sg u where u: "(case s of c # r \<Rightarrow> if c = CHR ''-'' then ([c], r) else ([], s) | [] \<Rightarrow> ([], s)) = (sg, u)"
    by fastforce
  then have "length u \<le> length s" by (auto split: list.splits if_splits)
  moreover from assms u obtain fr v ex where
    "takeWhile is_digit u \<noteq> []" "p_frac (dropWhile is_digit u) = Some (fr, v)" "p_exp v = Some (ex, r)"
    by (auto simp: p_number_def Let_def split: if_splits option.splits)
  ultimately show ?thesis
    using dropWhile_shorter [of is_digit u] p_frac_length [of "dropWhile is_digit u" fr v] p_exp_length [of v ex r]
    by linarith
qed

lemma p_literal_length: "p_literal s = Some (v, r) \<Longrightarrow> length r < length s"
proof -
  assume a: "p_literal s = Some (v, r)"
  have "n \<noteq> 0 \<Longrightarrow> take n s = t \<Longrightarrow> length t = n \<Longrightarrow> length (drop n s) < length s" for n and t :: string
    by auto
  from this [of 4 "''null''"] this [of 4 "''true''"] this [of 5 "''false''"] a p_number_length
  show ?thesis
    by (auto simp: p_literal_def split: if_splits)
qed

lemma parse_length:
  "p_value n s = Some (v, r) \<Longrightarrow> length r < length s"
  "p_elems n s = Some (vs, r) \<Longrightarrow> length r < length s"
  "p_members n s = Some (kvs, r) \<Longrightarrow> length r < length s"
proof (induction n s and n s and n s arbitrary: v r and vs r and kvs r
    rule: p_value_p_elems_p_members.induct)
  case (2 n s)
  then obtain c t where s: "s = c # t" by (auto split: list.splits)
  show ?case
  proof (cases "c = CHR 0x22 \<or> c \<noteq> CHR ''['' \<and> c \<noteq> CHR ''{''")
    case True
    with 2(3) s show ?thesis
      by (auto split: if_splits dest!: p_literal_length p_string_length)
  next
    case False
    with 2(3) s obtain d t' where "skip_ws t = d # t'" by (auto split: if_splits list.splits)
    with False 2 s skip_ws_ConsD [of t d t'] show ?thesis
      by (auto split: if_splits; fastforce)
  qed
next
  case (4 n s)
  then obtain v u c u' where v: "p_value n s = Some (v, u)" and u: "skip_ws u = c # u'"
    by (auto split: option.splits list.splits)
  from 4(1) [OF v] skip_ws_ConsD [OF u] have "length u' < length s" by simp
  moreover have "length r \<le> length u'"
  proof (cases "c = CHR '']''")
    case False
    then obtain ws where "p_elems n (skip_ws u') = Some (ws, r)"
      using 4(3) v u by (auto split: if_splits)
    then have "length r < length (skip_ws u')"
      using 4(2) [OF v refl u] False 4(3) v u by (auto split: if_splits)
    then show ?thesis using skip_ws_length [of u'] by linarith
  qed (use 4(3) v u in simp)
  ultimately show ?case by simp
next
  case (6 n s)
  then obtain s' k r1 r2 v t c t' where s: "s = CHR 0x22 # s'" and k: "p_string s' = Some (k, r1)"
    and r1: "skip_ws r1 = CHR '':'' # r2" and v: "p_value n (skip_ws r2) = Some (v, t)"
    and t: "skip_ws t = c # t'"
    by (auto split: option.splits list.splits if_splits)
  have "length t < length (skip_ws r2)"
    using 6(1) s k r1 v by auto
  moreover have "length s = Suc (length s')" using s by simp
  ultimately have "length t' < length s"
    using skip_ws_ConsD [OF t] skip_ws_ConsD [OF r1] p_string_length [OF k] skip_ws_length [of r2]
    by linarith
  moreover have "length r \<le> length t'"
  proof (cases "c = CHR ''}''")
    case False
    then obtain ws where "p_members n (skip_ws t') = Some (ws, r)"
      using 6(3) s k r1 v t by (auto split: if_splits)
    then have "length r < length (skip_ws t')"
      using 6(2) s k r1 v t False 6(3) by (auto split: if_splits)
    then show ?thesis using skip_ws_length [of t'] by linarith
  qed (use 6(3) s k r1 v t in simp)
  ultimately show ?case by simp
qed simp_all

text \<open>Enough fuel: more than twice the length of the text never changes the result.\<close>

lemma parse_fuel:
  "2 * length s < n \<Longrightarrow> n \<le> m \<Longrightarrow> p_value m s = p_value n s"
  "2 * length s + 1 < n \<Longrightarrow> n \<le> m \<Longrightarrow> p_elems m s = p_elems n s"
  "2 * length s + 1 < n \<Longrightarrow> n \<le> m \<Longrightarrow> p_members m s = p_members n s"
proof (induction n s and n s and n s arbitrary: m and m and m
    rule: p_value_p_elems_p_members.induct)
  case (2 n s)
  obtain m' where m: "m = Suc m'" "n \<le> m'" using 2(4) by (cases m) auto
  show ?case
  proof (cases s)
    case s: (Cons c t)
    show ?thesis
    proof (cases "skip_ws t")
      case Nil
      with s m show ?thesis by simp
    next
      case (Cons d t')
      have "length (d # t') \<le> length t" using skip_ws_length [of t] Cons by simp
      moreover have "length s = Suc (length t)" using s by simp
      ultimately have short: "2 * length (d # t') + 1 < n" using 2(3) by linarith
      have "c = CHR ''['' \<Longrightarrow> d \<noteq> CHR '']'' \<Longrightarrow> p_elems m' (d # t') = p_elems n (d # t')"
        by (rule 2(1) [OF s _ _ Cons _ short m(2)]) simp_all
      moreover have "c = CHR ''{'' \<Longrightarrow> d \<noteq> CHR ''}'' \<Longrightarrow> p_members m' (d # t') = p_members n (d # t')"
        by (rule 2(2) [OF s _ _ _ Cons _ short m(2)]) simp_all
      ultimately show ?thesis using m s Cons by simp
    qed
  qed (simp add: m)
next
  case (4 n s)
  obtain m' where m: "m = Suc m'" "n \<le> m'" using 4(4) by (cases m) auto
  have same: "p_value m' s = p_value n s" by (rule 4(1)) (use 4(3) m in simp_all)
  show ?case
  proof (cases "p_value n s")
    case (Some vr)
    then obtain v r where v: "p_value n s = Some (v, r)" by (cases vr) auto
    show ?thesis
    proof (cases "skip_ws r")
      case r: (Cons c r')
      have "length (skip_ws r') + 1 < length s"
        using parse_length(1) [OF v] skip_ws_ConsD [OF r] skip_ws_length [of r'] by linarith
      then have "2 * length (skip_ws r') + 1 < n" using 4(3) by linarith
      then have "c = CHR '','' \<Longrightarrow> p_elems m' (skip_ws r') = p_elems n (skip_ws r')"
        by (intro 4(2) [OF v refl r]) (simp_all add: m)
      with m same v r show ?thesis by simp
    qed (simp add: m same v)
  qed (simp add: m same)
next
  case (6 n s)
  obtain m' where m: "m = Suc m'" "n \<le> m'" using 6(4) by (cases m) auto
  show ?case
  proof (cases "\<exists>s' k r1 r2. s = CHR 0x22 # s' \<and> p_string s' = Some (k, r1) \<and> skip_ws r1 = CHR '':'' # r2")
    case True
    then obtain s' k r1 r2 where s: "s = CHR 0x22 # s'" and k: "p_string s' = Some (k, r1)"
      and r1: "skip_ws r1 = CHR '':'' # r2" by blast
    have len: "length (skip_ws r2) < length s'"
      using p_string_length [OF k] skip_ws_ConsD [OF r1] skip_ws_length [of r2] by linarith
    moreover have ls: "length s = Suc (length s')" using s by simp
    ultimately have "2 * length (skip_ws r2) < n" using 6(3) by linarith
    then have same: "p_value m' (skip_ws r2) = p_value n (skip_ws r2)"
      by (intro 6(1) [OF s _ k refl r1]) (simp_all add: m)
    show ?thesis
    proof (cases "p_value n (skip_ws r2)")
      case (Some vt)
      then obtain v t where v: "p_value n (skip_ws r2) = Some (v, t)" by (cases vt) auto
      show ?thesis
      proof (cases "skip_ws t")
        case t: (Cons c t')
        have "length (skip_ws t') + 1 < length s"
          using parse_length(1) [OF v] skip_ws_ConsD [OF t] skip_ws_length [of t'] len ls by linarith
        then have "2 * length (skip_ws t') + 1 < n" using 6(3) by linarith
        then have "c = CHR '','' \<Longrightarrow> p_members m' (skip_ws t') = p_members n (skip_ws t')"
          by (intro 6(2) [OF s _ k refl r1 _ v refl t]) (simp_all add: m)
        with m same s k r1 v t show ?thesis by simp
      qed (simp add: m same s k r1 v)
    qed (simp add: m same s k r1)
  next
    case False
    have "p_members (Suc i) s = None" for i
    proof (cases s)
      case s: (Cons q s')
      show ?thesis
      proof (cases "p_string s'")
        case (Some kr)
        then obtain k r1 where k: "p_string s' = Some (k, r1)" by (cases kr) auto
        show ?thesis
        proof (cases "skip_ws r1")
          case (Cons c r2)
          with False s k have "q \<noteq> CHR 0x22 \<or> c \<noteq> CHR '':''" by auto
          with s k Cons show ?thesis by (elim disjE) simp_all
        qed (simp add: s k)
      qed (simp add: s)
    qed simp
    with m show ?thesis by (simp only:)
  qed
qed simp_all

lemma json_parse_fuel: "2 * length s < n \<Longrightarrow>
  json_parse s = (case p_value n (skip_ws s) of
       Some (v, r) \<Rightarrow> if skip_ws r = [] then Some v else None
     | None \<Rightarrow> None)"
proof -
  assume n: "2 * length s < n"
  have le: "length (skip_ws s) \<le> length s" by simp
  have "p_value (2 * length s + 2 + n) (skip_ws s) = p_value n (skip_ws s)"
    by (rule parse_fuel) (use n le in linarith)+
  moreover have "p_value (2 * length s + 2 + n) (skip_ws s) = p_value (2 * length s + 2) (skip_ws s)"
    by (rule parse_fuel) (use le in linarith)+
  ultimately show ?thesis unfolding json_parse_def by (simp only:)
qed

section \<open>Decoding into interface values\<close>

text \<open>
  An object becomes a map, here the list of its bindings in the order of the keys: the last of
  several members with one key is kept. A number that is not a \<open>float64\<close> makes the decoding fail.
\<close>

definition dedup :: "('k :: linorder \<times> 'v) list \<Rightarrow> ('k \<times> 'v) list" where
  "dedup kvs = sort_key fst (AList.clearjunk (rev kvs))"

text \<open>\<open>m[k] = v\<close>\<close>

definition map_put :: "'k :: linorder \<Rightarrow> 'v \<Rightarrow> ('k \<times> 'v) list \<Rightarrow> ('k \<times> 'v) list" where
  "map_put k v kvs = dedup (kvs @ [(k, v)])"

fun sequence :: "'a option list \<Rightarrow> 'a list option" where
  "sequence [] = Some []"
| "sequence (None # xs) = None"
| "sequence (Some x # xs) = map_option ((#) x) (sequence xs)"

fun any_of :: "(string \<Rightarrow> string option) \<Rightarrow> gojson \<Rightarrow> gojson option" where
  "any_of fnum (JNum l) = map_option JNum (fnum l)"
| "any_of fnum (JArray vs) = map_option JArray (sequence (map (any_of fnum) vs))"
| "any_of fnum (JObject kvs) =
     map_option (JObject \<circ> dedup)
       (sequence (map (\<lambda>kv. map_option (Pair (fst kv)) (any_of fnum (snd kv))) kvs))"
| "any_of fnum v = Some v"

section \<open>Encoding\<close>

definition nibble :: "nat \<Rightarrow> char" where
  "nibble n = ''0123456789abcdef'' ! n"

definition esc_u :: "nat \<Rightarrow> string" where
  "esc_u n = [CHR 0x5C, CHR ''u'', nibble (n div 4096), nibble (n div 256 mod 16),
              nibble (n div 16 mod 16), nibble (n mod 16)]"

definition enc_char :: "char \<Rightarrow> string" where
  "enc_char c =
     (if c = CHR 0x22 \<or> c = CHR 0x5C then [CHR 0x5C, c]
      else if c = CHR 0x0A then [CHR 0x5C, CHR ''n'']
      else if c = CHR 0x0D then [CHR 0x5C, CHR ''r'']
      else if c = CHR 0x09 then [CHR 0x5C, CHR ''t'']
      else if c < CHR 0x20 \<or> c = CHR ''<'' \<or> c = CHR ''>'' \<or> c = CHR ''&'' then esc_u (of_char c)
      else [c])"

fun enc_chars :: "string \<Rightarrow> string" where
  "enc_chars (c # d # e # r) =
     (if c = CHR 0xE2 \<and> d = CHR 0x80 \<and> e = CHR 0xA8 then esc_u 0x2028 @ enc_chars r
      else if c = CHR 0xE2 \<and> d = CHR 0x80 \<and> e = CHR 0xA9 then esc_u 0x2029 @ enc_chars r
      else enc_char c @ enc_chars (d # e # r))"
| "enc_chars (c # r) = enc_char c @ enc_chars r"
| "enc_chars [] = []"

definition enc_string :: "string \<Rightarrow> string" where
  "enc_string s = CHR 0x22 # enc_chars s @ [CHR 0x22]"

text \<open>A Go map is printed with its keys in order.\<close>

fun json_encode :: "gojson \<Rightarrow> string" where
  "json_encode JNull = ''null''"
| "json_encode (JBool b) = (if b then ''true'' else ''false'')"
| "json_encode (JNum l) = l"
| "json_encode (JString s) = enc_string s"
| "json_encode (JArray vs) = ''['' @ strings_Join (map json_encode vs) '','' @ '']''"
| "json_encode (JObject kvs) =
     ''{'' @ strings_Join
       (map (\<lambda>ke. enc_string (fst ke) @ '':'' @ snd ke)
         (sort_key fst (map (\<lambda>kv. (fst kv, json_encode (snd kv))) kvs))) '','' @ ''}''"

text \<open>
  A \<open>json.RawMessage\<close> inside an encoded value: white space between tokens is dropped and the
  characters special to HTML are escaped; a message that is not valid JSON makes the encoding
  fail. The nil message, here the empty one, is printed as null.
\<close>

fun compact_scan :: "bool \<Rightarrow> string \<Rightarrow> string" where
  "compact_scan q [] = []"
| "compact_scan q (c # r) =
     (if q \<and> c = CHR 0x5C then (case r of [] \<Rightarrow> [c] | d # r' \<Rightarrow> c # d # compact_scan q r')
      else if c = CHR 0x22 then c # compact_scan (\<not> q) r
      else if \<not> q \<and> is_ws c then compact_scan q r
      else if c = CHR ''<'' \<or> c = CHR ''>'' \<or> c = CHR ''&'' then esc_u (of_char c) @ compact_scan q r
      else if c = CHR 0xE2 \<and> take 2 r = [CHR 0x80, CHR 0xA8] then esc_u 0x2028 @ compact_scan q (drop 2 r)
      else if c = CHR 0xE2 \<and> take 2 r = [CHR 0x80, CHR 0xA9] then esc_u 0x2029 @ compact_scan q (drop 2 r)
      else c # compact_scan q r)"

definition compact :: "bytes \<Rightarrow> bytes option" where
  "compact raw =
     (if raw = [] then Some ''null''
      else if json_parse raw = None then None
      else Some (compact_scan False raw))"

text \<open>The text of an object from the texts of its fields, in the order of the struct.\<close>

definition enc_fields :: "(string \<times> bytes) list \<Rightarrow> bytes" where
  "enc_fields fs = ''{'' @ strings_Join (map (\<lambda>(k, t). enc_string k @ '':'' @ t) fs) '','' @ ''}''"

section \<open>Decoding into structs\<close>

text \<open>
  A member sets the field whose name is its key, up to ASCII case; later members override earlier
  ones. \<open>field\<close> is the raw text of the last member that sets the field \<open>name\<close>.
\<close>

definition to_lower :: "char \<Rightarrow> char" where
  "to_lower c = (if CHR ''A'' \<le> c \<and> c \<le> CHR ''Z'' then char_of (of_char c + 32 :: nat) else c)"

definition field_raws :: "string \<Rightarrow> (string \<times> bytes) list \<Rightarrow> bytes list" where
  "field_raws name ms = map snd (filter (\<lambda>(k, _). map to_lower k = map to_lower name) ms)"

text \<open>A string field: null leaves it alone, a value of another kind makes the decoding fail.\<close>

fun string_field :: "bytes list \<Rightarrow> string \<Rightarrow> string option" where
  "string_field [] acc = Some acc"
| "string_field (raw # rs) acc =
     (case json_parse raw of
        Some (JString s) \<Rightarrow> string_field rs s
      | Some JNull \<Rightarrow> string_field rs acc
      | _ \<Rightarrow> None)"

definition raw_field :: "bytes list \<Rightarrow> bytes" where
  "raw_field rs = (if rs = [] then [] else last rs)"

section \<open>What the encoder prints, the parser reads\<close>

text \<open>The characters that can follow a value inside a text.\<close>

definition ends :: "string \<Rightarrow> bool" where
  "ends r = (r = [] \<or> hd r \<in> {CHR '','', CHR ''}'', CHR '']''} \<or> is_ws (hd r))"

definition num_ok :: "string \<Rightarrow> bool" where
  "num_ok l = (p_number l = Some (l, []))"

lemma takeWhile_ends:
  assumes "ends r" and "\<And>c. P c \<Longrightarrow> c \<notin> {CHR '','', CHR ''}'', CHR '']''} \<and> \<not> is_ws c"
  shows "takeWhile P (s @ r) = takeWhile P s \<and> dropWhile P (s @ r) = dropWhile P s @ r"
proof (cases r)
  case (Cons c r')
  with assms have "\<not> P c" by (auto simp: ends_def)
  with Cons show ?thesis
    by (induction s) auto
qed simp

lemma is_digit_not_end: "is_digit c \<Longrightarrow> c \<notin> {CHR '','', CHR ''}'', CHR '']''} \<and> \<not> is_ws c"
  by (auto simp: is_digit_def is_ws_def less_eq_char_def of_char_def)

lemmas digits_end = takeWhile_ends [of _ is_digit, OF _ is_digit_not_end]

lemma p_frac_append: "p_frac s = Some (t, u) \<Longrightarrow> ends r \<Longrightarrow> p_frac (s @ r) = Some (t, u @ r)"
  by (cases s; cases r) (auto simp: p_frac_def Let_def digits_end ends_def is_ws_def split: if_splits)

lemma p_exp_append: "p_exp s = Some (t, u) \<Longrightarrow> ends r \<Longrightarrow> p_exp (s @ r) = Some (t, u @ r)"
proof (cases s)
  case Nil
  then show "p_exp s = Some (t, u) \<Longrightarrow> ends r \<Longrightarrow> p_exp (s @ r) = Some (t, u @ r)"
    by (cases r) (auto simp: p_exp_def Let_def ends_def is_ws_def split: if_splits)
next
  case (Cons c s')
  then show "p_exp s = Some (t, u) \<Longrightarrow> ends r \<Longrightarrow> p_exp (s @ r) = Some (t, u @ r)"
    by (cases s'; cases r) (auto simp: p_exp_def Let_def digits_end split: if_splits)
qed

lemma p_number_append:
  assumes "p_number s = Some (t, u)" and "ends r"
  shows "p_number (s @ r) = Some (t, u @ r)"
proof -
  obtain sg v where v: "(case s of c # r \<Rightarrow> if c = CHR ''-'' then ([c], r) else ([], s) | [] \<Rightarrow> ([], s)) = (sg, v)"
    by fastforce
  have "s \<noteq> []" using assms(1) by (auto simp: p_number_def)
  with v have v': "(case s @ r of c # r \<Rightarrow> if c = CHR ''-'' then ([c], r) else ([], c # r) | [] \<Rightarrow> ([], [])) = (sg, v @ r)"
    by (cases s) (auto split: if_splits)
  from assms(1) v obtain fr w ex where
    "takeWhile is_digit v \<noteq> []" "\<not> (hd (takeWhile is_digit v) = CHR ''0'' \<and> 1 < length (takeWhile is_digit v))"
    "p_frac (dropWhile is_digit v) = Some (fr, w)" "p_exp w = Some (ex, u)"
    "t = sg @ takeWhile is_digit v @ fr @ ex"
    by (auto simp: p_number_def Let_def split: if_splits option.splits)
  then show ?thesis
    using v' assms(2) p_frac_append [of "dropWhile is_digit v" fr w r] p_exp_append [of w ex u r]
    by (cases "s @ r") (auto simp: p_number_def Let_def digits_end split: if_splits)
qed

lemma hex_val_nibble: "n < 16 \<Longrightarrow> hex_val (nibble n) = Some n"
proof -
  have "\<forall>n \<in> {0..<16}. hex_val (nibble n) = Some n" by code_simp
  then show "n < 16 \<Longrightarrow> hex_val (nibble n) = Some n" by simp
qed

lemma take_4: "take 4 (a # b # c # d # r) = [a, b, c, d]" and drop_4: "drop 4 (a # b # c # d # r) = r"
  by (simp_all add: eval_nat_numeral)

lemma hex4_nibbles:
  "i < 16 \<Longrightarrow> j < 16 \<Longrightarrow> k < 16 \<Longrightarrow> l < 16 \<Longrightarrow>
   hex4 [nibble i, nibble j, nibble k, nibble l] = Some (4096 * i + 256 * j + 16 * k + l)"
  by (simp add: hex4_def hex_val_nibble)

lemma p_string_esc_u:
  assumes "n < 0xD800"
  shows "p_string (esc_u n @ r) = map_option (apfst ((@) (utf8 n))) (p_string r)"
proof -
  have "n div 4096 < 16" using assms by simp
  then have "hex4 [nibble (n div 4096), nibble (n div 256 mod 16), nibble (n div 16 mod 16),
      nibble (n mod 16)] = Some (4096 * (n div 4096) + 256 * (n div 256 mod 16) + 16 * (n div 16 mod 16) + n mod 16)"
    by (intro hex4_nibbles) simp_all
  also have "4096 * (n div 4096) + 256 * (n div 256 mod 16) + 16 * (n div 16 mod 16) + n mod 16 = n"
  proof -
    have "n div 256 = n div 16 div 16" "n div 4096 = n div 256 div 16"
      by (simp_all add: div_mult2_eq [symmetric])
    then show ?thesis
      using mult_div_mod_eq [of 16 n] mult_div_mod_eq [of 16 "n div 16"] mult_div_mod_eq [of 16 "n div 256"]
      by linarith
  qed
  finally show ?thesis
    using assms by (simp add: esc_u_def p_unicode_def take_4 drop_4)
qed

lemma p_string_enc_char: "p_string (enc_char c @ r) = map_option (apfst ((#) c)) (p_string r)"
proof -
  let ?n = "of_char c :: nat"
  have u: "?n < 128 \<Longrightarrow> p_string (esc_u ?n @ r) = map_option (apfst ((#) c)) (p_string r)"
    by (subst p_string_esc_u) (simp_all add: utf8_def append_Cons [abs_def] fun_eq_iff cong: option.map_cong)
  have "c < CHR 0x20 \<Longrightarrow> ?n < 128"
    by (simp add: less_char_def)
  with u show ?thesis
    by (auto simp: enc_char_def unescape_def)
qed

lemma map_apfst_comp: "map_option (apfst f) (map_option (apfst g) x) = map_option (apfst (f \<circ> g)) x"
  by (cases x) auto

lemma map_apfst_Nil: "map_option (apfst (\<lambda>a. a)) x = x"
  by (cases x) auto

lemma p_string_enc_chars: "p_string (enc_chars s @ r) = map_option (apfst ((@) s)) (p_string r)"
proof (induction s rule: enc_chars.induct)
  case (1 c d e s)
  have "utf8 0x2028 = [CHR 0xE2, CHR 0x80, CHR 0xA8]" "utf8 0x2029 = [CHR 0xE2, CHR 0x80, CHR 0xA9]"
    by (simp_all add: utf8_def char_of_eq_iff)
  note u = this
  show ?case
  proof (cases "c = CHR 0xE2 \<and> d = CHR 0x80 \<and> (e = CHR 0xA8 \<or> e = CHR 0xA9)")
    case True
    with 1(1,2) u show ?thesis
      by (auto simp: p_string_esc_u map_apfst_comp comp_def)
  next
    case False
    with 1(3) show ?thesis
      by (auto simp: p_string_enc_char map_apfst_comp comp_def)
  qed
qed (simp_all add: p_string_enc_char map_apfst_comp comp_def map_apfst_Nil)

lemma p_string_enc_string: "p_string (enc_chars s @ CHR 0x22 # r) = Some (s, r)"
  by (simp add: p_string_enc_chars)

text \<open>
  \<open>json_text t v\<close>: the text \<open>t\<close> is read as the value \<open>v\<close> wherever it stands.
\<close>

definition json_text :: "string \<Rightarrow> gojson \<Rightarrow> bool" where
  "json_text t v = (t \<noteq> [] \<and> \<not> is_ws (hd t) \<and> hd t \<notin> {CHR '']'', CHR ''}''} \<and>
     (\<forall>r n. ends r \<longrightarrow> 2 * length (t @ r) < n \<longrightarrow> p_value n (t @ r) = Some (v, r)))"

lemma json_textI:
  assumes "t \<noteq> []" and "\<not> is_ws (hd t)" and "hd t \<notin> {CHR '']'', CHR ''}''}"
    and "\<And>r n. ends r \<Longrightarrow> 2 * length (t @ r) \<le> n \<Longrightarrow> p_value (Suc n) (t @ r) = Some (v, r)"
  shows "json_text t v"
  unfolding json_text_def
proof (intro conjI allI impI)
  fix r n assume "ends r" and "2 * length (t @ r) < n"
  with assms(4) [of r "n - 1"] show "p_value n (t @ r) = Some (v, r)" by (cases n) auto
qed (use assms in auto)

lemma json_textD:
  "json_text t v \<Longrightarrow> ends r \<Longrightarrow> 2 * length (t @ r) < n \<Longrightarrow> p_value n (t @ r) = Some (v, r)"
  by (simp add: json_text_def)

lemma json_text_hd: "json_text t v \<Longrightarrow> skip_ws (t @ r) = t @ r \<and> t @ r \<noteq> []"
  by (cases t) (auto simp: json_text_def skip_ws_def)

lemma json_text_parse: "json_text t v \<Longrightarrow> json_parse t = Some v"
  using json_textD [of t v "[]" "2 * length t + 2"] json_text_hd [of t v "[]"]
  by (simp add: json_parse_def ends_def skip_ws_def)

lemma json_text_string: "json_text (enc_string s) (JString s)"
  by (rule json_textI) (auto simp: enc_string_def is_ws_def p_string_enc_string)

lemma json_text_literal:
  "json_text ''null'' JNull" "json_text ''true'' (JBool True)" "json_text ''false'' (JBool False)"
  by (rule json_textI; simp add: is_ws_def p_literal_def)+


lemma num_ok_hd:
  assumes "num_ok l"
  obtains c l' where "l = c # l'" and "c \<notin> {CHR ''n'', CHR ''t'', CHR ''f'', CHR 0x22, CHR ''['', CHR ''{'', CHR '']'', CHR ''}''}"
    and "\<not> is_ws c"
proof -
  from assms have l: "p_number l = Some (l, [])" by (simp add: num_ok_def)
  then obtain c l' where c: "l = c # l'" by (cases l) (auto simp: p_number_def)
  with l have h: "c = CHR ''-'' \<or> is_digit c"
    by (auto simp: p_number_def Let_def split: if_splits)
  have d: "c \<notin> {CHR ''n'', CHR ''t'', CHR ''f'', CHR 0x22, CHR ''['', CHR ''{'', CHR '']'', CHR ''}''}" if "is_digit c"
    using that by (auto simp: is_digit_def less_eq_char_def of_char_def)
  with h have "c \<notin> {CHR ''n'', CHR ''t'', CHR ''f'', CHR 0x22, CHR ''['', CHR ''{'', CHR '']'', CHR ''}''}"
    by (elim disjE) simp_all
  moreover have "\<not> is_ws c" using h is_digit_not_end [of c] by (elim disjE) (simp_all add: is_ws_def)
  ultimately show thesis using c that by blast
qed

lemma json_text_num:
  assumes "num_ok l"
  shows "json_text l (JNum l)"
proof -
  obtain c l' where c: "l = c # l'" "c \<notin> {CHR ''n'', CHR ''t'', CHR ''f'', CHR 0x22, CHR ''['', CHR ''{'', CHR '']'', CHR ''}''}"
    "\<not> is_ws c" using num_ok_hd [OF assms] by blast
  show ?thesis
  proof (rule json_textI)
    fix r n assume "ends r"
    with assms p_number_append [of l l "[]" r] have "p_number (c # l' @ r) = Some (l, r)"
      by (simp add: c(1) num_ok_def)
    then show "p_value (Suc n) (l @ r) = Some (JNum l, r)"
      using c by (simp add: p_literal_def)
  qed (use c in simp_all)
qed
lemma ends_simps [simp]: "ends []" "ends (CHR '','' # r)" "ends (CHR '']'' # r)" "ends (CHR ''}'' # r)"
  by (simp_all add: ends_def)

lemma consumed_append [simp]: "consumed (t @ r) r = t"
  by (simp add: consumed_def)

lemma skip_ws_Cons [simp]: "\<not> is_ws c \<Longrightarrow> skip_ws (c # r) = c # r"
  by (simp add: skip_ws_def)

lemma not_ws [simp]: "\<not> is_ws CHR '',''" "\<not> is_ws CHR '']''" "\<not> is_ws CHR ''}''" "\<not> is_ws CHR '':''"
    "\<not> is_ws CHR ''[''" "\<not> is_ws CHR ''{''" "\<not> is_ws CHR 0x22"
  by (simp_all add: is_ws_def)

lemma skip_ws_Join:
  "list_all2 json_text ts vs \<Longrightarrow> ts \<noteq> [] \<Longrightarrow>
   skip_ws (strings_Join ts '','' @ r) = strings_Join ts '','' @ r"
  by (cases ts rule: remdups_adj.cases) (auto simp: list_all2_Cons1 dest: json_text_hd)

lemma p_elems_texts:
  "list_all2 json_text ts vs \<Longrightarrow> ts \<noteq> [] \<Longrightarrow> 2 * length (strings_Join ts '','' @ CHR '']'' # r) + 1 < n \<Longrightarrow>
   p_elems n (strings_Join ts '','' @ CHR '']'' # r) = Some (zip ts vs, r)"
proof (induction ts arbitrary: vs n)
  case (Cons t ts)
  then obtain v vs' n' where v: "vs = v # vs'" "json_text t v" "list_all2 json_text ts vs'" and n: "n = Suc n'"
    by (cases n) (auto simp: list_all2_Cons1)
  show ?case
  proof (cases ts)
    case Nil
    have "p_value n' (t @ CHR '']'' # r) = Some (v, CHR '']'' # r)"
      by (rule json_textD [OF v(2)]) (use Cons.prems(3) n Nil in simp_all)
    with Nil v n show ?thesis by simp
  next
    case ts: (Cons t2 ts')
    let ?rest = "CHR '','' # strings_Join ts '','' @ CHR '']'' # r"
    have "p_value n' (t @ ?rest) = Some (v, ?rest)"
      by (rule json_textD [OF v(2)]) (use Cons.prems(3) n ts in simp_all)
    moreover have "p_elems n' (strings_Join ts '','' @ CHR '']'' # r) = Some (zip ts vs', r)"
      by (rule Cons.IH) (use Cons.prems(3) n ts v in simp_all)
    moreover have "skip_ws (strings_Join ts '','' @ CHR '']'' # r) = strings_Join ts '','' @ CHR '']'' # r"
      by (rule skip_ws_Join [OF v(3)]) (simp add: ts)
    ultimately show ?thesis using v n ts by simp
  qed
qed simp

definition member_text :: "string \<times> bytes \<Rightarrow> string" where
  "member_text kt = enc_string (fst kt) @ '':'' @ snd kt"

lemma enc_fields_member: "enc_fields fs = ''{'' @ strings_Join (map member_text fs) '','' @ ''}''"
  by (simp add: enc_fields_def member_text_def case_prod_beta cong: map_cong)

lemma skip_ws_members:
  "fs \<noteq> [] \<Longrightarrow> skip_ws (strings_Join (map member_text fs) '','' @ r) = strings_Join (map member_text fs) '','' @ r"
  by (cases fs rule: remdups_adj.cases) (auto simp: member_text_def enc_string_def)

lemma p_members_texts:
  "list_all2 (\<lambda>f. json_text (snd f)) fs vs \<Longrightarrow> fs \<noteq> [] \<Longrightarrow>
   2 * length (strings_Join (map member_text fs) '','' @ CHR ''}'' # r) + 1 < n \<Longrightarrow>
   p_members n (strings_Join (map member_text fs) '','' @ CHR ''}'' # r) =
     Some (map (\<lambda>(f, v). (fst f, snd f, v)) (zip fs vs), r)"
proof (induction fs arbitrary: vs n)
  case (Cons f fs)
  then obtain v vs' n' where v: "vs = v # vs'" "json_text (snd f) v" "list_all2 (\<lambda>f. json_text (snd f)) fs vs'" and n: "n = Suc n'"
    by (cases n) (auto simp: list_all2_Cons1)
  show ?case
  proof (cases fs)
    case Nil
    let ?rest = "CHR ''}'' # r"
    have "p_value n' (snd f @ ?rest) = Some (v, ?rest)"
      by (rule json_textD [OF v(2)]) (use Cons.prems(3) n Nil in \<open>simp_all add: member_text_def enc_string_def\<close>)
    with Nil v n json_text_hd [OF v(2), of ?rest] show ?thesis
      by (simp add: member_text_def enc_string_def p_string_enc_string)
  next
    case fs: (Cons f2 fs')
    let ?rest = "CHR '','' # strings_Join (map member_text fs) '','' @ CHR ''}'' # r"
    have "p_value n' (snd f @ ?rest) = Some (v, ?rest)"
      by (rule json_textD [OF v(2)]) (use Cons.prems(3) n fs in \<open>simp_all add: member_text_def [of f] enc_string_def [of "fst f"]\<close>)
    moreover have "p_members n' (strings_Join (map member_text fs) '','' @ CHR ''}'' # r) =
        Some (map (\<lambda>(f, v). (fst f, snd f, v)) (zip fs vs'), r)"
      by (rule Cons.IH) (use Cons.prems(3) n fs v in simp_all)
    moreover have "skip_ws (strings_Join (map member_text fs) '','' @ CHR ''}'' # r) =
        strings_Join (map member_text fs) '','' @ CHR ''}'' # r"
      by (rule skip_ws_members) (simp add: fs)
    ultimately show ?thesis using v n fs json_text_hd [OF v(2), of ?rest]
      by (simp add: member_text_def [of f] enc_string_def [of "fst f"] p_string_enc_string)
  qed
qed simp

lemma json_text_array:
  assumes "list_all2 json_text ts vs"
  shows "json_text (''['' @ strings_Join ts '','' @ '']'') (JArray vs)"
proof (rule json_textI)
  fix r n assume n: "2 * length ((''['' @ strings_Join ts '','' @ '']'') @ r) \<le> n"
  show "p_value (Suc n) ((''['' @ strings_Join ts '','' @ '']'') @ r) = Some (JArray vs, r)"
  proof (cases "ts = []")
    case False
    with p_elems_texts [OF assms False, of r n] n
    have e: "p_elems n (strings_Join ts '','' @ CHR '']'' # r) = Some (zip ts vs, r)" by simp
    obtain t v where "ts = t # tl ts" "json_text t v"
      using assms False by (cases ts) (auto simp: list_all2_Cons1)
    then obtain d u where "strings_Join ts '','' @ CHR '']'' # r = d # u" "d \<noteq> CHR '']''"
      by (cases ts rule: remdups_adj.cases; cases t) (auto simp: json_text_def)
    with e skip_ws_Join [OF assms False, of "CHR '']'' # r"] list_all2_lengthD [OF assms]
    show ?thesis by simp
  qed (use assms in simp)
qed simp_all

lemma json_text_members:
  assumes "list_all2 (\<lambda>f. json_text (snd f)) fs vs"
  shows "json_text (enc_fields fs) (JObject (zip (map fst fs) vs))"
proof (rule json_textI)
  fix r n assume n: "2 * length (enc_fields fs @ r) \<le> n"
  show "p_value (Suc n) (enc_fields fs @ r) = Some (JObject (zip (map fst fs) vs), r)"
  proof (cases "fs = []")
    case False
    with p_members_texts [OF assms False, of r n] n
    have e: "p_members n (strings_Join (map member_text fs) '','' @ CHR ''}'' # r) =
        Some (map (\<lambda>(f, v). (fst f, snd f, v)) (zip fs vs), r)"
      by (simp add: enc_fields_member)
    obtain u where "strings_Join (map member_text fs) '','' @ CHR ''}'' # r = CHR 0x22 # u"
      using False by (cases fs rule: remdups_adj.cases) (auto simp: member_text_def enc_string_def)
    moreover have "map ((\<lambda>(k, _, v). (k, v)) \<circ> (\<lambda>(f, v). (fst f, snd f, v))) (zip fs vs) = zip (map fst fs) vs"
      by (simp add: zip_map1 comp_def case_prod_beta)
    ultimately show ?thesis
      using e skip_ws_members [OF False, of "CHR ''}'' # r"] by (simp add: enc_fields_member comp_def)
  qed (simp add: enc_fields_member)
qed (simp_all add: enc_fields_member)

lemma raw_elems_text:
  assumes "list_all2 json_text ts vs"
  shows "raw_elems (''['' @ strings_Join ts '','' @ '']'') = Some ts"
proof (cases "ts = []")
  case False
  with assms have "vs \<noteq> []" by auto
  then show ?thesis
    using json_text_parse [OF json_text_array [OF assms]] skip_ws_Join [OF assms False, of "'']''"]
      p_elems_texts [OF assms False, of "[]" "2 * length (''['' @ strings_Join ts '','' @ '']'') + 1"]
      list_all2_lengthD [OF assms]
    by (simp add: raw_elems_def split: list.split)
qed (use assms json_text_parse [OF json_text_array [OF assms]] in \<open>simp add: raw_elems_def\<close>)

lemma raw_members_text:
  assumes "list_all2 (\<lambda>f. json_text (snd f)) fs vs"
  shows "raw_members (enc_fields fs) = Some fs"
proof (cases "fs = []")
  case False
  with assms have "vs \<noteq> []" by auto
  moreover have "map ((\<lambda>(k, raw, _). (k, raw)) \<circ> (\<lambda>(f, v). (fst f, snd f, v))) (zip fs vs) = fs"
    using list_all2_lengthD [OF assms] by (simp add: comp_def case_prod_beta map_fst_zip)
  ultimately show ?thesis
    using json_text_parse [OF json_text_members [OF assms]] skip_ws_members [OF False, of "''}''"] False
      p_members_texts [OF assms False, of "[]" "2 * length (enc_fields fs) + 1"]
      list_all2_lengthD [OF assms]
    by (cases vs; cases fs) (simp_all add: raw_members_def enc_fields_member comp_def)
qed (use assms json_text_parse [OF json_text_members [OF assms]] in \<open>simp add: raw_members_def\<close>)

text \<open>
  The canonical values: valid number literals, object keys strictly increasing. Decoding yields
  them, provided that the printed form of a \<open>float64\<close> is a valid literal.
\<close>

fun canon :: "gojson \<Rightarrow> bool" where
  "canon (JNum l) = num_ok l"
| "canon (JArray vs) = list_all canon vs"
| "canon (JObject kvs) = (sorted_wrt (<) (map fst kvs) \<and> list_all (\<lambda>kv. canon (snd kv)) kvs)"
| "canon v = True"

lemma sort_key_sorted: "sorted_wrt (<) (map f xs) \<Longrightarrow> sort_key f xs = xs"
  for f :: "_ \<Rightarrow> 'k :: linorder"
  by (rule sort_key_id_if_sorted) (simp add: strict_sorted_imp_sorted)

lemma json_text_encode: "canon v \<Longrightarrow> json_text (json_encode v) v"
proof (induction v)
  case (JArray vs)
  then have "list_all2 json_text (map json_encode vs) vs"
    by (auto simp: list_all2_conv_all_nth list_all_length)
  from json_text_array [OF this] show ?case by simp
next
  case (JObject kvs)
  let ?fs = "map (\<lambda>kv. (fst kv, json_encode (snd kv))) kvs"
  have "list_all2 (\<lambda>f. json_text (snd f)) ?fs (map snd kvs)"
    using JObject by (auto simp: list_all2_conv_all_nth list_all_length) (metis nth_mem prod.collapse snds.intros)
  from json_text_members [OF this] JObject.prems show ?case
    by (simp add: sort_key_sorted comp_def zip_map_fst_snd enc_fields_def case_prod_beta)
qed (auto intro: json_text_num json_text_string json_text_literal)

section \<open>Decoded values are canonical\<close>

lemma dedup_sorted: "sorted_wrt (<) (map fst (dedup kvs))"
proof -
  have "distinct (map fst (dedup kvs))"
    using distinct_clearjunk [of "rev kvs"] by (simp add: dedup_def distinct_map)
  then show ?thesis
    by (simp add: dedup_def strict_sorted_iff)
qed

lemma map_of_dedup: "map_of (dedup kvs) = map_of (rev kvs)"
proof -
  have "map_of (dedup kvs) = map_of (AList.clearjunk (rev kvs))"
    using dedup_sorted [of kvs]
    by (subst map_of_inject_set) (simp_all add: strict_sorted_iff, simp add: dedup_def)
  then show ?thesis by (simp add: map_of_clearjunk)
qed

lemma dedup_id:
  assumes "sorted_wrt (<) (map fst kvs)"
  shows "dedup kvs = kvs"
proof (rule map_sorted_distinct_set_unique [where f = fst])
  have "distinct (map fst kvs)" using assms by (simp add: strict_sorted_iff)
  then have r: "AList.clearjunk (rev kvs) = rev kvs" by (intro distinct_clearjunk_id) (simp add: rev_map [symmetric])
  show "set (dedup kvs) = set kvs" by (simp add: dedup_def r)
  then show "inj_on fst (set (dedup kvs) \<union> set kvs)"
    using \<open>distinct (map fst kvs)\<close> by (simp add: distinct_map)
qed (use assms dedup_sorted [of kvs] in \<open>simp_all add: strict_sorted_iff\<close>)

lemma dedup_subset: "set (dedup kvs) \<subseteq> set kvs"
proof -
  have "set (AList.clearjunk al) \<subseteq> set al" for al :: "('a \<times> 'b) list"
    by (induction al rule: clearjunk.induct) (auto simp: AList.delete_eq)
  from this [of "rev kvs"] show ?thesis by (simp add: dedup_def)
qed

lemma map_of_map_put [simp]: "map_of (map_put k v kvs) = (map_of (dedup kvs)) (k \<mapsto> v)"
  by (simp add: map_put_def map_of_dedup)

lemma sequence_Some: "sequence xs = Some ys \<longleftrightarrow> list_all2 (\<lambda>x y. x = Some y) xs ys"
  by (induction xs arbitrary: ys rule: sequence.induct) (auto simp: list_all2_Cons1)

locale float_text =
  fixes fnum :: "string \<Rightarrow> string option"
  assumes fnum_ok: "fnum l = Some l' \<Longrightarrow> num_ok l'"
    and fnum_idem: "fnum l = Some l' \<Longrightarrow> fnum l' = Some l'"
begin

lemma any_of_canon: "any_of fnum v = Some v' \<Longrightarrow> canon v' \<and> any_of fnum v' = Some v'"
proof (induction v arbitrary: v')
  case (JNum l)
  then show ?case using fnum_ok fnum_idem by auto
next
  case (JArray vs)
  then obtain ws where ws: "v' = JArray ws" "list_all2 (\<lambda>x y. any_of fnum x = Some y) vs ws"
    by (auto simp: sequence_Some list_all2_map1)
  have "canon w \<and> any_of fnum w = Some w" if "w \<in> set ws" for w
  proof -
    from list_all2_set2 [OF ws(2) that] obtain v where "v \<in> set vs" "any_of fnum v = Some w" by blast
    then show ?thesis by (rule JArray.IH)
  qed
  then show ?case
    by (auto simp: ws(1) list_all_iff sequence_Some list_all2_map1 list_all2_same)
next
  case (JObject kvs)
  let ?dec = "\<lambda>kv. map_option (Pair (fst kv)) (any_of fnum (snd kv))"
  from JObject.prems obtain ws where ws: "v' = JObject (dedup ws)" "list_all2 (\<lambda>x y. ?dec x = Some y) kvs ws"
    by (auto simp: sequence_Some list_all2_map1)
  have "canon (snd w) \<and> ?dec w = Some w" if "w \<in> set ws" for w
  proof -
    from list_all2_set2 [OF ws(2) that] obtain kv where "kv \<in> set kvs" "?dec kv = Some w" by blast
    with JObject.IH [of kv "snd kv"] show ?thesis by (cases kv) auto
  qed
  then have "canon (snd w) \<and> ?dec w = Some w" if "w \<in> set (dedup ws)" for w
    using that dedup_subset [of ws] by blast
  then have "sequence (map ?dec (dedup ws)) = Some (dedup ws)" and "list_all (\<lambda>kv. canon (snd kv)) (dedup ws)"
    unfolding sequence_Some list_all2_map1 list_all2_same list_all_iff by simp_all
  then show ?case
    by (simp add: ws(1) dedup_sorted dedup_id)
qed auto

theorem json_roundtrip:
  "any_of fnum v = Some v' \<Longrightarrow> Option.bind (json_parse (json_encode v')) (any_of fnum) = Some v'"
  using any_of_canon [of v v'] json_text_parse [OF json_text_encode, of v'] by simp

end

text \<open>An instance: a valid literal is printed as it was read.\<close>

definition literal_fnum :: "string \<Rightarrow> string option" where
  "literal_fnum l = (if num_ok l then Some l else None)"

interpretation lit: float_text literal_fnum
  by unfold_locales (auto simp: literal_fnum_def split: if_splits)

end
