(* ===== verification/RPC.thy ===== *)
theory RPC
  imports JSON
begin

text \<open>
  JSON-RPC messages (\<open>proxyd/rpc.go\<close>, \<open>proxyd/errors.go\<close>) and the error values of
  \<open>proxyd/backend.go\<close>. The sentinel errors are pointers to global variables that \<open>Start\<close> may
  modify and that callers compare by identity, so an RPC error is either a reference to a global
  or a fresh value (\<open>RPCErrPtr\<close>) and the contents of the globals are an argument \<open>G\<close>.

  \<open>hexs\<close> is \<open>hexutil.Uint64\<close>'s text form, a function of the go-ethereum library.
\<close>

section \<open>Errors\<close>

record RPCErr =
  Code :: int
  Message :: string
  Data :: string
  HTTPErrorCode :: int

datatype GlobalErr =
    ErrParseErr | ErrInternal | ErrMethodNotWhitelisted | ErrBackendOffline | ErrNoBackends
  | ErrBackendOverCapacity | ErrBackendBadResponse | ErrTooManyBatchRequests | ErrGatewayTimeout
  | ErrOverRateLimit | ErrOverSenderRateLimit | ErrNotHealthy | ErrBlockOutOfRange
  | ErrRequestBodyTooLarge | ErrBackendResponseTooLarge

definition JSONRPCVersion :: string where "JSONRPCVersion = ''2.0''"
definition JSONRPCErrorInternal :: int where "JSONRPCErrorInternal = - 32000"
definition notFoundRpcError :: int where "notFoundRpcError = - 32601"

type_synonym err_globals = "GlobalErr \<Rightarrow> RPCErr"

definition mk_RPCErr :: "int \<Rightarrow> string \<Rightarrow> int \<Rightarrow> RPCErr" where
  "mk_RPCErr code msg http = \<lparr>Code = code, Message = msg, Data = [], HTTPErrorCode = http\<rparr>"

fun global_errs :: err_globals where
  "global_errs ErrParseErr = mk_RPCErr (- 32700) ''parse error'' 400"
| "global_errs ErrInternal = mk_RPCErr JSONRPCErrorInternal ''internal error'' 500"
| "global_errs ErrMethodNotWhitelisted =
     mk_RPCErr notFoundRpcError ''rpc method is not whitelisted'' 403"
| "global_errs ErrBackendOffline = mk_RPCErr (JSONRPCErrorInternal - 10) ''backend offline'' 503"
| "global_errs ErrNoBackends =
     mk_RPCErr (JSONRPCErrorInternal - 11) ''no backend is currently healthy to serve traffic'' 503"
| "global_errs ErrBackendOverCapacity =
     mk_RPCErr (JSONRPCErrorInternal - 12) ''backend is over capacity'' 429"
| "global_errs ErrBackendBadResponse =
     mk_RPCErr (JSONRPCErrorInternal - 13) ''backend returned an invalid response'' 500"
| "global_errs ErrTooManyBatchRequests =
     mk_RPCErr (JSONRPCErrorInternal - 14) ''too many RPC calls in batch request'' 0"
| "global_errs ErrGatewayTimeout = mk_RPCErr (JSONRPCErrorInternal - 15) ''gateway timeout'' 504"
| "global_errs ErrOverRateLimit = mk_RPCErr (JSONRPCErrorInternal - 16) ''over rate limit'' 429"
| "global_errs ErrOverSenderRateLimit =
     mk_RPCErr (JSONRPCErrorInternal - 17) ''sender is over rate limit'' 429"
| "global_errs ErrNotHealthy =
     mk_RPCErr (JSONRPCErrorInternal - 18) ''backend is currently not healthy to serve traffic'' 503"
| "global_errs ErrBlockOutOfRange =
     mk_RPCErr (JSONRPCErrorInternal - 19) ''block is out of range'' 400"
| "global_errs ErrRequestBodyTooLarge =
     mk_RPCErr (JSONRPCErrorInternal - 21) ''request body too large'' 413"
| "global_errs ErrBackendResponseTooLarge =
     mk_RPCErr (JSONRPCErrorInternal - 20) ''backend response too large'' 500"

datatype RPCErrPtr = Global GlobalErr | Fresh RPCErr

text \<open>Sentinels made with \<open>errors.New\<close>.\<close>

datatype StdErr =
    ErrBackendUnexpectedJSONRPC | ErrConsensusGetReceiptsCantBeBatched
  | ErrConsensusGetReceiptsInvalidTarget | ErrLimitReaderOverLimit
  | ErrRewriteBlockOutOfRange | ErrRewriteRangeTooLarge
  | context_DeadlineExceeded | context_Canceled

fun std_text :: "StdErr \<Rightarrow> string" where
  "std_text ErrBackendUnexpectedJSONRPC = ''backend returned an unexpected JSON-RPC response''"
| "std_text ErrConsensusGetReceiptsCantBeBatched = ''consensus_getReceipts cannot be batched''"
| "std_text ErrConsensusGetReceiptsInvalidTarget = ''unsupported consensus_receipts_target''"
| "std_text ErrLimitReaderOverLimit = ''over read limit''"
| "std_text ErrRewriteBlockOutOfRange = ''block is out of range''"
| "std_text ErrRewriteRangeTooLarge = ''block range is too large''"
| "std_text context_DeadlineExceeded = ''context deadline exceeded''"
| "std_text context_Canceled = ''context canceled''"

text \<open>
  An error value: a pointer to an RPC error, a sentinel, any other error by its text (these are
  compared with nothing), or a wrapped error. A nil error is \<open>None\<close> at type \<open>error option\<close>;
  \<open>Wrapf\<close> can wrap nil.
\<close>

datatype error = RPCE RPCErrPtr | Std StdErr | Errorf string | Wrapf string "error option"

fun rpc_err_val :: "err_globals \<Rightarrow> RPCErrPtr \<Rightarrow> RPCErr" where
  "rpc_err_val G (Global g) = G g"
| "rpc_err_val G (Fresh e) = e"

definition RPCErr_Error :: "RPCErr \<Rightarrow> string" where
  "RPCErr_Error r = Message r"

definition RPCErr_Clone :: "RPCErr \<Rightarrow> RPCErr" where
  "RPCErr_Clone r = \<lparr>Code = Code r, Message = Message r, Data = [], HTTPErrorCode = HTTPErrorCode r\<rparr>"

fun error_text :: "err_globals \<Rightarrow> error \<Rightarrow> string" where
  "error_text G (RPCE p) = RPCErr_Error (rpc_err_val G p)"
| "error_text G (Std e) = std_text e"
| "error_text G (Errorf s) = s"
| "error_text G (Wrapf msg (Some e)) = msg @ '' '' @ error_text G e"
| "error_text G (Wrapf msg None) = msg @ '' %!w(<nil>)''"

definition wrapErr :: "error option \<Rightarrow> string \<Rightarrow> error" where
  "wrapErr err msg = Wrapf msg err"

text \<open>\<open>errors.Is\<close>: the error itself or one it wraps is the sentinel.\<close>

fun errors_Is :: "error option \<Rightarrow> error \<Rightarrow> bool" where
  "errors_Is None t = False"
| "errors_Is (Some e) t = (e = t \<or> (case e of Wrapf _ e' \<Rightarrow> errors_Is e' t | _ \<Rightarrow> False))"

definition ErrInvalidRequest :: "string \<Rightarrow> RPCErrPtr" where
  "ErrInvalidRequest msg = Fresh (mk_RPCErr (- 32600) msg 400)"

definition ErrInvalidParams :: "string \<Rightarrow> RPCErrPtr" where
  "ErrInvalidParams msg = Fresh (mk_RPCErr (- 32602) msg 400)"

section \<open>Messages\<close>

record RPCReq =
  rq_JSONRPC :: string
  rq_Method :: string
  rq_Params :: bytes
  rq_ID :: bytes

text \<open>
  The values a \<open>Result\<close> field holds: a decoded JSON value, a block number (\<open>hexutil.Uint64\<close>), a
  raw message, or a receipts result with the method that served it. A nil result is \<open>None\<close>.
\<close>

datatype result_value =
    ResJSON gojson
  | ResUint64 uint64
  | ResRaw bytes
  | ConsensusGetReceiptsResult string "result_value option"

record RPCRes =
  rs_JSONRPC :: string
  rs_Result :: "result_value option"
  rs_Error :: "RPCErrPtr option"
  rs_ID :: bytes

definition IsError :: "RPCRes \<Rightarrow> bool" where
  "IsError r = (rs_Error r \<noteq> None)"

definition NewRPCErrorRes :: "err_globals \<Rightarrow> bytes \<Rightarrow> error \<Rightarrow> RPCRes" where
  "NewRPCErrorRes G i err =
     (let rpcErr = (case err of
            RPCE p \<Rightarrow> p
          | _ \<Rightarrow> Fresh (mk_RPCErr JSONRPCErrorInternal (error_text G err) 0))
      in \<lparr>rs_JSONRPC = JSONRPCVersion, rs_Result = None, rs_Error = Some rpcErr, rs_ID = i\<rparr>)"

definition NewRPCRes :: "bytes \<Rightarrow> result_value option \<Rightarrow> RPCRes" where
  "NewRPCRes i result =
     \<lparr>rs_JSONRPC = JSONRPCVersion, rs_Result = result, rs_Error = None, rs_ID = i\<rparr>"

definition IsValidID :: "bytes \<Rightarrow> bool" where
  "IsValidID i =
     (if strings_HasPrefix i [CHR 0x22] \<and> strings_HasSuffix i [CHR 0x22] then 2 < length i
      else 0 < length i \<and> i ! 0 \<noteq> CHR ''{'' \<and> i ! 0 \<noteq> CHR ''['')"

definition ValidateRPCReq :: "RPCReq \<Rightarrow> error option" where
  "ValidateRPCReq req =
     (if rq_JSONRPC req \<noteq> JSONRPCVersion then
        Some (RPCE (ErrInvalidRequest ''invalid JSON-RPC version''))
      else if rq_Method req = [] then Some (RPCE (ErrInvalidRequest ''no method specified''))
      else if \<not> IsValidID (rq_ID req) then Some (RPCE (ErrInvalidRequest ''invalid ID''))
      else None)"

fun IsBatch :: "bytes \<Rightarrow> bool" where
  "IsBatch [] = False"
| "IsBatch (c # raw) =
     (if c = CHR 0x20 \<or> c = CHR 0x09 \<or> c = CHR 0x0A \<or> c = CHR 0x0D then IsBatch raw
      else c = CHR ''['')"

section \<open>Decoding\<close>

text \<open>An \<open>int\<close> field takes a number literal without fraction and exponent that fits 64 bits.\<close>

definition digits_val :: "string \<Rightarrow> int" where
  "digits_val ds = foldl (\<lambda>n c. 10 * n + (of_char c - 48)) 0 ds"

definition int_literal :: "string \<Rightarrow> int option" where
  "int_literal l =
     (let neg = (take 1 l = ''-''); ds = (if neg then drop 1 l else l);
          n = (if neg then - digits_val ds else digits_val ds)
      in if list_all is_digit ds \<and> - (2 ^ 63) \<le> n \<and> n < 2 ^ 63 then Some n else None)"

fun int_field :: "bytes list \<Rightarrow> int \<Rightarrow> int option" where
  "int_field [] acc = Some acc"
| "int_field (raw # rs) acc =
     (case json_parse raw of
        Some (JNum l) \<Rightarrow> (case int_literal l of Some n \<Rightarrow> int_field rs n | None \<Rightarrow> None)
      | Some JNull \<Rightarrow> int_field rs acc
      | _ \<Rightarrow> None)"

definition Unmarshal_RPCReq :: "bytes \<Rightarrow> RPCReq option" where
  "Unmarshal_RPCReq body =
     (case json_parse body of
        Some JNull \<Rightarrow> Some \<lparr>rq_JSONRPC = [], rq_Method = [], rq_Params = [], rq_ID = []\<rparr>
      | _ \<Rightarrow>
          (case raw_members body of
             None \<Rightarrow> None
           | Some ms \<Rightarrow>
               (case (string_field (field_raws ''jsonrpc'' ms) [], string_field (field_raws ''method'' ms) []) of
                  (Some v, Some m) \<Rightarrow>
                    Some \<lparr>rq_JSONRPC = v, rq_Method = m,
                      rq_Params = raw_field (field_raws ''params'' ms),
                      rq_ID = raw_field (field_raws ''id'' ms)\<rparr>
                | _ \<Rightarrow> None)))"

text \<open>The \<open>Error\<close> pointer: null clears it, an object fills the error it points to, if any, or a
  new one.\<close>

fun err_field :: "bytes list \<Rightarrow> RPCErr option \<Rightarrow> RPCErr option option" where
  "err_field [] acc = Some acc"
| "err_field (raw # rs) acc =
     (case json_parse raw of
        Some JNull \<Rightarrow> err_field rs None
      | _ \<Rightarrow>
          (case raw_members raw of
             None \<Rightarrow> None
           | Some ms \<Rightarrow>
               (let e = (case acc of Some e \<Rightarrow> e | None \<Rightarrow> mk_RPCErr 0 [] 0)
                in case (int_field (field_raws ''code'' ms) (Code e),
                         string_field (field_raws ''message'' ms) (Message e),
                         string_field (field_raws ''data'' ms) (Data e)) of
                     (Some c, Some m, Some d) \<Rightarrow>
                       err_field rs (Some (e\<lparr>Code := c, Message := m, Data := d\<rparr>))
                   | _ \<Rightarrow> None)))"

text \<open>The \<open>Result\<close> field: the last member decides, and every one must decode.\<close>

fun any_field :: "(string \<Rightarrow> string option) \<Rightarrow> bytes list \<Rightarrow> result_value option \<Rightarrow> result_value option option"
where
  "any_field fnum [] acc = Some acc"
| "any_field fnum (raw # rs) acc =
     (case Option.bind (json_parse raw) (any_of fnum) of
        None \<Rightarrow> None
      | Some JNull \<Rightarrow> any_field fnum rs None
      | Some v \<Rightarrow> any_field fnum rs (Some (ResJSON v)))"

definition zero_RPCRes :: RPCRes where
  "zero_RPCRes = \<lparr>rs_JSONRPC = [], rs_Result = None, rs_Error = None, rs_ID = []\<rparr>"

definition Unmarshal_RPCRes :: "(string \<Rightarrow> string option) \<Rightarrow> bytes \<Rightarrow> RPCRes option" where
  "Unmarshal_RPCRes fnum body =
     (case json_parse body of
        Some JNull \<Rightarrow> Some zero_RPCRes
      | _ \<Rightarrow>
          (case raw_members body of
             None \<Rightarrow> None
           | Some ms \<Rightarrow>
               (case (string_field (field_raws ''JSONRPC'' ms) [],
                      any_field fnum (field_raws ''Result'' ms) None,
                      err_field (field_raws ''Error'' ms) None) of
                  (Some v, Some r, Some e) \<Rightarrow>
                    Some \<lparr>rs_JSONRPC = v, rs_Result = r, rs_Error = map_option Fresh e,
                      rs_ID = raw_field (field_raws ''ID'' ms)\<rparr>
                | _ \<Rightarrow> None)))"

text \<open>A slice of pointers: an element null is a nil pointer, the text null a nil slice.\<close>

definition Unmarshal_RPCRess :: "(string \<Rightarrow> string option) \<Rightarrow> bytes \<Rightarrow> RPCRes option list option" where
  "Unmarshal_RPCRess fnum body =
     (case json_parse body of
        Some JNull \<Rightarrow> Some []
      | _ \<Rightarrow>
          (case raw_elems body of
             None \<Rightarrow> None
           | Some raws \<Rightarrow>
               sequence (map (\<lambda>raw. if json_parse raw = Some JNull then Some None
                                    else map_option Some (Unmarshal_RPCRes fnum raw)) raws)))"

definition ParseRPCReq :: "bytes \<Rightarrow> error + RPCReq" where
  "ParseRPCReq body = (case Unmarshal_RPCReq body of
       None \<Rightarrow> Inl (RPCE (Global ErrParseErr))
     | Some req \<Rightarrow> Inr req)"

definition ParseBatchRPCReq :: "bytes \<Rightarrow> bytes list option" where
  "ParseBatchRPCReq body = (case json_parse body of
       Some JNull \<Rightarrow> Some []
     | _ \<Rightarrow> raw_elems body)"

text \<open>The reader yields the bytes of the body or an error; the text of a decoding error is
  \<open>json_err\<close>.\<close>

definition ParseRPCRes :: "(string \<Rightarrow> string option) \<Rightarrow> string \<Rightarrow> error + bytes \<Rightarrow> error + RPCRes" where
  "ParseRPCRes fnum json_err r = (case r of
       Inl err \<Rightarrow> Inl (wrapErr (Some err) ''error reading RPC response'')
     | Inr body \<Rightarrow>
         (case Unmarshal_RPCRes fnum body of
            None \<Rightarrow> Inl (wrapErr (Some (Errorf json_err)) ''error unmarshalling RPC response'')
          | Some res \<Rightarrow> Inr res))"

section \<open>Encoding\<close>

definition marshal_RPCReq :: "RPCReq \<Rightarrow> bytes option" where
  "marshal_RPCReq req =
     (case (compact (rq_Params req), compact (rq_ID req)) of
        (Some ps, Some i) \<Rightarrow>
          Some (enc_fields [(''jsonrpc'', enc_string (rq_JSONRPC req)),
            (''method'', enc_string (rq_Method req)), (''params'', ps), (''id'', i)])
      | _ \<Rightarrow> None)"

text \<open>\<open>strconv.Itoa\<close>.\<close>

fun nat_digits :: "nat \<Rightarrow> string" where
  "nat_digits n = (if n < 10 then [char_of (n + 48)] else nat_digits (n div 10) @ [char_of (n mod 10 + 48)])"

declare nat_digits.simps [simp del]

definition int_text :: "int \<Rightarrow> string" where
  "int_text n = (if n < 0 then ''-'' else []) @ nat_digits (nat \<bar>n\<bar>)"

definition marshal_RPCErr :: "RPCErr \<Rightarrow> bytes" where
  "marshal_RPCErr e = enc_fields
     ([(''code'', int_text (Code e)), (''message'', enc_string (Message e))] @
      (if Data e = [] then [] else [(''data'', enc_string (Data e))]))"

fun marshal_result :: "(uint64 \<Rightarrow> string) \<Rightarrow> result_value option \<Rightarrow> bytes option" where
  "marshal_result hexs None = Some ''null''"
| "marshal_result hexs (Some (ResJSON v)) = Some (json_encode v)"
| "marshal_result hexs (Some (ResUint64 n)) = Some (enc_string (hexs n))"
| "marshal_result hexs (Some (ResRaw raw)) = compact raw"
| "marshal_result hexs (Some (ConsensusGetReceiptsResult m r)) =
     map_option (\<lambda>t. enc_fields [(''method'', enc_string m), (''result'', t)]) (marshal_result hexs r)"

definition MarshalJSON :: "(uint64 \<Rightarrow> string) \<Rightarrow> err_globals \<Rightarrow> RPCRes \<Rightarrow> bytes option" where
  "MarshalJSON hexs G r =
     (if rs_Result r = None \<and> rs_Error r = None then
        map_option (\<lambda>i. enc_fields [(''jsonrpc'', enc_string (rs_JSONRPC r)), (''result'', ''null''), (''id'', i)])
          (compact (rs_ID r))
      else
        (case (marshal_result hexs (rs_Result r), compact (rs_ID r)) of
           (Some res, Some i) \<Rightarrow>
             Some (enc_fields ([(''jsonrpc'', enc_string (rs_JSONRPC r))] @
               (if rs_Result r = None then [] else [(''result'', res)]) @
               (case rs_Error r of None \<Rightarrow> []
                | Some p \<Rightarrow> [(''error'', marshal_RPCErr (rpc_err_val G p))]) @
               [(''id'', i)]))
         | _ \<Rightarrow> None))"

end
