(* ===== verification/Eth_Lib.thy ===== *)
theory Eth_Lib
  imports RPC
begin

text \<open>
  What proxyd uses of libraries outside the repository when it reads and writes block parameters:
  \<open>hexutil\<close> and \<open>rpc.BlockNumberOrHash\<close> of go-ethereum, and the parts of \<open>encoding/json\<close> that
  depend on how \<open>float64\<close> values and decoding errors are printed. The definitions take them as one
  argument, a record \<open>lib\<close>; the locale \<open>eth_lib\<close> states the documented behaviour the theorems rely
  on, and \<open>geth\<close> is an instance.
\<close>

section \<open>The interface\<close>

text \<open>\<open>rpc.BlockNumber\<close> is an \<open>int64\<close>, negative for the tags.\<close>

record BlockNumberOrHash =
  BlockNumber :: "int option"
  BlockHash :: "string option"
  RequireCanonical :: bool

record lib =
  fnum :: "string \<Rightarrow> string option"
  json_err :: "bytes \<Rightarrow> string"
  hex_String :: "uint64 \<Rightarrow> string"
  hex_DecodeUint64 :: "string \<Rightarrow> string + uint64"
  bnh_UnmarshalJSON :: "bytes \<Rightarrow> string + BlockNumberOrHash"
  bnh_Value :: "BlockNumberOrHash \<Rightarrow> gojson"
  bn_String :: "int \<Rightarrow> string"
  hash_Hex :: "string \<Rightarrow> string"
  SafeBlockNumber :: int
  FinalizedBlockNumber :: int
  LatestBlockNumber :: int
  PendingBlockNumber :: int
  EarliestBlockNumber :: int

definition BlockNumberOrHashWithNumber :: "int \<Rightarrow> BlockNumberOrHash" where
  "BlockNumberOrHashWithNumber n = \<lparr>BlockNumber = Some n, BlockHash = None, RequireCanonical = False\<rparr>"

section \<open>Decoding parameters\<close>

text \<open>\<open>json.Unmarshal\<close> into \<open>[]interface{}\<close>, \<open>[]map[string]interface{}\<close> (a nil map is \<open>None\<close>)
  and \<open>[]rpc.BlockNumberOrHash\<close>.\<close>

definition Unmarshal_anys :: "'a lib_scheme \<Rightarrow> bytes \<Rightarrow> gojson list option" where
  "Unmarshal_anys L body = (case json_parse body of
       Some JNull \<Rightarrow> Some []
     | Some (JArray vs) \<Rightarrow> sequence (map (any_of (fnum L)) vs)
     | _ \<Rightarrow> None)"

fun map_elem :: "gojson \<Rightarrow> (string \<times> gojson) list option option" where
  "map_elem JNull = Some None"
| "map_elem (JObject kvs) = Some (Some kvs)"
| "map_elem _ = None"

definition Unmarshal_maps :: "'a lib_scheme \<Rightarrow> bytes \<Rightarrow> (string \<times> gojson) list option list option" where
  "Unmarshal_maps L body = Option.bind (Unmarshal_anys L body) (\<lambda>vs. sequence (map map_elem vs))"

definition Unmarshal_bnhs :: "'a lib_scheme \<Rightarrow> bytes \<Rightarrow> BlockNumberOrHash list option" where
  "Unmarshal_bnhs L body = (case json_parse body of
       Some JNull \<Rightarrow> Some []
     | _ \<Rightarrow>
         (case raw_elems body of
            None \<Rightarrow> None
          | Some raws \<Rightarrow>
              sequence (map (\<lambda>raw. case bnh_UnmarshalJSON L raw of Inl _ \<Rightarrow> None | Inr b \<Rightarrow> Some b) raws)))"

section \<open>Documented behaviour\<close>

text \<open>
  A block number is printed in a form that both decoders read back, as a JSON string and as the
  object of a \<open>BlockNumberOrHash\<close>; the tag "latest" is read as its constant; the constants for
  the tags are distinct and at most 0.
\<close>

locale eth_lib = float_text "fnum L" for L :: "'a lib_scheme" +
  assumes decode_String: "hex_DecodeUint64 L (hex_String L n) = Inr n"
    and bnh_String: "uint n < 2 ^ 63 \<Longrightarrow>
      bnh_UnmarshalJSON L (enc_string (hex_String L n)) = Inr (BlockNumberOrHashWithNumber (uint n))"
    and bnh_Value: "0 \<le> i \<Longrightarrow> i < 2 ^ 63 \<Longrightarrow>
      bnh_UnmarshalJSON L (json_encode (bnh_Value L (BlockNumberOrHashWithNumber i))) =
        Inr (BlockNumberOrHashWithNumber i)"
    and bnh_Value_canon: "canon (bnh_Value L b) \<and> any_of (fnum L) (bnh_Value L b) = Some (bnh_Value L b)"
    and bnh_latest: "bnh_UnmarshalJSON L (enc_string ''latest'') =
      Inr (BlockNumberOrHashWithNumber (LatestBlockNumber L))"
    and tags_distinct: "distinct [SafeBlockNumber L, FinalizedBlockNumber L, LatestBlockNumber L,
      PendingBlockNumber L, EarliestBlockNumber L]"
    and tags_neg: "SafeBlockNumber L < 0" "FinalizedBlockNumber L < 0" "LatestBlockNumber L < 0"
      "PendingBlockNumber L < 0" "EarliestBlockNumber L = 0"
begin

lemma Unmarshal_anys_canon:
  assumes "Unmarshal_anys L body = Some vs" and "v \<in> set vs"
  shows "canon v \<and> any_of (fnum L) v = Some v"
proof -
  from assms(1) consider "vs = []" | us where "list_all2 (\<lambda>x y. any_of (fnum L) x = Some y) us vs"
    by (auto simp: Unmarshal_anys_def sequence_Some list_all2_map1 split: option.splits gojson.splits)
  then show ?thesis
  proof cases
    case 2
    then obtain u where "any_of (fnum L) u = Some v" using list_all2_set2 [OF 2 assms(2)] by blast
    then show ?thesis by (rule any_of_canon)
  qed (use assms in simp)
qed

text \<open>What is printed is read back.\<close>

lemma Unmarshal_anys_encode:
  assumes "\<And>v. v \<in> set vs \<Longrightarrow> canon v \<and> any_of (fnum L) v = Some v"
  shows "Unmarshal_anys L (json_encode (JArray vs)) = Some vs"
proof -
  have "canon (JArray vs)" using assms by (simp add: list_all_iff)
  then have "json_parse (json_encode (JArray vs)) = Some (JArray vs)"
    by (rule json_text_parse [OF json_text_encode])
  moreover have "sequence (map (any_of (fnum L)) vs) = Some vs"
    using assms by (simp add: sequence_Some list_all2_map1 list_all2_same)
  ultimately show ?thesis by (simp add: Unmarshal_anys_def)
qed

end

section \<open>An instance\<close>

text \<open>The functions of go-ethereum at the level the locale describes.\<close>

fun nat_hex :: "nat \<Rightarrow> string" where
  "nat_hex n = (if n < 16 then [nibble n] else nat_hex (n div 16) @ [nibble (n mod 16)])"

declare nat_hex.simps [simp del]

fun hex_digits :: "string \<Rightarrow> nat \<Rightarrow> nat option" where
  "hex_digits [] acc = Some acc"
| "hex_digits (c # s) acc = (case hex_val c of None \<Rightarrow> None | Some d \<Rightarrow> hex_digits s (16 * acc + d))"

definition geth_String :: "uint64 \<Rightarrow> string" where
  "geth_String n = ''0x'' @ nat_hex (unat n)"

definition geth_Decode :: "string \<Rightarrow> string + uint64" where
  "geth_Decode s =
     (if \<not> strings_HasPrefix s ''0x'' then Inl ''hex string without 0x prefix''
      else if length s = 2 then Inl ''hex string \"0x\"''
      else if 3 < length s \<and> s ! 2 = CHR ''0'' then Inl ''hex number with leading zero digits''
      else case hex_digits (drop 2 s) 0 of
          None \<Rightarrow> Inl ''invalid hex string''
        | Some n \<Rightarrow> if 2 ^ 64 \<le> n then Inl ''hex number > 64 bits'' else Inr (of_nat n))"

definition geth_tag :: "string \<Rightarrow> string + int" where
  "geth_tag s =
     (if s = ''earliest'' then Inr 0
      else if s = ''latest'' then Inr (- 2)
      else if s = ''pending'' then Inr (- 1)
      else if s = ''finalized'' then Inr (- 3)
      else if s = ''safe'' then Inr (- 4)
      else case geth_Decode s of
          Inl e \<Rightarrow> Inl e
        | Inr n \<Rightarrow> if 2 ^ 63 \<le> uint n then Inl ''block number larger than int64'' else Inr (uint n))"

definition geth_bnh_Unmarshal :: "bytes \<Rightarrow> string + BlockNumberOrHash" where
  "geth_bnh_Unmarshal body = (case json_parse body of
       Some (JString s) \<Rightarrow>
         if length s = 66 then
           Inr \<lparr>BlockNumber = None, BlockHash = Some s, RequireCanonical = False\<rparr>
         else (case geth_tag s of Inl e \<Rightarrow> Inl e | Inr n \<Rightarrow> Inr (BlockNumberOrHashWithNumber n))
     | Some (JObject kvs) \<Rightarrow>
         (let canonical = (map_of kvs ''requireCanonical'' = Some (JBool True))
          in case (map_of kvs ''blockNumber'', map_of kvs ''blockHash'') of
               (Some (JString n), None) \<Rightarrow>
                 (case geth_tag n of
                    Inl e \<Rightarrow> Inl e
                  | Inr n \<Rightarrow> Inr \<lparr>BlockNumber = Some n, BlockHash = None, RequireCanonical = canonical\<rparr>)
             | (None, Some (JString h)) \<Rightarrow>
                 Inr \<lparr>BlockNumber = None, BlockHash = Some h, RequireCanonical = canonical\<rparr>
             | (None, None) \<Rightarrow> Inr \<lparr>BlockNumber = None, BlockHash = None, RequireCanonical = canonical\<rparr>
             | _ \<Rightarrow> Inl ''cannot specify both BlockHash and BlockNumber, choose one or the other'')
     | _ \<Rightarrow> Inl ''json: cannot unmarshal'')"

definition geth_bn_String :: "int \<Rightarrow> string" where
  "geth_bn_String i =
     (if i = 0 then ''earliest'' else if i = - 1 then ''pending'' else if i = - 2 then ''latest''
      else if i = - 3 then ''finalized'' else if i = - 4 then ''safe''
      else if i < 0 then ''<invalid>'' else geth_String (of_int i))"

definition geth_bnh_Value :: "BlockNumberOrHash \<Rightarrow> gojson" where
  "geth_bnh_Value b = JObject
     ((case BlockHash b of None \<Rightarrow> [] | Some h \<Rightarrow> [(''blockHash'', JString h)]) @
      (case BlockNumber b of None \<Rightarrow> [] | Some n \<Rightarrow> [(''blockNumber'', JString (geth_bn_String n))]) @
      (if RequireCanonical b then [(''requireCanonical'', JBool True)] else []))"

definition geth :: lib where
  "geth = \<lparr>fnum = literal_fnum, json_err = (\<lambda>_. ''invalid JSON''), hex_String = geth_String,
     hex_DecodeUint64 = geth_Decode, bnh_UnmarshalJSON = geth_bnh_Unmarshal,
     bnh_Value = geth_bnh_Value, bn_String = geth_bn_String, hash_Hex = (\<lambda>h. h),
     SafeBlockNumber = - 4, FinalizedBlockNumber = - 3, LatestBlockNumber = - 2,
     PendingBlockNumber = - 1, EarliestBlockNumber = 0\<rparr>"

lemma unat_uint64_less: "unat (n :: uint64) < 2 ^ 64"
  using unsigned_less [of n, where 'a = nat] by simp

lemma hex_digits_append:
  "hex_digits (s @ t) acc = (case hex_digits s acc of None \<Rightarrow> None | Some a \<Rightarrow> hex_digits t a)"
  by (induction s arbitrary: acc) (auto split: option.splits)

lemma hex_digits_nat_hex: "hex_digits (nat_hex n) 0 = Some n"
proof (induction n rule: nat_hex.induct)
  case (1 n)
  then show ?case
    by (cases "n < 16") (simp_all add: nat_hex.simps [of n] hex_digits_append hex_val_nibble)
qed

lemma nat_hex_hd: "n \<noteq> 0 \<Longrightarrow> hd (nat_hex n) \<noteq> CHR ''0''"
proof (induction n rule: nat_hex.induct)
  case (1 n)
  have small: "\<forall>i \<in> {1..<16}. nibble i \<noteq> CHR ''0''" by code_simp
  have ne: "nat_hex m \<noteq> []" for m by (simp add: nat_hex.simps [of m])
  show ?case
  proof (cases "n < 16")
    case False
    with 1 ne show ?thesis by (simp add: nat_hex.simps [of n] hd_append)
  qed (use small 1 in \<open>simp add: nat_hex.simps [of n]\<close>)
qed

lemma nat_hex_length: "n < 16 ^ Suc k \<Longrightarrow> length (nat_hex n) \<le> Suc k"
proof (induction n arbitrary: k rule: nat_hex.induct)
  case (1 n)
  show ?case
  proof (cases "n < 16")
    case False
    with 1 have "k \<noteq> 0" by (cases k) auto
    then obtain j where k: "k = Suc j" by (cases k) auto
    from 1(2) have "n div 16 < 16 ^ Suc j" by (simp add: k less_mult_imp_div_less mult.commute)
    with 1(1) [OF False] False k show ?thesis by (simp add: nat_hex.simps [of n])
  qed (simp add: nat_hex.simps [of n])
qed

lemma geth_Decode_String: "geth_Decode (geth_String n) = Inr n"
proof -
  have ne: "nat_hex (unat n) \<noteq> []" by (simp add: nat_hex.simps [of "unat n"])
  have "\<not> (1 < length (nat_hex (unat n)) \<and> hd (nat_hex (unat n)) = CHR ''0'')"
    using nat_hex_hd [of "unat n"] by (cases "unat n = 0") (auto simp: nat_hex.simps [of 0])
  moreover have "unat n < 2 ^ 64" by (rule unat_uint64_less)
  ultimately show ?thesis
    using ne by (auto simp: geth_Decode_def geth_String_def strings_HasPrefix_def hex_digits_nat_hex
        hd_conv_nth)
qed

lemma geth_tag_String:
  assumes "uint n < 2 ^ 63"
  shows "geth_tag (geth_String n) = Inr (uint n)"
  using assms by (simp add: geth_tag_def geth_Decode_String) (simp add: geth_String_def)

lemma geth_tag_bn_String: "0 \<le> i \<Longrightarrow> i < 2 ^ 63 \<Longrightarrow> geth_tag (geth_bn_String i) = Inr i"
proof -
  assume i: "0 \<le> i" "i < 2 ^ 63"
  then have "uint (of_int i :: uint64) = i" by (simp add: uint_word_of_int)
  with i geth_tag_String [of "of_int i"] show ?thesis
    by (auto simp: geth_bn_String_def geth_tag_def [of "''earliest''"])
qed

lemma geth_String_length: "length (geth_String n) \<le> 18"
  using nat_hex_length [of "unat n" 15] unat_uint64_less [of n] by (simp add: geth_String_def)

interpretation gl: eth_lib geth
proof unfold_locales
  fix n :: uint64 and i :: int and b
  show "uint n < 2 ^ 63 \<Longrightarrow> bnh_UnmarshalJSON geth (enc_string (hex_String geth n)) = Inr (BlockNumberOrHashWithNumber (uint n))"
    using geth_String_length [of n]
    by (auto simp: geth_def geth_bnh_Unmarshal_def json_text_parse [OF json_text_string] geth_tag_String)
  show "canon (bnh_Value geth b) \<and> any_of (fnum geth) (bnh_Value geth b) = Some (bnh_Value geth b)"
    by (auto simp: geth_def geth_bnh_Value_def dedup_id split: option.splits)
  show "0 \<le> i \<Longrightarrow> i < 2 ^ 63 \<Longrightarrow>
      bnh_UnmarshalJSON geth (json_encode (bnh_Value geth (BlockNumberOrHashWithNumber i))) =
        Inr (BlockNumberOrHashWithNumber i)"
  proof -
    assume i: "0 \<le> i" "i < 2 ^ 63"
    have "canon (bnh_Value geth (BlockNumberOrHashWithNumber i))"
      by (simp add: geth_def geth_bnh_Value_def BlockNumberOrHashWithNumber_def)
    from json_text_parse [OF json_text_encode [OF this]] i show ?thesis
      by (simp add: geth_def geth_bnh_Unmarshal_def geth_bnh_Value_def BlockNumberOrHashWithNumber_def
          geth_tag_bn_String del: json_encode.simps)
  qed
  show "bnh_UnmarshalJSON geth (enc_string ''latest'') = Inr (BlockNumberOrHashWithNumber (LatestBlockNumber geth))"
    by (simp add: geth_def geth_bnh_Unmarshal_def json_text_parse [OF json_text_string] geth_tag_def)
qed (auto simp: geth_def literal_fnum_def geth_Decode_String split: if_splits)

end
