(* ===== verification/Rewriter.thy ===== *)
theory Rewriter
  imports Eth_Lib
begin

text \<open>
  Block tag rewriting (\<open>proxyd/rewriter.go\<close>): requests are pinned to the consensus group's block
  numbers before they are forwarded, \<open>eth_blockNumber\<close> is answered from them. The functions that
  modify \<open>*RPCReq\<close> and \<open>*RPCRes\<close> return the new request and response; \<open>rewriteRange\<close> indexes the
  parameters without a bounds check and may panic.
\<close>

section \<open>Model\<close>

record RewriteContext =
  latest :: uint64
  safe :: uint64
  finalized :: uint64
  maxBlockRange :: uint64

datatype RewriteResult =
  RewriteNone | RewriteOverrideError | RewriteOverrideRequest | RewriteOverrideResponse

type_synonym rewrite_ret = "RPCReq \<times> RPCRes \<times> RewriteResult \<times> error option"

definition remarshalBlockNumberOrHash :: "'a lib_scheme \<Rightarrow> gojson \<Rightarrow> error + BlockNumberOrHash" where
  "remarshalBlockNumberOrHash L current =
     (case bnh_UnmarshalJSON L (json_encode current) of
        Inl e \<Rightarrow> Inl (Errorf e)
      | Inr bnh \<Rightarrow> Inr bnh)"

definition rewriteTag :: "'a lib_scheme \<Rightarrow> RewriteContext \<Rightarrow> string \<Rightarrow> error + (string \<times> bool)" where
  "rewriteTag L rctx current =
     (case remarshalBlockNumberOrHash L (JString current) of
        Inl err \<Rightarrow> Inl err
      | Inr bnh \<Rightarrow>
          (case BlockNumber bnh of
             None \<Rightarrow> Inr (current, False)
           | Some n \<Rightarrow>
               if n = PendingBlockNumber L \<or> n = EarliestBlockNumber L then Inr (current, False)
               else if n = FinalizedBlockNumber L then Inr (hex_String L (finalized rctx), True)
               else if n = SafeBlockNumber L then Inr (hex_String L (safe rctx), True)
               else if n = LatestBlockNumber L then Inr (hex_String L (latest rctx), True)
               else if n > sint (latest rctx) then Inl (Std ErrRewriteBlockOutOfRange)
               else Inr (current, False)))"

definition rewriteTagBlockNumberOrHash ::
  "'a lib_scheme \<Rightarrow> RewriteContext \<Rightarrow> BlockNumberOrHash \<Rightarrow> error + (BlockNumberOrHash \<times> bool)" where
  "rewriteTagBlockNumberOrHash L rctx current =
     (case BlockNumber current of
        None \<Rightarrow> Inr (current, False)
      | Some n \<Rightarrow>
          if n = PendingBlockNumber L \<or> n = EarliestBlockNumber L then Inr (current, False)
          else if n = FinalizedBlockNumber L then
            Inr (BlockNumberOrHashWithNumber (sint (finalized rctx)), True)
          else if n = SafeBlockNumber L then
            Inr (BlockNumberOrHashWithNumber (sint (safe rctx)), True)
          else if n = LatestBlockNumber L then
            Inr (BlockNumberOrHashWithNumber (sint (latest rctx)), True)
          else if n > sint (latest rctx) then Inl (Std ErrRewriteBlockOutOfRange)
          else Inr (current, False))"

text \<open>The value computed for one parameter, and whether it replaces the old one.\<close>

definition rewriteParam_value ::
  "'a lib_scheme \<Rightarrow> RewriteContext \<Rightarrow> bool \<Rightarrow> gojson \<Rightarrow> error + (gojson \<times> bool)" where
  "rewriteParam_value L rctx blockNrOrHash v =
     (if blockNrOrHash then
        (case remarshalBlockNumberOrHash L v of
           Inl _ \<Rightarrow>
             (case v of
                JString s \<Rightarrow>
                  (case rewriteTag L rctx s of
                     Inl err \<Rightarrow> Inl err
                   | Inr (t, rw) \<Rightarrow> Inr (JString t, rw))
              | _ \<Rightarrow> Inl (Errorf ''expected BlockNumberOrHash or string''))
         | Inr bnh \<Rightarrow>
             (case rewriteTagBlockNumberOrHash L rctx bnh of
                Inl err \<Rightarrow> Inl err
              | Inr (b, rw) \<Rightarrow> Inr (bnh_Value L b, rw)))
      else
        (case v of
           JString s \<Rightarrow>
             (case rewriteTag L rctx s of
                Inl err \<Rightarrow> Inl err
              | Inr (t, rw) \<Rightarrow> Inr (JString t, rw))
         | _ \<Rightarrow> Inl (Errorf ''expected string'')))"

definition rewriteParam ::
  "'a lib_scheme \<Rightarrow> RewriteContext \<Rightarrow> RPCReq \<Rightarrow> RPCRes \<Rightarrow> nat \<Rightarrow> bool \<Rightarrow> bool \<Rightarrow> rewrite_ret" where
  "rewriteParam L rctx req res pos required blockNrOrHash =
     (case Unmarshal_anys L (rq_Params req) of
        None \<Rightarrow> (req, res, RewriteOverrideError, Some (Errorf (json_err L (rq_Params req))))
      | Some p0 \<Rightarrow>
          if length p0 \<le> pos \<and> \<not> (length p0 = pos \<and> \<not> required) then (req, res, RewriteNone, None)
          else
            (let p = (if length p0 = pos \<and> \<not> required then p0 @ [JString ''latest''] else p0)
             in case rewriteParam_value L rctx blockNrOrHash (p ! pos) of
                  Inl err \<Rightarrow> (req, res, RewriteOverrideError, Some err)
                | Inr (val, rw) \<Rightarrow>
                    if rw then
                      (req\<lparr>rq_Params := json_encode (JArray (p[pos := val]))\<rparr>, res,
                        RewriteOverrideRequest, None)
                    else (req, res, RewriteNone, None)))"

text \<open>Lookups in a \<open>map[string]interface{}\<close>, which may be nil.\<close>

definition mget :: "(string \<times> gojson) list option \<Rightarrow> string \<Rightarrow> gojson option" where
  "mget m k = (case m of None \<Rightarrow> None | Some kvs \<Rightarrow> map_of kvs k)"

definition mset_key :: "string \<Rightarrow> gojson \<Rightarrow> (string \<times> gojson) list option \<Rightarrow> (string \<times> gojson) list option" where
  "mset_key k v m = map_option (map_put k v) m"

definition rewriteTagMap ::
  "'a lib_scheme \<Rightarrow> RewriteContext \<Rightarrow> (string \<times> gojson) list option \<Rightarrow> string \<Rightarrow>
   error + ((string \<times> gojson) list option \<times> bool)" where
  "rewriteTagMap L rctx m key =
     (if mget m key = None \<or> mget m key = Some JNull \<or> mget m key = Some (JString []) then Inr (m, False)
      else case mget m key of
          Some (JString current) \<Rightarrow>
            (case rewriteTag L rctx current of
               Inl err \<Rightarrow> Inl err
             | Inr (val, rw) \<Rightarrow> if rw then Inr (mset_key key (JString val) m, True) else Inr (m, False))
        | _ \<Rightarrow> Inl (Errorf ''expected string''))"

definition blockNumber :: "'a lib_scheme \<Rightarrow> (string \<times> gojson) list option \<Rightarrow> string \<Rightarrow> uint64 \<Rightarrow> error + uint64" where
  "blockNumber L m key lat =
     (case mget m key of
        Some (JString current) \<Rightarrow>
          if current = ''earliest'' then Inr 0
          else if current = ''pending'' then Inr (lat + 1)
          else (case hex_DecodeUint64 L current of Inl e \<Rightarrow> Inl (Errorf e) | Inr n \<Rightarrow> Inr n)
      | _ \<Rightarrow> Inl (Errorf ''expected string''))"

text \<open>A nil map prints as null.\<close>

definition map_value :: "(string \<times> gojson) list option \<Rightarrow> gojson" where
  "map_value m = (case m of None \<Rightarrow> JNull | Some kvs \<Rightarrow> JObject kvs)"

text \<open>The range check: the distance is computed in \<open>uint64\<close>.\<close>

definition range_check ::
  "'a lib_scheme \<Rightarrow> RewriteContext \<Rightarrow> (string \<times> gojson) list option \<Rightarrow> error option" where
  "range_check L rctx m =
     (case blockNumber L m ''fromBlock'' (latest rctx) of
        Inl err \<Rightarrow> Some err
      | Inr from \<Rightarrow>
          (case blockNumber L m ''toBlock'' (latest rctx) of
             Inl err \<Rightarrow> Some err
           | Inr to \<Rightarrow>
               if to - from > maxBlockRange rctx then Some (Std ErrRewriteRangeTooLarge) else None))"

text \<open>If one bound of the range is given, the other defaults to latest.\<close>

definition default_bounds :: "(string \<times> gojson) list option \<Rightarrow> (string \<times> gojson) list option" where
  "default_bounds m =
     (let hasFrom = (mget m ''fromBlock'' \<noteq> None); hasTo = (mget m ''toBlock'' \<noteq> None)
      in if hasFrom \<and> \<not> hasTo then mset_key ''toBlock'' (JString ''latest'') m
         else if hasTo \<and> \<not> hasFrom then mset_key ''fromBlock'' (JString ''latest'') m
         else m)"

definition rewriteRange ::
  "'a lib_scheme \<Rightarrow> RewriteContext \<Rightarrow> RPCReq \<Rightarrow> RPCRes \<Rightarrow> nat \<Rightarrow> rewrite_ret outcome" where
  "rewriteRange L rctx req res pos =
     (case Unmarshal_maps L (rq_Params req) of
        None \<Rightarrow> Done (req, res, RewriteOverrideError, Some (Errorf (json_err L (rq_Params req))))
      | Some p \<Rightarrow>
          if length p \<le> pos then Panic ''index out of range''
          else
            (let hasFrom = (mget (p ! pos) ''fromBlock'' \<noteq> None);
                 hasTo = (mget (p ! pos) ''toBlock'' \<noteq> None);
                 m = default_bounds (p ! pos)
             in case rewriteTagMap L rctx m ''fromBlock'' of
                  Inl err \<Rightarrow> Done (req, res, RewriteOverrideError, Some err)
                | Inr (m, modifiedFrom) \<Rightarrow>
                    (case rewriteTagMap L rctx m ''toBlock'' of
                       Inl err \<Rightarrow> Done (req, res, RewriteOverrideError, Some err)
                     | Inr (m, modifiedTo) \<Rightarrow>
                         (case (if maxBlockRange rctx > 0 \<and> (hasFrom \<or> hasTo) then range_check L rctx m else None) of
                            Some err \<Rightarrow> Done (req, res, RewriteOverrideError, Some err)
                          | None \<Rightarrow>
                              if modifiedFrom \<or> modifiedTo then
                                Done (req\<lparr>rq_Params := json_encode (JArray (map map_value (p[pos := m])))\<rparr>, res,
                                  RewriteOverrideRequest, None)
                              else Done (req, res, RewriteNone, None)))))"

definition RewriteResponse :: "RewriteContext \<Rightarrow> RPCReq \<Rightarrow> RPCRes \<Rightarrow> RPCRes \<times> RewriteResult \<times> error option" where
  "RewriteResponse rctx req res =
     (if rq_Method req = ''eth_blockNumber''
      then (res\<lparr>rs_Result := Some (ResUint64 (latest rctx))\<rparr>, RewriteOverrideResponse, None)
      else (res, RewriteNone, None))"

definition RewriteRequest :: "'a lib_scheme \<Rightarrow> RewriteContext \<Rightarrow> RPCReq \<Rightarrow> RPCRes \<Rightarrow> rewrite_ret outcome" where
  "RewriteRequest L rctx req res =
     (let m = rq_Method req
      in if m \<in> {''eth_getLogs'', ''eth_newFilter''} then rewriteRange L rctx req res 0
         else if m \<in> {''debug_getRawReceipts'', ''consensus_getReceipts''} then
           Done (rewriteParam L rctx req res 0 True False)
         else if m \<in> {''eth_getBalance'', ''eth_getCode'', ''eth_getTransactionCount'', ''eth_call''} then
           Done (rewriteParam L rctx req res 1 False True)
         else if m \<in> {''eth_getStorageAt'', ''eth_getProof''} then
           Done (rewriteParam L rctx req res 2 False True)
         else if m \<in> {''eth_getBlockTransactionCountByNumber'', ''eth_getUncleCountByBlockNumber'',
             ''eth_getBlockByNumber'', ''eth_getTransactionByBlockNumberAndIndex'',
             ''eth_getUncleByBlockNumberAndIndex''} then
           Done (rewriteParam L rctx req res 0 False False)
         else Done (req, res, RewriteNone, None))"

definition RewriteTags :: "'a lib_scheme \<Rightarrow> RewriteContext \<Rightarrow> RPCReq \<Rightarrow> RPCRes \<Rightarrow> rewrite_ret outcome" where
  "RewriteTags L rctx req res =
     (case RewriteResponse rctx req res of
        (res', rw, err) \<Rightarrow>
          if rw = RewriteOverrideResponse then Done (req, res', rw, err)
          else RewriteRequest L rctx req res')"

section \<open>What a backend reads\<close>

text \<open>
  The block number a backend finds at a position of the parameters, and the requirement on it: no
  unresolved tag, and nothing above the latest block of the consensus group.
\<close>

definition param_block :: "'a lib_scheme \<Rightarrow> nat \<Rightarrow> bytes \<Rightarrow> int option" where
  "param_block L pos params =
     (case Unmarshal_anys L params of
        None \<Rightarrow> None
      | Some p \<Rightarrow>
          if length p \<le> pos then None
          else case bnh_UnmarshalJSON L (json_encode (p ! pos)) of
              Inl _ \<Rightarrow> None
            | Inr b \<Rightarrow> BlockNumber b)"

definition resolved :: "'a lib_scheme \<Rightarrow> RewriteContext \<Rightarrow> int \<Rightarrow> bool" where
  "resolved L rctx n =
     (n \<notin> {LatestBlockNumber L, SafeBlockNumber L, FinalizedBlockNumber L} \<and> n \<le> sint (latest rctx))"

definition ctx_ok :: "RewriteContext \<Rightarrow> bool" where
  "ctx_ok rctx = (uint (latest rctx) < 2 ^ 63 \<and> safe rctx \<le> latest rctx \<and> finalized rctx \<le> latest rctx)"

lemma sint_small: "uint (n :: uint64) < 2 ^ 63 \<Longrightarrow> sint n = uint n"
proof -
  assume "uint n < 2 ^ 63"
  moreover have "- (2 ^ 63) \<le> uint n" using uint_ge_0 [of n] by (rule order_trans [rotated]) simp
  ultimately show "sint n = uint n" by (simp add: sint_uint signed_take_bit_int_eq_self)
qed

lemma ctx_ok_sint:
  assumes "ctx_ok rctx" and "n \<in> {latest rctx, safe rctx, finalized rctx}"
  shows "sint n = uint n \<and> uint n < 2 ^ 63 \<and> 0 \<le> sint n \<and> sint n \<le> sint (latest rctx)"
proof -
  have "uint n \<le> uint (latest rctx)"
    using assms by (auto simp: ctx_ok_def word_le_def)
  with assms(1) show ?thesis by (simp add: ctx_ok_def sint_small)
qed

context eth_lib
begin

lemma pending_le: "PendingBlockNumber L \<le> uint n"
  using tags_neg(4) uint_ge_0 [of n] by linarith

text \<open>A number from the context, read back, is accepted as it is.\<close>

lemma own_number:
  assumes "ctx_ok rctx" and "n \<in> {latest rctx, safe rctx, finalized rctx}"
  shows "resolved L rctx (uint n) \<and>
    rewriteTag L rctx (hex_String L n) = Inr (hex_String L n, False) \<and>
    rewriteTagBlockNumberOrHash L rctx (BlockNumberOrHashWithNumber (uint n)) =
      Inr (BlockNumberOrHashWithNumber (uint n), False)"
proof -
  note n = ctx_ok_sint [OF assms]
  then have "bnh_UnmarshalJSON L (enc_string (hex_String L n)) = Inr (BlockNumberOrHashWithNumber (uint n))"
    by (intro bnh_String) simp
  with n tags_neg show ?thesis
    by (auto simp: resolved_def rewriteTag_def rewriteTagBlockNumberOrHash_def remarshalBlockNumberOrHash_def
        BlockNumberOrHashWithNumber_def)
qed

lemma rewriteTag_cases:
  assumes "rewriteTag L rctx s = Inr (t, rw)" and "ctx_ok rctx"
  shows "(rw \<longrightarrow> (\<exists>n \<in> {latest rctx, safe rctx, finalized rctx}. t = hex_String L n)) \<and>
    (\<not> rw \<longrightarrow> t = s \<and> (\<forall>b n. bnh_UnmarshalJSON L (enc_string s) = Inr b \<longrightarrow> BlockNumber b = Some n \<longrightarrow>
      resolved L rctx n))"
  using assms tags_distinct tags_neg pending_le
  by (auto simp: rewriteTag_def remarshalBlockNumberOrHash_def resolved_def ctx_ok_def sint_small
      split: sum.splits option.splits if_splits)

lemma rewriteTagBNH_cases:
  assumes "rewriteTagBlockNumberOrHash L rctx c = Inr (b, rw)" and "ctx_ok rctx"
  shows "(rw \<longrightarrow> (\<exists>n \<in> {latest rctx, safe rctx, finalized rctx}. b = BlockNumberOrHashWithNumber (uint n))) \<and>
    (\<not> rw \<longrightarrow> b = c \<and> (\<forall>n. BlockNumber c = Some n \<longrightarrow> resolved L rctx n))"
  using assms ctx_ok_sint [OF assms(2)] tags_distinct tags_neg pending_le
  by (auto simp: rewriteTagBlockNumberOrHash_def resolved_def split: option.splits if_splits)

lemma rewriteParam_value_canon:
  "rewriteParam_value L rctx f v = Inr (val, True) \<Longrightarrow> canon val \<and> any_of (fnum L) val = Some val"
  using bnh_Value_canon
  by (auto simp: rewriteParam_value_def split: if_splits sum.splits gojson.splits)

lemma remarshal_Inr: "remarshalBlockNumberOrHash L v = Inr b \<longleftrightarrow> bnh_UnmarshalJSON L (json_encode v) = Inr b"
  by (auto simp: remarshalBlockNumberOrHash_def split: sum.splits)

text \<open>A replaced parameter is a number of the context, as a string or as an object.\<close>

lemma rewriteParam_value_replaced:
  assumes "rewriteParam_value L rctx f v = Inr (val, True)" and "ctx_ok rctx"
  obtains n where "n \<in> {latest rctx, safe rctx, finalized rctx}"
    and "val = (if f then bnh_Value L (BlockNumberOrHashWithNumber (uint n)) else JString (hex_String L n))"
proof (cases f)
  case True
  then obtain bnh where bnh: "remarshalBlockNumberOrHash L v = Inr bnh"
  proof (cases "remarshalBlockNumberOrHash L v")
    case (Inl e)
    then have "\<nexists>t. \<exists>s. v = JString s \<and> rewriteTag L rctx s = Inr t"
      by (auto simp: rewriteTag_def)
    with assms(1) True Inl have False
      by (auto simp: rewriteParam_value_def split: gojson.splits sum.splits)
    then show ?thesis ..
  qed blast
  with assms(1) True obtain b where "rewriteTagBlockNumberOrHash L rctx bnh = Inr (b, True)" "val = bnh_Value L b"
    by (auto simp: rewriteParam_value_def split: sum.splits)
  with rewriteTagBNH_cases [OF _ assms(2)] True that show thesis by fastforce
next
  case False
  with assms(1) obtain s t where "v = JString s" "rewriteTag L rctx s = Inr (t, True)" "val = JString t"
    by (auto simp: rewriteParam_value_def split: gojson.splits sum.splits)
  with rewriteTag_cases [OF _ assms(2)] False that show thesis by fastforce
qed

lemma rewriteParam_value_idem:
  assumes "rewriteParam_value L rctx f v = Inr (val, True)" and "ctx_ok rctx"
  shows "\<exists>w. rewriteParam_value L rctx f val = Inr (w, False)"
proof -
  from rewriteParam_value_replaced [OF assms] obtain n where n: "n \<in> {latest rctx, safe rctx, finalized rctx}"
    and val: "val = (if f then bnh_Value L (BlockNumberOrHashWithNumber (uint n)) else JString (hex_String L n))" .
  have "uint n < 2 ^ 63" using ctx_ok_sint [OF assms(2) n] by simp
  then show ?thesis
    using own_number [OF assms(2) n] bnh_Value [of "uint n"] by (auto simp: rewriteParam_value_def val remarshalBlockNumberOrHash_def)
qed

lemma rewriteParam_value_resolved:
  assumes "rewriteParam_value L rctx f v = Inr (val, rw)" and "ctx_ok rctx"
    and "bnh_UnmarshalJSON L (json_encode (if rw then val else v)) = Inr b" and "BlockNumber b = Some i"
  shows "resolved L rctx i"
proof (cases rw)
  case True
  with assms(1) have r: "rewriteParam_value L rctx f v = Inr (val, True)" by simp
  from rewriteParam_value_replaced [OF r assms(2)] obtain n where n: "n \<in> {latest rctx, safe rctx, finalized rctx}"
    and val: "val = (if f then bnh_Value L (BlockNumberOrHashWithNumber (uint n)) else JString (hex_String L n))" .
  have "uint n < 2 ^ 63" using ctx_ok_sint [OF assms(2) n] by simp
  with assms(3,4) True val bnh_Value [of "uint n"] bnh_String [of n] have "i = uint n"
    by (auto simp: BlockNumberOrHashWithNumber_def split: if_splits)
  with own_number [OF assms(2) n] show ?thesis by simp
next
  case False
  with assms show ?thesis
    using rewriteTag_cases [OF _ assms(2)] rewriteTagBNH_cases [OF _ assms(2)]
    by (auto simp: rewriteParam_value_def remarshal_Inr remarshalBlockNumberOrHash_def
        split: if_splits gojson.splits sum.splits)
qed

text \<open>The outcomes of \<open>rewriteParam\<close> without an error.\<close>

lemma rewriteParam_cases:
  assumes "rewriteParam L rctx req res pos required f = (req', res', r, None)"
  obtains (short) p where "Unmarshal_anys L (rq_Params req) = Some p" and "length p \<le> pos"
      and "length p = pos \<longrightarrow> required" and "req' = req" and "r = RewriteNone"
  | (kept) p0 p w where "Unmarshal_anys L (rq_Params req) = Some p0" and "pos < length p"
      and "p = (if length p0 = pos \<and> \<not> required then p0 @ [JString ''latest''] else p0)"
      and "rewriteParam_value L rctx f (p ! pos) = Inr (w, False)" and "req' = req" and "r = RewriteNone"
  | (replaced) p0 p val where "Unmarshal_anys L (rq_Params req) = Some p0" and "pos < length p"
      and "p = (if length p0 = pos \<and> \<not> required then p0 @ [JString ''latest''] else p0)"
      and "rewriteParam_value L rctx f (p ! pos) = Inr (val, True)" and "r = RewriteOverrideRequest"
      and "req' = req\<lparr>rq_Params := json_encode (JArray (p[pos := val]))\<rparr>"
proof (cases "Unmarshal_anys L (rq_Params req)")
  case (Some p0)
  show thesis
  proof (cases "length p0 \<le> pos \<and> \<not> (length p0 = pos \<and> \<not> required)")
    case True
    with assms Some show thesis by (intro short) (auto simp: rewriteParam_def)
  next
    case False
    define p where "p = (if length p0 = pos \<and> \<not> required then p0 @ [JString ''latest''] else p0)"
    have len: "pos < length p" using False by (auto simp: p_def)
    have eq: "rewriteParam L rctx req res pos required f =
        (case rewriteParam_value L rctx f (p ! pos) of
           Inl err \<Rightarrow> (req, res, RewriteOverrideError, Some err)
         | Inr (val, rw) \<Rightarrow>
             if rw then (req\<lparr>rq_Params := json_encode (JArray (p[pos := val]))\<rparr>, res, RewriteOverrideRequest, None)
             else (req, res, RewriteNone, None))"
      by (simp only: rewriteParam_def Some option.case False if_False Let_def p_def)
    with assms obtain val rw where v: "rewriteParam_value L rctx f (p ! pos) = Inr (val, rw)"
      by (auto split: sum.splits)
    show thesis
    proof (cases rw)
      case True
      with assms eq v show thesis by (intro replaced [OF Some len p_def]) auto
    next
      case False
      with assms eq v show thesis by (intro kept [OF Some len p_def]) auto
    qed
  qed
qed (use assms in \<open>simp add: rewriteParam_def\<close>)

lemma rewritten_params:
  assumes "Unmarshal_anys L body = Some p0" and "p = (if c then p0 @ [JString ''latest''] else p0)"
    and "rewriteParam_value L rctx f v = Inr (val, True)"
  shows "Unmarshal_anys L (json_encode (JArray (p[pos := val]))) = Some (p[pos := val])"
proof (rule Unmarshal_anys_encode)
  fix w assume "w \<in> set (p[pos := val])"
  then have "w \<in> insert val (set p)" by (rule set_update_subset_insert [THEN subsetD])
  then consider "w = val" | "w \<in> set p0" | "w = JString ''latest''"
    unfolding assms(2) by (auto split: if_splits)
  then show "canon w \<and> any_of (fnum L) w = Some w"
  proof cases
    case 1
    then show ?thesis using rewriteParam_value_canon [OF assms(3)] by simp
  next
    case 2
    then show ?thesis by (rule Unmarshal_anys_canon [OF assms(1)])
  qed simp
qed

lemma rewriteParam_resolved:
  assumes "rewriteParam L rctx req res pos required f = (req', res', r, None)" and "ctx_ok rctx"
    and "param_block L pos (rq_Params req') = Some i"
  shows "resolved L rctx i"
  using assms(1)
proof (cases rule: rewriteParam_cases)
  case (short p)
  with assms(3) show ?thesis by (simp add: param_block_def)
next
  case (kept p0 p w)
  with assms(3) have "p = p0" "pos < length p0" by (auto simp: param_block_def split: if_splits)
  with kept assms(3) obtain b where "bnh_UnmarshalJSON L (json_encode (p ! pos)) = Inr b" "BlockNumber b = Some i"
    by (auto simp: param_block_def split: sum.splits)
  with rewriteParam_value_resolved [OF kept(4) assms(2)] show ?thesis by simp
next
  case (replaced p0 p val)
  with assms(3) rewritten_params [OF replaced(1,3,4)] obtain b where
    "bnh_UnmarshalJSON L (json_encode val) = Inr b" "BlockNumber b = Some i"
    by (auto simp: param_block_def split: sum.splits)
  with rewriteParam_value_resolved [OF replaced(4) assms(2)] show ?thesis by simp
qed

lemma rewriteParam_idem:
  assumes "rewriteParam L rctx req res pos required f = (req', res', r, None)" and "ctx_ok rctx"
  shows "rewriteParam L rctx req' res2 pos required f = (req', res2, RewriteNone, None)"
  using assms(1)
proof (cases rule: rewriteParam_cases)
  case (short p)
  then show ?thesis by (auto simp: rewriteParam_def)
next
  case (kept p0 p w)
  then show ?thesis by (auto simp: rewriteParam_def Let_def)
next
  case (replaced p0 p val)
  from rewriteParam_value_idem [OF replaced(4) assms(2)] rewritten_params [OF replaced(1,3,4), of pos] replaced
  show ?thesis by (auto simp: rewriteParam_def Let_def)
qed

end

section \<open>Log filters\<close>

definition map_ok :: "'a lib_scheme \<Rightarrow> (string \<times> gojson) list option \<Rightarrow> bool" where
  "map_ok L m = (canon (map_value m) \<and> any_of (fnum L) (map_value m) = Some (map_value m))"

lemma map_ok_Some:
  "map_ok L (Some kvs) \<longleftrightarrow> sorted_wrt (<) (map fst kvs) \<and>
     (\<forall>kv \<in> set kvs. canon (snd kv) \<and> any_of (fnum L) (snd kv) = Some (snd kv))"
proof -
  let ?dec = "\<lambda>kv. map_option (Pair (fst kv)) (any_of (fnum L) (snd kv))"
  have pt: "sequence (map ?dec kvs) = Some kvs \<longleftrightarrow> (\<forall>kv \<in> set kvs. any_of (fnum L) (snd kv) = Some (snd kv))"
    by (auto simp: sequence_Some list_all2_map1 list_all2_same)
  have "any_of (fnum L) (JObject kvs) = Some (JObject kvs) \<longleftrightarrow> sequence (map ?dec kvs) = Some kvs"
    if sorted: "sorted_wrt (<) (map fst kvs)"
  proof
    assume "any_of (fnum L) (JObject kvs) = Some (JObject kvs)"
    then obtain ws where ws: "sequence (map ?dec kvs) = Some ws" "dedup ws = kvs" by auto
    then have "list_all2 (\<lambda>x y. fst x = fst y) kvs ws"
      by (auto simp: sequence_Some list_all2_map1 elim!: list_all2_mono)
    then have "map fst ws = map fst kvs"
      by (induction rule: list_all2_induct) auto
    with ws sorted dedup_id [of ws] show "sequence (map ?dec kvs) = Some kvs" by simp
  qed (simp add: dedup_id [OF sorted])
  with pt show ?thesis
    by (auto simp: map_ok_def map_value_def list_all_iff)
qed

lemma map_ok_None [simp]: "map_ok L None"
  by (simp add: map_ok_def map_value_def)

lemma mget_None [simp]: "mget None k = None"
  by (simp add: mget_def)

lemma mget_mset_key:
  "map_ok L m \<Longrightarrow> m \<noteq> None \<Longrightarrow> mget (mset_key k v m) k' = (if k' = k then Some v else mget m k')"
  by (cases m) (auto simp: mget_def mset_key_def map_ok_Some dedup_id)

lemma map_ok_mset_key:
  assumes "map_ok L m"
  shows "map_ok L (mset_key k (JString s) m)"
proof (cases m)
  case (Some kvs)
  have "set (map_put k (JString s) kvs) \<subseteq> insert (k, JString s) (set kvs)"
    using dedup_subset [of "kvs @ [(k, JString s)]"] by (auto simp: map_put_def)
  with assms Some show ?thesis
    by (auto simp: mset_key_def map_ok_Some map_put_def dedup_sorted)
qed (simp add: mset_key_def)

context eth_lib
begin

lemma Unmarshal_maps_ok:
  assumes "Unmarshal_maps L body = Some p" and "m \<in> set p"
  shows "map_ok L m"
proof -
  from assms(1) obtain vs where vs: "Unmarshal_anys L body = Some vs" "list_all2 (\<lambda>v m. map_elem v = Some m) vs p"
    by (auto simp: Unmarshal_maps_def sequence_Some list_all2_map1 split: bind_splits)
  from list_all2_set2 [OF vs(2) assms(2)] obtain v where v: "v \<in> set vs" "map_elem v = Some m" by blast
  from v(2) have "v = map_value m" by (cases v) (auto simp: map_value_def)
  with Unmarshal_anys_canon [OF vs(1) v(1)] show ?thesis by (simp add: map_ok_def)
qed

lemma Unmarshal_maps_encode:
  assumes "\<And>m. m \<in> set p \<Longrightarrow> map_ok L m"
  shows "Unmarshal_maps L (json_encode (JArray (map map_value p))) = Some p"
proof -
  have "Unmarshal_anys L (json_encode (JArray (map map_value p))) = Some (map map_value p)"
    by (rule Unmarshal_anys_encode) (use assms in \<open>auto simp: map_ok_def\<close>)
  moreover have "map_elem (map_value m) = Some m" for m
    by (cases m) (auto simp: map_value_def)
  ultimately show ?thesis
    by (simp add: Unmarshal_maps_def sequence_Some list_all2_map1 list_all2_same)
qed

lemma rewriteTagMap_ok:
  "rewriteTagMap L rctx m k = Inr (m', b) \<Longrightarrow> map_ok L m \<Longrightarrow> map_ok L m' \<and> (b \<or> m' = m)"
  by (auto simp: rewriteTagMap_def map_ok_mset_key split: if_splits option.splits gojson.splits sum.splits)

lemma rewriteTagMap_other:
  "rewriteTagMap L rctx m k = Inr (m', b) \<Longrightarrow> map_ok L m \<Longrightarrow> k' \<noteq> k \<Longrightarrow> mget m' k' = mget m k'"
  by (cases "m = None")
    (auto simp: rewriteTagMap_def mget_mset_key split: if_splits option.splits gojson.splits sum.splits)

lemma rewriteTagMap_latest:
  "mget m k = Some (JString ''latest'') \<Longrightarrow> rewriteTagMap L rctx m k = Inr (m', b) \<Longrightarrow> b"
  using bnh_latest tags_distinct
  by (auto simp: rewriteTagMap_def rewriteTag_def remarshalBlockNumberOrHash_def BlockNumberOrHashWithNumber_def
      split: if_splits)

lemma rewriteTagMap_resolved:
  assumes "rewriteTagMap L rctx m k = Inr (m', b)" and "map_ok L m" and "ctx_ok rctx"
    and "mget m' k = Some (JString s)" and "s \<noteq> []"
    and "bnh_UnmarshalJSON L (enc_string s) = Inr bnh" and "BlockNumber bnh = Some i"
  shows "resolved L rctx i"
proof -
  from assms(1,4,5) obtain c val rw where c: "mget m k = Some (JString c)" "rewriteTag L rctx c = Inr (val, rw)"
    and m': "m' = (if rw then mset_key k (JString val) m else m)"
    by (auto simp: rewriteTagMap_def split: if_splits option.splits gojson.splits sum.splits)
  show ?thesis
  proof (cases rw)
    case True
    with c rewriteTag_cases [OF c(2) assms(3)] obtain n where n: "n \<in> {latest rctx, safe rctx, finalized rctx}"
      "val = hex_String L n" by blast
    have "m \<noteq> None" using c(1) by (cases m) simp_all
    with True m' assms(4) mget_mset_key [OF assms(2), of k "JString val" k] have "s = val" by simp
    moreover have "uint n < 2 ^ 63" using ctx_ok_sint [OF assms(3) n(1)] by simp
    ultimately have "i = uint n"
      using assms(6,7) n(2) bnh_String [of n] by (auto simp: BlockNumberOrHashWithNumber_def)
    with own_number [OF assms(3) n(1)] show ?thesis by simp
  next
    case False
    with m' c assms(4) rewriteTag_cases [OF c(2) assms(3)] assms(6,7) show ?thesis by auto
  qed
qed

text \<open>The outcome of \<open>rewriteRange\<close> without an error: the filter that the backend reads.\<close>

lemma rewriteRange_final:
  assumes "rewriteRange L rctx req res pos = Done (req', res', r, None)"
    and p: "Unmarshal_maps L (rq_Params req) = Some p"
  obtains m m1 f m2 t p' where "map_ok L m" and "map_ok L m1"
    and "rewriteTagMap L rctx m ''fromBlock'' = Inr (m1, f)"
    and "rewriteTagMap L rctx m1 ''toBlock'' = Inr (m2, t)"
    and "maxBlockRange rctx > 0 \<Longrightarrow>
      mget (p ! pos) ''fromBlock'' \<noteq> None \<or> mget (p ! pos) ''toBlock'' \<noteq> None \<Longrightarrow> range_check L rctx m2 = None"
    and "Unmarshal_maps L (rq_Params req') = Some p'" and "p' ! pos = m2"
proof -
  let ?m0 = "p ! pos"
  define m where "m = default_bounds ?m0"
  have len: "pos < length p" using assms by (auto simp: rewriteRange_def not_le [symmetric] split: if_splits)
  then have ok0: "map_ok L ?m0" using Unmarshal_maps_ok [OF p] by simp
  then have ok: "map_ok L m" by (simp add: m_def default_bounds_def Let_def map_ok_mset_key)
  from assms(1) len obtain m1 f m2 t where
    1: "rewriteTagMap L rctx m ''fromBlock'' = Inr (m1, f)" and
    2: "rewriteTagMap L rctx m1 ''toBlock'' = Inr (m2, t)" and
    chk: "maxBlockRange rctx > 0 \<Longrightarrow>
      mget ?m0 ''fromBlock'' \<noteq> None \<or> mget ?m0 ''toBlock'' \<noteq> None \<Longrightarrow> range_check L rctx m2 = None" and
    req': "req' = (if f \<or> t then req\<lparr>rq_Params := json_encode (JArray (map map_value (p[pos := m2])))\<rparr> else req)"
    unfolding rewriteRange_def p option.case Let_def m_def [symmetric]
    by (auto split: sum.splits option.splits if_splits)
  have ok1: "map_ok L m1" and ok2: "map_ok L m2"
    using rewriteTagMap_ok [OF 1 ok] rewriteTagMap_ok [OF 2] by simp_all
  note fin = that [OF ok ok1 1 2 chk]
  show thesis
  proof (cases "f \<or> t")
    case True
    have "Unmarshal_maps L (json_encode (JArray (map map_value (p[pos := m2])))) = Some (p[pos := m2])"
    proof (rule Unmarshal_maps_encode)
      fix x assume "x \<in> set (p[pos := m2])"
      then have "x \<in> insert m2 (set p)" by (rule set_update_subset_insert [THEN subsetD])
      then show "map_ok L x" using ok2 Unmarshal_maps_ok [OF p] by blast
    qed
    with True req' len show thesis by (intro fin) auto
  next
    case False
    then have m: "m1 = m" "m2 = m" using rewriteTagMap_ok [OF 1 ok] rewriteTagMap_ok [OF 2 ok1] by simp_all
    have "m = ?m0"
    proof (rule ccontr)
      assume ne: "m \<noteq> ?m0"
      then have "?m0 \<noteq> None" by (cases ?m0) (simp_all add: m_def default_bounds_def Let_def)
      with ne have "mget m ''toBlock'' = Some (JString ''latest'') \<or> mget m ''fromBlock'' = Some (JString ''latest'')"
        using mget_mset_key [OF ok0] by (simp add: m_def default_bounds_def Let_def split: if_splits)
      with rewriteTagMap_latest [OF _ 1] rewriteTagMap_latest [OF _ 2] False m show False by auto
    qed
    with False req' p m show thesis by (intro fin) auto
  qed
qed

lemma rewriteRange_pinned:
  assumes "rewriteRange L rctx req res pos = Done (req', res', r, None)"
    and "Unmarshal_maps L (rq_Params req) = Some p" and "ctx_ok rctx"
  shows "\<exists>p'. Unmarshal_maps L (rq_Params req') = Some p' \<and>
     (\<forall>key s b i. key \<in> {''fromBlock'', ''toBlock''} \<longrightarrow> mget (p' ! pos) key = Some (JString s) \<longrightarrow> s \<noteq> [] \<longrightarrow>
        bnh_UnmarshalJSON L (enc_string s) = Inr b \<longrightarrow> BlockNumber b = Some i \<longrightarrow> resolved L rctx i) \<and>
     (maxBlockRange rctx > 0 \<longrightarrow> mget (p ! pos) ''fromBlock'' \<noteq> None \<or> mget (p ! pos) ''toBlock'' \<noteq> None \<longrightarrow>
        (\<exists>from to. blockNumber L (p' ! pos) ''fromBlock'' (latest rctx) = Inr from \<and>
           blockNumber L (p' ! pos) ''toBlock'' (latest rctx) = Inr to \<and> to - from \<le> maxBlockRange rctx))"
proof -
  from rewriteRange_final [OF assms(1,2)] obtain m m1 f m2 t p' where ok: "map_ok L m" "map_ok L m1"
    and 1: "rewriteTagMap L rctx m ''fromBlock'' = Inr (m1, f)"
    and 2: "rewriteTagMap L rctx m1 ''toBlock'' = Inr (m2, t)"
    and chk: "maxBlockRange rctx > 0 \<Longrightarrow>
      mget (p ! pos) ''fromBlock'' \<noteq> None \<or> mget (p ! pos) ''toBlock'' \<noteq> None \<Longrightarrow> range_check L rctx m2 = None"
    and p': "Unmarshal_maps L (rq_Params req') = Some p'" "p' ! pos = m2" by blast
  have from_same: "mget m2 ''fromBlock'' = mget m1 ''fromBlock''"
    by (rule rewriteTagMap_other [OF 2 ok(2)]) simp
  have res: "resolved L rctx i" if "key \<in> {''fromBlock'', ''toBlock''}" "mget m2 key = Some (JString s)" "s \<noteq> []"
    "bnh_UnmarshalJSON L (enc_string s) = Inr b" "BlockNumber b = Some i" for key s b i
  proof (cases "key = ''toBlock''")
    case True
    then show ?thesis using rewriteTagMap_resolved [OF 2 ok(2) assms(3) _ that(3-5)] that(2) by simp
  next
    case False
    then have "mget m1 ''fromBlock'' = Some (JString s)" using that(1,2) from_same by simp
    from rewriteTagMap_resolved [OF 1 ok(1) assms(3) this that(3-5)] show ?thesis .
  qed
  have bound: "\<exists>from to. blockNumber L m2 ''fromBlock'' (latest rctx) = Inr from \<and>
      blockNumber L m2 ''toBlock'' (latest rctx) = Inr to \<and> to - from \<le> maxBlockRange rctx"
    if "range_check L rctx m2 = None"
    using that by (auto simp: range_check_def not_less split: sum.splits if_splits)
  show ?thesis
  proof (rule exI [of _ p'], intro conjI allI impI)
    show "Unmarshal_maps L (rq_Params req') = Some p'" by (rule p'(1))
  next
    fix key s b i
    assume "key \<in> {''fromBlock'', ''toBlock''}" "mget (p' ! pos) key = Some (JString s)" "s \<noteq> []"
      "bnh_UnmarshalJSON L (enc_string s) = Inr b" "BlockNumber b = Some i"
    then show "resolved L rctx i" unfolding p'(2) by (rule res)
  next
    assume "maxBlockRange rctx > 0" "mget (p ! pos) ''fromBlock'' \<noteq> None \<or> mget (p ! pos) ''toBlock'' \<noteq> None"
    from bound [OF chk [OF this]] show "\<exists>from to. blockNumber L (p' ! pos) ''fromBlock'' (latest rctx) = Inr from \<and>
      blockNumber L (p' ! pos) ''toBlock'' (latest rctx) = Inr to \<and> to - from \<le> maxBlockRange rctx"
      unfolding p'(2) .
  qed
qed

end

section \<open>Properties\<close>

text \<open>The methods with a block parameter and its position.\<close>

definition block_params :: "(string \<times> nat) list" where
  "block_params =
     [(''debug_getRawReceipts'', 0), (''consensus_getReceipts'', 0),
      (''eth_getBalance'', 1), (''eth_getCode'', 1), (''eth_getTransactionCount'', 1), (''eth_call'', 1),
      (''eth_getStorageAt'', 2), (''eth_getProof'', 2),
      (''eth_getBlockTransactionCountByNumber'', 0), (''eth_getUncleCountByBlockNumber'', 0),
      (''eth_getBlockByNumber'', 0), (''eth_getTransactionByBlockNumberAndIndex'', 0),
      (''eth_getUncleByBlockNumberAndIndex'', 0)]"

lemma RewriteTags_groups:
  "rq_Method req \<in> {''eth_getLogs'', ''eth_newFilter''} \<Longrightarrow>
     RewriteTags L rctx req res = rewriteRange L rctx req res 0"
  "rq_Method req \<in> {''debug_getRawReceipts'', ''consensus_getReceipts''} \<Longrightarrow>
     RewriteTags L rctx req res = Done (rewriteParam L rctx req res 0 True False)"
  "rq_Method req \<in> {''eth_getBalance'', ''eth_getCode'', ''eth_getTransactionCount'', ''eth_call''} \<Longrightarrow>
     RewriteTags L rctx req res = Done (rewriteParam L rctx req res 1 False True)"
  "rq_Method req \<in> {''eth_getStorageAt'', ''eth_getProof''} \<Longrightarrow>
     RewriteTags L rctx req res = Done (rewriteParam L rctx req res 2 False True)"
  "rq_Method req \<in> {''eth_getBlockTransactionCountByNumber'', ''eth_getUncleCountByBlockNumber'',
       ''eth_getBlockByNumber'', ''eth_getTransactionByBlockNumberAndIndex'',
       ''eth_getUncleByBlockNumberAndIndex''} \<Longrightarrow>
     RewriteTags L rctx req res = Done (rewriteParam L rctx req res 0 False False)"
  by (elim insertE emptyE; simp add: RewriteTags_def RewriteResponse_def RewriteRequest_def)+

lemma RewriteTags_param:
  assumes "(rq_Method req, pos) \<in> set block_params"
  shows "\<exists>required f. \<forall>q u. rq_Method q = rq_Method req \<longrightarrow>
       RewriteTags L rctx q u = Done (rewriteParam L rctx q u pos required f)"
proof -
  from assms consider "rq_Method req \<in> {''debug_getRawReceipts'', ''consensus_getReceipts''}" "pos = 0"
    | "rq_Method req \<in> {''eth_getBalance'', ''eth_getCode'', ''eth_getTransactionCount'', ''eth_call''}" "pos = 1"
    | "rq_Method req \<in> {''eth_getStorageAt'', ''eth_getProof''}" "pos = 2"
    | "rq_Method req \<in> {''eth_getBlockTransactionCountByNumber'', ''eth_getUncleCountByBlockNumber'',
         ''eth_getBlockByNumber'', ''eth_getTransactionByBlockNumberAndIndex'',
         ''eth_getUncleByBlockNumberAndIndex''}" "pos = 0"
    unfolding block_params_def set_simps insert_iff prod.inject empty_iff by blast
  then show ?thesis
  proof cases
    case 1
    then show ?thesis by (intro exI [of _ True] exI [of _ False] allI impI) (simp only: RewriteTags_groups(2))
  next
    case 2
    then show ?thesis by (intro exI [of _ False] exI [of _ True] allI impI) (simp only: RewriteTags_groups(3))
  next
    case 3
    then show ?thesis by (intro exI [of _ False] exI [of _ True] allI impI) (simp only: RewriteTags_groups(4))
  next
    case 4
    then show ?thesis by (intro exI [of _ False] exI [of _ False] allI impI) (simp only: RewriteTags_groups(5))
  qed
qed

lemma rewriteParam_method: "rq_Method (fst (rewriteParam L rctx req res pos required f)) = rq_Method req"
  by (simp add: rewriteParam_def Let_def split: option.splits sum.splits)


definition demo_ctx :: RewriteContext where
  "demo_ctx = \<lparr>latest = 16, safe = 12, finalized = 8, maxBlockRange = 10\<rparr>"

definition demo_req :: "string \<Rightarrow> gojson list \<Rightarrow> RPCReq" where
  "demo_req m ps = \<lparr>rq_JSONRPC = JSONRPCVersion, rq_Method = m, rq_Params = json_encode (JArray ps), rq_ID = ''1''\<rparr>"

lemma geth_tags [simp]: "SafeBlockNumber geth = - 4" "FinalizedBlockNumber geth = - 3"
    "LatestBlockNumber geth = - 2" "PendingBlockNumber geth = - 1" "EarliestBlockNumber geth = 0"
  by (simp_all add: geth_def)

lemma demo_params:
  "list_all (\<lambda>v. canon v \<and> any_of (fnum geth) v = Some v) ps \<Longrightarrow>
   Unmarshal_anys geth (rq_Params (demo_req m ps)) = Some ps"
  unfolding demo_req_def RPCReq.simps
  by (rule gl.Unmarshal_anys_encode) (simp add: list_all_iff)

lemma demo_latest:
  "rewriteParam geth demo_ctx (demo_req m [JString a]) res 1 False True =
     (demo_req m [JString a, bnh_Value geth (BlockNumberOrHashWithNumber 16)], res, RewriteOverrideRequest, None)"
proof -
  have "rewriteParam_value geth demo_ctx True (JString ''latest'') =
      Inr (bnh_Value geth (BlockNumberOrHashWithNumber 16), True)"
    using gl.bnh_latest
    by (simp add: rewriteParam_value_def remarshalBlockNumberOrHash_def rewriteTagBlockNumberOrHash_def
        BlockNumberOrHashWithNumber_def demo_ctx_def)
  then show ?thesis
    by (simp add: rewriteParam_def demo_params) (simp add: demo_req_def)
qed

lemma demo_filter:
  "rewriteRange geth demo_ctx (demo_req m [JObject [(''fromBlock'', JString ''latest'')]]) res 0 =
     Done (demo_req m [JObject [(''fromBlock'', JString (hex_String geth 16)), (''toBlock'', JString (hex_String geth 16))]],
       res, RewriteOverrideRequest, None)"
proof -
  have p: "Unmarshal_maps geth (rq_Params (demo_req m [JObject [(''fromBlock'', JString ''latest'')]])) =
      Some [Some [(''fromBlock'', JString ''latest'')]]"
    by (simp add: Unmarshal_maps_def demo_params dedup_id)
  have tag: "rewriteTag geth demo_ctx ''latest'' = Inr (hex_String geth 16, True)"
    using gl.bnh_latest
    by (simp add: rewriteTag_def remarshalBlockNumberOrHash_def BlockNumberOrHashWithNumber_def demo_ctx_def)
  have put: "map_put ''toBlock'' v [(''fromBlock'', w)] = [(''fromBlock'', w), (''toBlock'', v)]"
    "map_put ''fromBlock'' v [(''fromBlock'', w), (''toBlock'', u)] = [(''fromBlock'', v), (''toBlock'', u)]"
    "map_put ''toBlock'' v [(''fromBlock'', w), (''toBlock'', u)] = [(''fromBlock'', w), (''toBlock'', v)]" for u v w :: gojson
    by (simp_all add: map_put_def dedup_def)
  have num: "hex_String geth 16 \<noteq> ''earliest''" "hex_String geth 16 \<noteq> ''pending''"
    by (simp_all add: geth_def geth_String_def)
  show ?thesis
    using num by (simp add: rewriteRange_def p default_bounds_def mget_def mset_key_def put rewriteTagMap_def tag
        range_check_def blockNumber_def gl.decode_String map_value_def)
      (simp add: demo_req_def demo_ctx_def)
qed







text \<open>
  C21: the rewriter panics exactly on a log filter request whose parameters decode to an empty list
  (\<open>[]\<close>, or null): \<open>rewriteRange\<close> indexes the first parameter without checking that there is one.
\<close>

theorem rewrite_panics_iff:
  "(\<exists>msg. RewriteTags L rctx req res = Panic msg) \<longleftrightarrow>
   rq_Method req \<in> {''eth_getLogs'', ''eth_newFilter''} \<and> Unmarshal_maps L (rq_Params req) = Some []"
proof (cases "rq_Method req \<in> {''eth_getLogs'', ''eth_newFilter''}")
  case True
  have "(\<exists>msg. rewriteRange L rctx req res 0 = Panic msg) \<longleftrightarrow> Unmarshal_maps L (rq_Params req) = Some []"
    by (simp add: rewriteRange_def Let_def split: option.split sum.split prod.split)
  with True show ?thesis by (simp only: RewriteTags_groups(1) [OF True] simp_thms)
next
  case False
  have if_Done: "(if b then Done x else Done y) = Done (if b then x else y)" for b and x y :: rewrite_ret
    by simp
  have "\<exists>ret. RewriteRequest L rctx req u = Done ret" for u
    unfolding RewriteRequest_def Let_def using False by (simp only: if_False if_Done outcome.inject simp_thms)
  then have "\<exists>ret. RewriteTags L rctx req res = Done ret"
    by (simp add: RewriteTags_def split: prod.split)
  with False show ?thesis by (auto simp only: outcome.distinct)
qed
end
