(* ===== verification/Rate_Limiter.thy ===== *)
theory Rate_Limiter
  imports RPC
begin

text \<open>
  Frontend rate limiters (\<open>proxyd/frontend_rate_limiter.go\<close>): the in-memory limiter, the Redis
  limiter, the limiter that always grants, and the fallback combination. A call receives the clock
  reading \<open>now\<close> and returns the new limiter. Redis is the argument \<open>redis_incr\<close>: the pipeline
  \<open>INCR key; PEXPIRE key ttl\<close> on a server state of any type, returning the counter or an error.

  The in-memory limiter takes two locks one after the other, so two calls can interleave between
  them. The step relation \<open>limiter_step\<close> models any number of goroutines at that granularity.
\<close>

section \<open>Sequential model\<close>

record limitedKeys =
  truncTS :: int
  keys :: "string \<Rightarrow> int option"

definition newLimitedKeys :: "int \<Rightarrow> limitedKeys" where
  "newLimitedKeys t = \<lparr>truncTS = t, keys = (\<lambda>_. None)\<rparr>"

definition limitedKeys_Take :: "string \<Rightarrow> int \<Rightarrow> limitedKeys \<Rightarrow> limitedKeys \<times> bool" where
  "limitedKeys_Take key mx l =
     (let (l, val) = (case keys l key of
            None \<Rightarrow> (l\<lparr>keys := (keys l)(key \<mapsto> 0)\<rparr>, 0)
          | Some val \<Rightarrow> (l, val))
      in (l\<lparr>keys := (keys l)(key \<mapsto> val + 1)\<rparr>, val < mx))"

text \<open>\<open>Time.Unix\<close>: whole seconds since 1970; the zero time is 62135596800 seconds earlier.\<close>

definition time_Unix :: "time \<Rightarrow> int" where
  "time_Unix t = t div 1000000000 - 62135596800"

definition truncateNow :: "time \<Rightarrow> duration \<Rightarrow> int" where
  "truncateNow now dur = time_Unix (time_Truncate dur now)"

record MemoryFrontendRateLimiter =
  currGeneration :: "limitedKeys option"
  ml_dur :: duration
  ml_max :: int

definition NewMemoryFrontendRateLimit :: "duration \<Rightarrow> int \<Rightarrow> MemoryFrontendRateLimiter" where
  "NewMemoryFrontendRateLimit dur mx = \<lparr>currGeneration = None, ml_dur = dur, ml_max = mx\<rparr>"

text \<open>The part of \<open>Take\<close> under the limiter's own lock: the generation to use.\<close>

definition curr_generation :: "time \<Rightarrow> MemoryFrontendRateLimiter \<Rightarrow> limitedKeys" where
  "curr_generation now m =
     (let ts = truncateNow now (ml_dur m)
      in case currGeneration m of
           None \<Rightarrow> newLimitedKeys ts
         | Some g \<Rightarrow> if truncTS g \<noteq> ts then newLimitedKeys ts else g)"

definition Memory_Take :: "time \<Rightarrow> string \<Rightarrow> MemoryFrontendRateLimiter \<Rightarrow> MemoryFrontendRateLimiter \<times> bool" where
  "Memory_Take now key m =
     (let (g, ok) = limitedKeys_Take key (ml_max m) (curr_generation now m)
      in (m\<lparr>currGeneration := Some g\<rparr>, ok))"

record RedisFrontendRateLimiter =
  rl_dur :: duration
  rl_max :: int
  rl_prefix :: string

definition NewRedisFrontendRateLimiter :: "duration \<Rightarrow> int \<Rightarrow> string \<Rightarrow> RedisFrontendRateLimiter" where
  "NewRedisFrontendRateLimiter dur mx prefix = \<lparr>rl_dur = dur, rl_max = mx, rl_prefix = prefix\<rparr>"

type_synonym 'w redis_incr = "string \<Rightarrow> duration \<Rightarrow> time \<Rightarrow> 'w \<Rightarrow> 'w \<times> (error + int)"

definition fullKey :: "RedisFrontendRateLimiter \<Rightarrow> string \<Rightarrow> int \<Rightarrow> string" where
  "fullKey r key ts = ''rate_limit:'' @ rl_prefix r @ '':'' @ key @ '':'' @ int_text ts"

definition Redis_Take ::
  "'w redis_incr \<Rightarrow> time \<Rightarrow> string \<Rightarrow> RedisFrontendRateLimiter \<Rightarrow> 'w \<Rightarrow> 'w \<times> (error + bool)" where
  "Redis_Take redis_incr now key r w =
     (case redis_incr (fullKey r key (truncateNow now (rl_dur r))) (rl_dur r - Millisecond) now w of
        (w', Inl err) \<Rightarrow> (w', Inl err)
      | (w', Inr val) \<Rightarrow> (w', Inr (val - 1 < rl_max r)))"

text \<open>The interface: a limiter is one of the four implementations.\<close>

datatype FrontendRateLimiter =
    MemoryLimiter MemoryFrontendRateLimiter
  | RedisLimiter RedisFrontendRateLimiter
  | NoopFrontendRateLimiter
  | FallbackRateLimiter FrontendRateLimiter FrontendRateLimiter

fun limiter_Take ::
  "'w redis_incr \<Rightarrow> time \<Rightarrow> string \<Rightarrow> FrontendRateLimiter \<Rightarrow> 'w \<Rightarrow>
   FrontendRateLimiter \<times> 'w \<times> (error + bool)" where
  "limiter_Take rd now key (MemoryLimiter m) w =
     (case Memory_Take now key m of (m', ok) \<Rightarrow> (MemoryLimiter m', w, Inr ok))"
| "limiter_Take rd now key (RedisLimiter r) w =
     (case Redis_Take rd now key r w of (w', ret) \<Rightarrow> (RedisLimiter r, w', ret))"
| "limiter_Take rd now key NoopFrontendRateLimiter w = (NoopFrontendRateLimiter, w, Inr True)"
| "limiter_Take rd now key (FallbackRateLimiter p s) w =
     (case limiter_Take rd now key p w of
        (p', w', Inl err) \<Rightarrow>
          (case limiter_Take rd now key s w' of (s', w'', ret) \<Rightarrow> (FallbackRateLimiter p' s', w'', ret))
      | (p', w', Inr ok) \<Rightarrow> (FallbackRateLimiter p' s, w', Inr ok))"

section \<open>Concurrent calls\<close>

text \<open>
  The generations are objects that a goroutine can still hold after the limiter has moved on. The
  state has all generations ever created (\<open>gens\<close>, the last is the current one), the clock, what
  each goroutine is doing, and the log of granted calls: the key and the window stamp of the
  generation that granted it. \<open>enter\<close> is the part of \<open>Take\<close> under the limiter's lock, \<open>leave\<close> the
  part under the lock of the generation. The clock never goes back.
\<close>

datatype goroutine = Idle | Holding nat string

record limiter_state =
  gens :: "limitedKeys list"
  clock :: time
  procs :: "nat \<Rightarrow> goroutine"
  granted :: "(string \<times> int) list"

definition init_limiter :: "time \<Rightarrow> limiter_state" where
  "init_limiter t = \<lparr>gens = [], clock = t, procs = (\<lambda>_. Idle), granted = []\<rparr>"

inductive limiter_step :: "duration \<Rightarrow> int \<Rightarrow> limiter_state \<Rightarrow> limiter_state \<Rightarrow> bool" for dur mx where
  tick: "clock s \<le> t \<Longrightarrow> limiter_step dur mx s (s\<lparr>clock := t\<rparr>)"
| enter_same: "procs s p = Idle \<Longrightarrow> gens s \<noteq> [] \<Longrightarrow> truncTS (last (gens s)) = truncateNow (clock s) dur \<Longrightarrow>
    limiter_step dur mx s (s\<lparr>procs := (procs s)(p := Holding (length (gens s) - 1) key)\<rparr>)"
| enter_new: "procs s p = Idle \<Longrightarrow> gens s = [] \<or> truncTS (last (gens s)) \<noteq> truncateNow (clock s) dur \<Longrightarrow>
    limiter_step dur mx s (s\<lparr>gens := gens s @ [newLimitedKeys (truncateNow (clock s) dur)],
      procs := (procs s)(p := Holding (length (gens s)) key)\<rparr>)"
| leave: "procs s p = Holding i key \<Longrightarrow> limitedKeys_Take key mx (gens s ! i) = (g, ok) \<Longrightarrow>
    limiter_step dur mx s (s\<lparr>gens := (gens s)[i := g], procs := (procs s)(p := Idle),
      granted := (if ok then (key, truncTS g) # granted s else granted s)\<rparr>)"

inductive limiter_reach :: "duration \<Rightarrow> int \<Rightarrow> limiter_state \<Rightarrow> bool" for dur mx where
  start: "limiter_reach dur mx (init_limiter t)"
| step: "limiter_reach dur mx s \<Longrightarrow> limiter_step dur mx s s' \<Longrightarrow> limiter_reach dur mx s'"

inductive_cases limiter_stepE: "limiter_step dur mx s s'"


section \<open>Invariant\<close>

definition used :: "limitedKeys \<Rightarrow> string \<Rightarrow> int" where
  "used g key = (case keys g key of None \<Rightarrow> 0 | Some n \<Rightarrow> n)"

lemma limitedKeys_Take_used:
  assumes "limitedKeys_Take key mx g = (g', ok)"
  shows "truncTS g' = truncTS g" and "ok \<longleftrightarrow> used g key < mx"
    and "used g' k = (if k = key then used g key + 1 else used g k)"
  using assms by (auto simp: limitedKeys_Take_def used_def Let_def split: option.splits)

lemma used_new [simp]: "used (newLimitedKeys t) k = 0" "truncTS (newLimitedKeys t) = t"
  by (simp_all add: used_def newLimitedKeys_def)

lemma time_Truncate_mono:
  assumes "s \<le> t"
  shows "time_Truncate d s \<le> time_Truncate d t"
proof (cases "0 < d")
  case True
  then have "time_Truncate d u = d * (u div d)" for u
    by (simp add: time_Truncate_def minus_mod_eq_mult_div)
  with True assms show ?thesis by (simp add: zdiv_mono1)
qed (use assms in \<open>simp add: time_Truncate_def\<close>)

lemma truncateNow_mono: "s \<le> t \<Longrightarrow> truncateNow s d \<le> truncateNow t d"
  by (simp add: truncateNow_def time_Unix_def zdiv_mono1 time_Truncate_mono)

text \<open>
  The stamps of the generations increase and do not pass the clock; a goroutine holds a generation
  that exists; the grants of a generation are as many as its counter says, capped at the maximum.
\<close>

definition limiter_inv :: "duration \<Rightarrow> int \<Rightarrow> limiter_state \<Rightarrow> bool" where
  "limiter_inv dur mx s \<longleftrightarrow>
     sorted_wrt (<) (map truncTS (gens s)) \<and>
     (\<forall>g \<in> set (gens s). truncTS g \<le> truncateNow (clock s) dur) \<and>
     (\<forall>p i key. procs s p = Holding i key \<longrightarrow> i < length (gens s)) \<and>
     (\<forall>g \<in> set (gens s). \<forall>key. 0 \<le> used g key \<and>
        int (count_list (granted s) (key, truncTS g)) = min (used g key) (max 0 mx)) \<and>
     (\<forall>(key, ts) \<in> set (granted s). ts \<in> truncTS ` set (gens s))"

lemma limiter_invI:
  assumes "sorted_wrt (<) (map truncTS (gens s))"
    and "\<And>g. g \<in> set (gens s) \<Longrightarrow> truncTS g \<le> truncateNow (clock s) dur"
    and "\<And>p i key. procs s p = Holding i key \<Longrightarrow> i < length (gens s)"
    and "\<And>g key. g \<in> set (gens s) \<Longrightarrow> 0 \<le> used g key \<and>
        int (count_list (granted s) (key, truncTS g)) = min (used g key) (max 0 mx)"
    and "\<And>key ts. (key, ts) \<in> set (granted s) \<Longrightarrow> ts \<in> truncTS ` set (gens s)"
  shows "limiter_inv dur mx s"
  using assms unfolding limiter_inv_def by (intro conjI ballI allI impI) (simp_all, blast+)

lemma limiter_invD:
  assumes "limiter_inv dur mx s"
  shows "sorted_wrt (<) (map truncTS (gens s))"
    and "g \<in> set (gens s) \<Longrightarrow> truncTS g \<le> truncateNow (clock s) dur"
    and "procs s p = Holding i key \<Longrightarrow> i < length (gens s)"
    and "g \<in> set (gens s) \<Longrightarrow> 0 \<le> used g key \<and>
        int (count_list (granted s) (key, truncTS g)) = min (used g key) (max 0 mx)"
    and "(key, ts) \<in> set (granted s) \<Longrightarrow> ts \<in> truncTS ` set (gens s)"
  using assms unfolding limiter_inv_def by blast+

lemma limiter_inv_init: "limiter_inv dur mx (init_limiter t)"
  by (simp add: limiter_inv_def init_limiter_def)

lemma sorted_update_same:
  "sorted_wrt (<) (map f xs) \<Longrightarrow> i < length xs \<Longrightarrow> f y = f (xs ! i) \<Longrightarrow> map f (xs[i := y]) = map f xs"
  by (metis list_update_id map_update)

lemma limiter_inv_leave:
  assumes inv: "limiter_inv dur mx s" and hold: "procs s p = Holding i key"
    and take: "limitedKeys_Take key mx (gens s ! i) = (g, ok)"
  shows "limiter_inv dur mx (s\<lparr>gens := (gens s)[i := g], procs := (procs s)(p := Idle),
      granted := (if ok then (key, truncTS g) # granted s else granted s)\<rparr>)"
proof -
  let ?gs = "gens s" and ?gs' = "(gens s)[i := g]"
  note d = limiter_invD [OF inv] and t = limitedKeys_Take_used [OF take]
  note i = d(3) [OF hold]
  have ts: "map truncTS ?gs' = map truncTS ?gs"
    using d(1) i t(1) by (rule sorted_update_same)
  then have img: "truncTS ` set ?gs' = truncTS ` set ?gs" by (metis list.set_map)
  have cnt: "0 \<le> used h k \<and> int (count_list (if ok then (key, truncTS g) # granted s else granted s) (k, truncTS h)) =
      min (used h k) (max 0 mx)" if h: "h \<in> set ?gs'" for h k
  proof -
    from h obtain j where j: "j < length ?gs" "h = ?gs' ! j" by (auto simp: in_set_conv_nth)
    have old: "0 \<le> used (?gs ! j) k \<and> int (count_list (granted s) (k, truncTS (?gs ! j))) = min (used (?gs ! j) k) (max 0 mx)"
      using d(4) [of "?gs ! j" k] j(1) by simp
    show ?thesis
    proof (cases "j = i")
      case True
      with j i have "h = g" by simp
      with old True t(1) t(2) t(3) [of k] show ?thesis by auto
    next
      case False
      then have "truncTS (?gs ! j) \<noteq> truncTS (?gs ! i)"
        using d(1) i j(1) by (auto simp: sorted_wrt_iff_nth_less linorder_neq_iff)
      with False j old t(1) show ?thesis by simp
    qed
  qed
  have bound: "truncTS h \<le> truncateNow (clock s) dur" if "h \<in> set ?gs'" for h
  proof -
    from that img obtain h' where "h' \<in> set ?gs" "truncTS h = truncTS h'" by (metis image_iff)
    with d(2) show ?thesis by simp
  qed
  show ?thesis
  proof (rule limiter_invI, goal_cases)
    case 1
    with ts d(1) show ?case by simp
  next
    case (2 h)
    with bound show ?case by simp
  next
    case (3 q j k)
    with d(3) [of q j k] show ?case by (simp split: if_splits)
  next
    case (4 h k)
    with cnt show ?case by simp
  next
    case (5 k u)
    then have "u = truncTS (?gs ! i) \<or> (k, u) \<in> set (granted s)" using t(1) by (auto split: if_splits)
    with d(5) [of k u] i img show ?case by auto
  qed
qed

lemma limiter_inv_enter_new:
  assumes inv: "limiter_inv dur mx s" and new: "gens s = [] \<or> truncTS (last (gens s)) \<noteq> truncateNow (clock s) dur"
  shows "limiter_inv dur mx (s\<lparr>gens := gens s @ [newLimitedKeys (truncateNow (clock s) dur)],
      procs := (procs s)(p := Holding (length (gens s)) key)\<rparr>)"
proof -
  note d = limiter_invD [OF inv]
  let ?t = "truncateNow (clock s) dur"
  have below: "truncTS g < ?t" if g: "g \<in> set (gens s)" for g
  proof -
    from g have ne: "gens s \<noteq> []" by auto
    then have "truncTS g \<le> truncTS (last (gens s))"
      using d(1) g by (auto simp: in_set_conv_nth last_conv_nth sorted_wrt_iff_nth_less le_less)
        (metis Suc_pred length_greater_0_conv less_Suc_eq)
    moreover have "truncTS (last (gens s)) < ?t" using d(2) [of "last (gens s)"] ne new by auto
    ultimately show ?thesis by simp
  qed
  then have fresh: "(k, ?t) \<notin> set (granted s)" for k using d(5) [of k ?t] by (metis image_iff less_irrefl)
  show ?thesis
  proof (rule limiter_invI, goal_cases)
    case 1
    with d(1) below show ?case by (auto simp: sorted_wrt_append)
  next
    case (2 g)
    with d(2) show ?case by auto
  next
    case (3 q j k)
    with d(3) [of q j k] show ?case by (auto split: if_splits)
  next
    case (4 g k)
    with d(4) [of g k] fresh [of k] show ?case by (auto simp: count_list_0_iff)
  next
    case (5 k u)
    with d(5) [of k u] show ?case by auto
  qed
qed

lemma limiter_step_inv: "limiter_step dur mx s s' \<Longrightarrow> limiter_inv dur mx s \<Longrightarrow> limiter_inv dur mx s'"
proof (induction rule: limiter_step.induct)
  case (tick s t)
  note d = limiter_invD [OF tick(2)]
  show ?case
    by (rule limiter_invI) (use d truncateNow_mono [OF tick(1), of dur] in \<open>simp_all, force+\<close>)
next
  case (enter_same s p key)
  note d = limiter_invD [OF enter_same(4)]
  show ?case
    by (rule limiter_invI) (use d enter_same(2) in \<open>auto split: if_splits\<close>)
next
  case (enter_new s p key)
  then show ?case by (intro limiter_inv_enter_new)
next
  case (leave s p i key g ok)
  then show ?case by (intro limiter_inv_leave)
qed


lemma limiter_reach_inv: "limiter_reach dur mx s \<Longrightarrow> limiter_inv dur mx s"
  by (induction rule: limiter_reach.induct) (auto intro: limiter_inv_init limiter_step_inv)

section \<open>Properties\<close>

text \<open>
  C4: the in-memory limiter never grants more than its maximum. However the calls of any number of
  goroutines interleave, also when a goroutine still holds the generation of an earlier window,
  the calls granted for a key in a window are at most the maximum.
\<close>

theorem memory_limiter_bound:
  assumes "limiter_reach dur mx s"
  shows "int (count_list (granted s) (key, ts)) \<le> max 0 mx"
proof (cases "(key, ts) \<in> set (granted s)")
  case True
  note d = limiter_invD [OF limiter_reach_inv [OF assms]]
  from d(5) [OF True] obtain g where "g \<in> set (gens s)" "ts = truncTS g" by blast
  with d(4) [of g key] show ?thesis by simp
qed (simp add: count_list_0_iff)

lemma memory_limiter_bound_witness:
  "\<exists>s. limiter_reach Minute 1 s \<and> count_list (granted s) (''k'', - 62135596800) = 1 \<and>
     int (count_list (granted s) (''k'', - 62135596800)) \<le> max 0 1"
proof -
  let ?g0 = "newLimitedKeys (- 62135596800)"
  let ?g1 = "?g0\<lparr>keys := [''k'' \<mapsto> 1]\<rparr>"
  let ?s1 = "(init_limiter 0)\<lparr>gens := [?g0], procs := (\<lambda>_. Idle)(0 := Holding 0 ''k'')\<rparr>"
  let ?s2 = "?s1\<lparr>gens := [?g1], procs := (\<lambda>_. Idle)(0 := Holding 0 ''k'', 0 := Idle), granted := [(''k'', - 62135596800)]\<rparr>"
  have "limiter_step Minute 1 (init_limiter 0) ?s1"
    using enter_new [of "init_limiter 0" 0 Minute 1 "''k''"]
    by (simp add: init_limiter_def truncateNow_def time_Truncate_def time_Unix_def)
  moreover have "limiter_step Minute 1 ?s1 ?s2"
    using leave [of ?s1 0 0 "''k''" 1 ?g1 True Minute]
    by (simp add: init_limiter_def limitedKeys_Take_def newLimitedKeys_def Let_def)
  ultimately have r: "limiter_reach Minute 1 ?s2"
    by (meson limiter_reach.intros)
  show ?thesis
    using r memory_limiter_bound [OF r, of "''k''" "- 62135596800"] by (intro exI [of _ ?s2]) simp
qed

fun memory_takes :: "time list \<Rightarrow> string \<Rightarrow> MemoryFrontendRateLimiter \<Rightarrow> MemoryFrontendRateLimiter \<times> bool list" where
  "memory_takes [] key m = (m, [])"
| "memory_takes (t # ts) key m =
     (case Memory_Take t key m of
        (m', ok) \<Rightarrow> (case memory_takes ts key m' of (m'', oks) \<Rightarrow> (m'', ok # oks)))"

text \<open>
  C19: calls of one goroutine within a window. The \<open>n\<close> calls \<open>Take\<close> for a key that follow each
  other with the same window stamp are granted exactly while fewer than the maximum were made
  before, counting from what the generation had used.
\<close>

theorem memory_takes_exact:
  assumes "\<forall>t \<in> set ts. truncateNow t (ml_dur m) = w"
  shows "snd (memory_takes ts key m) =
    map (\<lambda>i. (case currGeneration m of
        Some g \<Rightarrow> if truncTS g = w then used g key else 0 | None \<Rightarrow> 0) + int i < ml_max m) [0..<length ts]"
  using assms
proof (induction ts arbitrary: m)
  case (Cons t ts)
  obtain g ok where g: "limitedKeys_Take key (ml_max m) (curr_generation t m) = (g, ok)" by fastforce
  note u = limitedKeys_Take_used [OF g]
  let ?m' = "m\<lparr>currGeneration := Some g\<rparr>"
  let ?n = "case currGeneration m of Some g \<Rightarrow> if truncTS g = w then used g key else 0 | None \<Rightarrow> 0"
  have w: "truncateNow t (ml_dur m) = w" using Cons.prems by simp
  then have start: "used (curr_generation t m) key = ?n" "truncTS (curr_generation t m) = w"
    by (simp_all add: curr_generation_def Let_def split: option.split)
  have "snd (memory_takes ts key ?m') = map (\<lambda>i. used g key + int i < ml_max m) [0..<length ts]"
    using Cons.IH [of ?m'] Cons.prems u(1) start(2) by simp
  also have "\<dots> = map (\<lambda>i. ?n + int (Suc i) < ml_max m) [0..<length ts]"
    using u(3) [of key] start(1) by (simp add: algebra_simps)
  finally have "snd (memory_takes (t # ts) key m) = (?n < ml_max m) # map (\<lambda>i. ?n + int (Suc i) < ml_max m) [0..<length ts]"
    using u(2) start(1) by (simp add: Memory_Take_def g case_prod_beta)
  then show ?case
    by (simp add: map_upt_Suc del: upt_Suc memory_takes.simps)
qed simp

lemma memory_takes_exact_witness:
  "snd (memory_takes [0, 5, 9] ''k'' (NewMemoryFrontendRateLimit Minute 2)) = [True, True, False]"
  by (subst memory_takes_exact [where w = "- 62135596800"])
    (simp_all add: NewMemoryFrontendRateLimit_def truncateNow_def time_Truncate_def time_Unix_def upt_rec)


end
