(* ===== verification/IO_Util.thy ===== *)
theory IO_Util
  imports RPC
begin

text \<open>
  Two utilities of proxyd: the limited reader (\<open>proxyd/reader.go\<close>) with \<open>io.ReadAll\<close>, through
  which every backend response body is read, and string sets (\<open>proxyd/string_set.go\<close>).

  A reader is given by what it will deliver: a list of pieces of data, each possibly with an
  error, then end of file. A read with a buffer of \<open>k\<close> bytes takes at most \<open>k\<close> bytes of the next
  piece; the error of a piece comes with its last bytes.
\<close>

section \<open>Readers\<close>

datatype read_err = EOF | ReadErr error

type_synonym reader = "(bytes \<times> read_err option) list"

fun reader_Read :: "nat \<Rightarrow> reader \<Rightarrow> reader \<times> bytes \<times> read_err option" where
  "reader_Read k [] = ([], [], Some EOF)"
| "reader_Read k ((d, e) # r) =
     (if length d \<le> k then (r, d, e) else ((drop k d, e) # r, take k d, None))"

record LimitedReader =
  lr_R :: reader
  lr_N :: int

definition LimitReader :: "reader \<Rightarrow> int \<Rightarrow> LimitedReader" where
  "LimitReader r n = \<lparr>lr_R = r, lr_N = n\<rparr>"

definition LimitedReader_Read :: "nat \<Rightarrow> LimitedReader \<Rightarrow> LimitedReader \<times> bytes \<times> read_err option" where
  "LimitedReader_Read k l =
     (if lr_N l \<le> 0 then (l, [], Some (ReadErr (Std ErrLimitReaderOverLimit)))
      else
        (let k = (if int k > lr_N l then nat (lr_N l) else k);
             (r, d, err) = reader_Read k (lr_R l)
         in (l\<lparr>lr_R := r, lr_N := lr_N l - int (length d)\<rparr>, d, err)))"

text \<open>
  \<open>io.ReadAll\<close>: reads until an error; end of file is not an error. The buffer has room for \<open>k\<close>
  bytes at each read (\<open>k\<close> positive: it is grown when it is full); the first argument bounds the
  number of reads.
\<close>

fun io_ReadAll :: "nat \<Rightarrow> nat \<Rightarrow> LimitedReader \<Rightarrow> (bytes \<times> error option) option" where
  "io_ReadAll 0 k l = None"
| "io_ReadAll (Suc n) k l =
     (case LimitedReader_Read k l of
        (l', d, Some EOF) \<Rightarrow> Some (d, None)
      | (l', d, Some (ReadErr err)) \<Rightarrow> Some (d, Some err)
      | (l', d, None) \<Rightarrow> map_option (apfst ((@) d)) (io_ReadAll n k l'))"

text \<open>The number of reads a reader can need.\<close>

fun reader_size :: "reader \<Rightarrow> nat" where
  "reader_size [] = 0"
| "reader_size ((d, e) # r) = Suc (length d + reader_size r)"

text \<open>
  Reading a body through the limit. The theorem \<open>limited_read_spec\<close> shows that neither the buffer
  size nor the bound on the number of reads matters.
\<close>

definition read_limited :: "reader \<Rightarrow> int \<Rightarrow> bytes \<times> error option" where
  "read_limited r n = (case io_ReadAll (Suc (reader_size r)) 512 (LimitReader r n) of
       Some ret \<Rightarrow> ret
     | None \<Rightarrow> ([], None))"

text \<open>
  What a limited read amounts to: the data up to the first error, unless the limit is reached
  before an error or the end of the file has been seen.
\<close>

fun limited_spec :: "reader \<Rightarrow> int \<Rightarrow> bytes \<times> error option" where
  "limited_spec r n =
     (if n \<le> 0 then ([], Some (Std ErrLimitReaderOverLimit))
      else case r of
          [] \<Rightarrow> ([], None)
        | (d, e) # r' \<Rightarrow>
            if int (length d) \<le> n then
              (case e of
                 Some EOF \<Rightarrow> (d, None)
               | Some (ReadErr err) \<Rightarrow> (d, Some err)
               | None \<Rightarrow> apfst ((@) d) (limited_spec r' (n - int (length d))))
            else (take (nat n) d, Some (Std ErrLimitReaderOverLimit)))"

declare limited_spec.simps [simp del]

lemma limited_spec_split:
  assumes "0 < j" and "j < length d" and "int j \<le> n"
  shows "limited_spec ((d, e) # r) n = apfst ((@) (take j d)) (limited_spec ((drop j d, e) # r) (n - int j))"
proof (cases "n = int j")
  case True
  with assms show ?thesis by (simp add: limited_spec.simps)
next
  case False
  with assms have "n - int j > 0" by simp
  moreover have "take j d @ take (nat (n - int j)) (drop j d) = take (nat n) d" if "n < int (length d)"
    using assms by (simp add: nat_diff_distrib' take_drop [symmetric] flip: take_add)
  ultimately show ?thesis
    using assms by (simp add: limited_spec.simps [of "(d, e) # r"] limited_spec.simps [of "(drop j d, e) # r"]
        apfst_compose comp_def split: option.split read_err.split)
qed

lemma io_ReadAll_spec:
  assumes "0 < k" and "reader_size (lr_R l) < n"
  shows "io_ReadAll n k l = Some (limited_spec (lr_R l) (lr_N l))"
  using assms(2)
proof (induction n arbitrary: l)
  case (Suc n)
  let ?r = "lr_R l" and ?N = "lr_N l"
  show ?case
  proof (cases "?N \<le> 0 \<or> ?r = []")
    case True
    then show ?thesis by (auto simp: LimitedReader_Read_def limited_spec.simps)
  next
    case False
    then obtain d e r' where r: "?r = (d, e) # r'" and N: "0 < ?N" by (cases ?r) auto
    let ?j = "if int k > ?N then nat ?N else k"
    have j: "0 < ?j" "int ?j \<le> ?N" using assms(1) N by auto
    show ?thesis
    proof (cases "length d \<le> ?j")
      case True
      then have "int (length d) \<le> ?N" using j(2) by linarith
      with True r N Suc show ?thesis
        by (auto simp: LimitedReader_Read_def Let_def limited_spec.simps [of "(d, e) # r'"]
            split: option.split read_err.split)
    next
      case long: False
      let ?l' = "l\<lparr>lr_R := (drop ?j d, e) # r', lr_N := ?N - int ?j\<rparr>"
      have "LimitedReader_Read k l = (?l', take ?j d, None)"
        using r N long by (auto simp: LimitedReader_Read_def Let_def)
      moreover have "io_ReadAll n k ?l' = Some (limited_spec ((drop ?j d, e) # r') (?N - int ?j))"
        using Suc.IH [of ?l'] Suc.prems r long j by simp
      ultimately have "io_ReadAll (Suc n) k l =
          Some (apfst ((@) (take ?j d)) (limited_spec ((drop ?j d, e) # r') (?N - int ?j)))" by simp
      with limited_spec_split [of ?j d ?N e r'] r long j show ?thesis by simp
    qed
  qed
qed simp

lemma limited_spec_length: "0 \<le> n \<Longrightarrow> int (length (fst (limited_spec r n))) \<le> n"
proof (induction r n rule: limited_spec.induct)
  case (1 r n)
  show ?case
  proof (cases r)
    case (Cons p r')
    obtain d e where p: "p = (d, e)" by (cases p)
    show ?thesis
    proof (cases "0 < n \<and> int (length d) \<le> n \<and> e = None")
      case True
      then have "int (length (fst (limited_spec r' (n - int (length d))))) \<le> n - int (length d)"
        using 1(1) [OF _ Cons p [symmetric]] by simp
      with True show ?thesis unfolding Cons p by (subst limited_spec.simps) simp
    next
      case False
      with 1(2) show ?thesis unfolding Cons p
        by (subst limited_spec.simps) (auto split: option.split read_err.split)
    qed
  next
    case Nil
    with 1(2) show ?thesis by (subst limited_spec.simps) simp
  qed
qed

lemma read_limited_whole:
  assumes "0 < n" and "int (length d) \<le> n"
  shows "read_limited [(d, Some EOF)] n = (d, None)"
  using assms io_ReadAll_spec [of 512 "LimitReader [(d, Some EOF)] n" "Suc (reader_size [(d, Some EOF)])"]
  by (simp add: read_limited_def LimitReader_def limited_spec.simps)

section \<open>String sets\<close>

text \<open>The keys of the underlying map, each once; Go lists them in any order.\<close>

record StringSet =
  underlying :: "string list"

definition NewStringSet :: StringSet where
  "NewStringSet = \<lparr>underlying = []\<rparr>"

definition StringSet_Has :: "string \<Rightarrow> StringSet \<Rightarrow> bool" where
  "StringSet_Has test s = (test \<in> set (underlying s))"

definition StringSet_Add :: "string \<Rightarrow> StringSet \<Rightarrow> StringSet" where
  "StringSet_Add str s = s\<lparr>underlying := List.insert str (underlying s)\<rparr>"

definition NewStringSetFromStrings :: "string list \<Rightarrow> StringSet" where
  "NewStringSetFromStrings xs = \<lparr>underlying = fold List.insert xs []\<rparr>"

definition StringSet_Entries :: "StringSet \<Rightarrow> string list" where
  "StringSet_Entries s = underlying s"

definition StringSet_Extend :: "string list \<Rightarrow> StringSet \<Rightarrow> StringSet" where
  "StringSet_Extend xs s = fold StringSet_Add (underlying s) (NewStringSetFromStrings xs)"

lemma fold_insert_set: "set (fold List.insert xs ys) = set ys \<union> set xs"
  by (induction xs arbitrary: ys) auto

lemma fold_Add_Has: "StringSet_Has x (fold StringSet_Add xs s) \<longleftrightarrow> StringSet_Has x s \<or> x \<in> set xs"
  by (induction xs arbitrary: s) (auto simp: StringSet_Has_def StringSet_Add_def)

section \<open>Properties\<close>

text \<open>
  C17: a backend response is read completely or refused. Whatever pieces the body arrives in and
  whatever room the buffer has at each read, reading through the limit ends, returns the data up to
  the first error or end of file, or the over-limit error, and never more than the limit.
\<close>

theorem limited_read_spec:
  assumes "0 < k" and "reader_size r < fuel" and "0 \<le> n"
  shows "io_ReadAll fuel k (LimitReader r n) = Some (read_limited r n) \<and>
         read_limited r n = limited_spec r n \<and>
         int (length (fst (read_limited r n))) \<le> n"
proof -
  have "read_limited r n = limited_spec r n"
    using io_ReadAll_spec [of 512 "LimitReader r n" "Suc (reader_size r)"]
    by (simp add: read_limited_def LimitReader_def)
  with io_ReadAll_spec [OF assms(1), of "LimitReader r n" fuel] limited_spec_length [OF assms(3), of r] assms(2)
  show ?thesis by (simp add: LimitReader_def)
qed

lemma limited_read_spec_witness:
  "io_ReadAll 9 2 (LimitReader [(''abc'', None), (''d'', Some EOF)] 4) = Some (''abcd'', None)"
proof -
  have "read_limited [(''abc'', None), (''d'', Some EOF)] 4 = (''abcd'', None)"
    using io_ReadAll_spec [of 512 "LimitReader [(''abc'', None), (''d'', Some EOF)] 4" 7]
    by (simp add: read_limited_def LimitReader_def limited_spec.simps eval_nat_numeral)
  then show ?thesis
    using limited_read_spec [of 2 "[(''abc'', None), (''d'', Some EOF)]" 9 4] by simp
qed

text \<open>
  C23: a body of exactly the limit is refused when its end of file arrives in a read of its own,
  although it is not larger than the limit; it is accepted when the end of file comes with the
  last bytes.
\<close>

theorem limit_reached_without_eof:
  assumes "int (length d) = n" and "0 < n"
  shows "read_limited [(d, None)] n = (d, Some (Std ErrLimitReaderOverLimit)) \<and>
         read_limited [(d, Some EOF)] n = (d, None)"
proof -
  have "read_limited r n = limited_spec r n" for r
    using io_ReadAll_spec [of 512 "LimitReader r n" "Suc (reader_size r)"]
    by (simp add: read_limited_def LimitReader_def)
  with assms show ?thesis by (simp add: limited_spec.simps)
qed

lemma limit_reached_without_eof_witness:
  "read_limited [(''ab'', None)] 2 = (''ab'', Some (Std ErrLimitReaderOverLimit))"
  using limit_reached_without_eof [of "''ab''" 2] by simp

text \<open>
  string sets behave as sets of strings: membership after building from a list, adding, and
  extending.
\<close>

theorem string_set_membership:
  "StringSet_Has x (NewStringSetFromStrings xs) = (x \<in> set xs) \<and>
   StringSet_Has x (StringSet_Add y s) = (x = y \<or> StringSet_Has x s) \<and>
   StringSet_Has x (StringSet_Extend xs s) = (x \<in> set xs \<or> StringSet_Has x s) \<and>
   \<not> StringSet_Has x NewStringSet"
  by (auto simp: NewStringSetFromStrings_def fold_insert_set StringSet_Extend_def fold_Add_Has)
    (auto simp: StringSet_Has_def StringSet_Add_def NewStringSet_def fold_insert_set)

end
