(* ===== verification/Cache.thy ===== *)
theory Cache
  imports Eth_Lib
begin

text \<open>
  The response cache (\<open>proxyd/cache.go\<close>, \<open>proxyd/methods.go\<close>). A \<open>Cache\<close> is one of the four
  implementations; operations thread the cache and the state \<open>w\<close> of the Redis servers. The LRU
  list, Redis, snappy and SHA-256 are the argument \<open>C\<close>, a record of functions. \<open>cache_libs\<close> states
  what the theorems use of them; the interface \<open>Cache\<close> is the locale \<open>cache_contract\<close>, which the
  four implementations satisfy and on which the facts about the RPC cache rest.
\<close>

section \<open>Libraries\<close>

datatype redis_reply = RedisNil | RedisErr error | RedisVal string

record ('l, 'w) cache_lib =
  lru_Get :: "string \<Rightarrow> 'l \<Rightarrow> 'l \<times> string option"
  lru_Add :: "string \<Rightarrow> string \<Rightarrow> 'l \<Rightarrow> 'l"
  redis_Get :: "string \<Rightarrow> 'w \<Rightarrow> 'w \<times> redis_reply"
  redis_SetEx :: "string \<Rightarrow> string \<Rightarrow> duration \<Rightarrow> 'w \<Rightarrow> 'w \<times> error option"
  snappy_Encode :: "bytes \<Rightarrow> bytes"
  snappy_Decode :: "bytes \<Rightarrow> error + bytes"
  sha256_hex :: "bytes \<Rightarrow> string"

section \<open>Caches\<close>

record redisCache =
  rc_prefix :: string
  rc_ttl :: duration

datatype 'l Cache =
    memoryCache 'l
  | fallbackCache "'l Cache" "'l Cache"
  | redisCache redisCache
  | cacheWithCompression "'l Cache"

definition namespaced :: "redisCache \<Rightarrow> string \<Rightarrow> string" where
  "namespaced c key = (if rc_prefix c = [] then key else strings_Join [rc_prefix c, key] '':'')"

fun Cache_Get :: "('l, 'w) cache_lib \<Rightarrow> string \<Rightarrow> 'l Cache \<Rightarrow> 'w \<Rightarrow> 'l Cache \<times> 'w \<times> (error + string)" where
  "Cache_Get C key (memoryCache lru) w =
     (case lru_Get C key lru of
        (lru', Some val) \<Rightarrow> (memoryCache lru', w, Inr val)
      | (lru', None) \<Rightarrow> (memoryCache lru', w, Inr []))"
| "Cache_Get C key (fallbackCache p s) w =
     (case Cache_Get C key p w of
        (p', w', Inl err) \<Rightarrow>
          (case Cache_Get C key s w' of (s', w'', ret) \<Rightarrow> (fallbackCache p' s', w'', ret))
      | (p', w', Inr val) \<Rightarrow> (fallbackCache p' s, w', Inr val))"
| "Cache_Get C key (redisCache c) w =
     (case redis_Get C (namespaced c key) w of
        (w', RedisNil) \<Rightarrow> (redisCache c, w', Inr [])
      | (w', RedisErr err) \<Rightarrow> (redisCache c, w', Inl err)
      | (w', RedisVal val) \<Rightarrow> (redisCache c, w', Inr val))"
| "Cache_Get C key (cacheWithCompression c) w =
     (case Cache_Get C key c w of
        (c', w', Inl err) \<Rightarrow> (cacheWithCompression c', w', Inl err)
      | (c', w', Inr encodedVal) \<Rightarrow>
          (cacheWithCompression c', w',
            if encodedVal = [] then Inr []
            else case snappy_Decode C encodedVal of Inl err \<Rightarrow> Inl err | Inr val \<Rightarrow> Inr val))"

fun Cache_Put :: "('l, 'w) cache_lib \<Rightarrow> string \<Rightarrow> string \<Rightarrow> 'l Cache \<Rightarrow> 'w \<Rightarrow> 'l Cache \<times> 'w \<times> error option" where
  "Cache_Put C key val (memoryCache lru) w = (memoryCache (lru_Add C key val lru), w, None)"
| "Cache_Put C key val (fallbackCache p s) w =
     (case Cache_Put C key val p w of
        (p', w', Some err) \<Rightarrow>
          (case Cache_Put C key val s w' of (s', w'', ret) \<Rightarrow> (fallbackCache p' s', w'', ret))
      | (p', w', None) \<Rightarrow> (fallbackCache p' s, w', None))"
| "Cache_Put C key val (redisCache c) w =
     (case redis_SetEx C (namespaced c key) val (rc_ttl c) w of (w', err) \<Rightarrow> (redisCache c, w', err))"
| "Cache_Put C key val (cacheWithCompression c) w =
     (case Cache_Put C key (snappy_Encode C val) c w of (c', w', err) \<Rightarrow> (cacheWithCompression c', w', err))"

section \<open>Cached methods\<close>

record StaticMethodHandler =
  filterGet :: "(RPCReq \<Rightarrow> bool) option"
  filterPut :: "(RPCReq \<Rightarrow> RPCRes \<Rightarrow> bool) option"

definition handler_key :: "('l, 'w) cache_lib \<Rightarrow> RPCReq \<Rightarrow> string" where
  "handler_key C req = strings_Join [''cache'', rq_Method req, sha256_hex C (rq_Params req)] '':''"

definition filtered_out :: "StaticMethodHandler \<Rightarrow> RPCReq \<Rightarrow> bool" where
  "filtered_out e req = (case filterGet e of None \<Rightarrow> False | Some f \<Rightarrow> \<not> f req)"

definition filtered_put :: "StaticMethodHandler \<Rightarrow> RPCReq \<Rightarrow> RPCRes \<Rightarrow> bool" where
  "filtered_put e req res = (case filterPut e of None \<Rightarrow> False | Some f \<Rightarrow> \<not> f req res)"

text \<open>A nil cache makes both operations do nothing; a nil response is \<open>None\<close>.\<close>

definition GetRPCMethod ::
  "'a lib_scheme \<Rightarrow> ('l, 'w) cache_lib \<Rightarrow> StaticMethodHandler \<Rightarrow> RPCReq \<Rightarrow> 'l Cache option \<Rightarrow> 'w \<Rightarrow>
   'l Cache option \<times> 'w \<times> (error + RPCRes option)" where
  "GetRPCMethod L C e req cache w =
     (case cache of
        None \<Rightarrow> (cache, w, Inr None)
      | Some c \<Rightarrow>
          if filtered_out e req then (cache, w, Inr None)
          else case Cache_Get C (handler_key C req) c w of
              (c', w', Inl err) \<Rightarrow> (Some c', w', Inl err)
            | (c', w', Inr val) \<Rightarrow>
                (Some c', w',
                  if val = [] then Inr None
                  else case any_field (fnum L) [val] None of
                      None \<Rightarrow> Inl (Errorf (json_err L val))
                    | Some result \<Rightarrow>
                        Inr (Some \<lparr>rs_JSONRPC = rq_JSONRPC req, rs_Result = result, rs_Error = None,
                          rs_ID = rq_ID req\<rparr>)))"

definition PutRPCMethod ::
  "'a lib_scheme \<Rightarrow> ('l, 'w) cache_lib \<Rightarrow> StaticMethodHandler \<Rightarrow> RPCReq \<Rightarrow> RPCRes \<Rightarrow> 'l Cache option \<Rightarrow> 'w \<Rightarrow>
   ('l Cache option \<times> 'w \<times> error option) outcome" where
  "PutRPCMethod L C e req res cache w =
     (case cache of
        None \<Rightarrow> Done (cache, w, None)
      | Some c \<Rightarrow>
          if filtered_out e req then Done (cache, w, None)
          else if filtered_put e req res then Done (cache, w, None)
          else case marshal_result (hex_String L) (rs_Result res) of
              None \<Rightarrow> Panic ''mustMarshalJSON''
            | Some val \<Rightarrow>
                (case Cache_Put C (handler_key C req) val c w of
                   (c', w', err) \<Rightarrow> Done (Some c', w', err)))"

section \<open>The RPC cache\<close>

definition hash_request :: "'a lib_scheme \<Rightarrow> RPCReq \<Rightarrow> bool" where
  "hash_request L req = (case Unmarshal_bnhs L (rq_Params req) of
       None \<Rightarrow> False
     | Some p \<Rightarrow> if length p \<noteq> 1 then False else BlockHash (p ! 0) \<noteq> None)"

definition nonempty_receipts :: "RPCReq \<Rightarrow> RPCRes \<Rightarrow> bool" where
  "nonempty_receipts req res = (case rs_Result res of
       Some (ResJSON (JArray rawReceipts)) \<Rightarrow> 0 < length rawReceipts
     | _ \<Rightarrow> False)"

definition rpc_handlers :: "'a lib_scheme \<Rightarrow> (string \<times> StaticMethodHandler) list" where
  "rpc_handlers L =
     (let staticHandler = \<lparr>filterGet = None, filterPut = None\<rparr>;
          debugGetRawReceiptsHandler = \<lparr>filterGet = Some (hash_request L), filterPut = Some nonempty_receipts\<rparr>
      in [(''eth_chainId'', staticHandler),
          (''net_version'', staticHandler),
          (''eth_getBlockTransactionCountByHash'', staticHandler),
          (''eth_getUncleCountByBlockHash'', staticHandler),
          (''eth_getBlockByHash'', staticHandler),
          (''eth_getTransactionByBlockHashAndIndex'', staticHandler),
          (''eth_getUncleByBlockHashAndIndex'', staticHandler),
          (''debug_getRawReceipts'', debugGetRawReceiptsHandler)])"

definition GetRPC ::
  "'a lib_scheme \<Rightarrow> ('l, 'w) cache_lib \<Rightarrow> RPCReq \<Rightarrow> 'l Cache option \<Rightarrow> 'w \<Rightarrow>
   'l Cache option \<times> 'w \<times> (error + RPCRes option)" where
  "GetRPC L C req cache w =
     (case map_of (rpc_handlers L) (rq_Method req) of
        None \<Rightarrow> (cache, w, Inr None)
      | Some handler \<Rightarrow> GetRPCMethod L C handler req cache w)"

definition PutRPC ::
  "'a lib_scheme \<Rightarrow> ('l, 'w) cache_lib \<Rightarrow> RPCReq \<Rightarrow> RPCRes \<Rightarrow> 'l Cache option \<Rightarrow> 'w \<Rightarrow>
   ('l Cache option \<times> 'w \<times> error option) outcome" where
  "PutRPC L C req res cache w =
     (case map_of (rpc_handlers L) (rq_Method req) of
        None \<Rightarrow> Done (cache, w, None)
      | Some handler \<Rightarrow> PutRPCMethod L C handler req res cache w)"

section \<open>The contract of a cache\<close>

text \<open>
  A cache may forget, but what it returns was stored under that key: \<open>stored s\<close> are the pairs that
  a lookup can still return.
\<close>

datatype cache_op = OpGet string | OpPut string string

fun op_step :: "(string \<Rightarrow> 's \<Rightarrow> 's \<times> (error + string)) \<Rightarrow> (string \<Rightarrow> string \<Rightarrow> 's \<Rightarrow> 's \<times> error option) \<Rightarrow>
    cache_op \<Rightarrow> 's \<Rightarrow> 's" where
  "op_step get put (OpGet k) s = fst (get k s)"
| "op_step get put (OpPut k v) s = fst (put k v s)"

locale cache_contract =
  fixes get :: "string \<Rightarrow> 's \<Rightarrow> 's \<times> (error + string)"
    and put :: "string \<Rightarrow> string \<Rightarrow> 's \<Rightarrow> 's \<times> error option"
    and held :: "'s \<Rightarrow> (string \<times> string) set"
    and inv :: "'s \<Rightarrow> bool"
  assumes get_held: "inv s \<Longrightarrow> get k s = (s', Inr v) \<Longrightarrow> v \<noteq> [] \<Longrightarrow> (k, v) \<in> held s"
    and get_frame: "inv s \<Longrightarrow> get k s = (s', r) \<Longrightarrow> inv s' \<and> held s' \<subseteq> held s"
    and put_frame: "inv s \<Longrightarrow> put k v s = (s', e) \<Longrightarrow> inv s' \<and> held s' \<subseteq> insert (k, v) (held s)"
begin

lemma op_step_frame:
  assumes "inv s"
  shows "inv (op_step get put op s) \<and> held (op_step get put op s) \<subseteq> held s \<union> {(k, v). op = OpPut k v}"
proof (cases op)
  case (OpGet k)
  then show ?thesis using get_frame [of s k "fst (get k s)" "snd (get k s)"] assms by auto
next
  case (OpPut k v)
  then show ?thesis using put_frame [of s k v "fst (put k v s)" "snd (put k v s)"] assms by auto
qed

lemma run_frame:
  "inv s \<Longrightarrow> inv (fold (op_step get put) ops s) \<and> held (fold (op_step get put) ops s) \<subseteq> held s \<union> {(k, v). OpPut k v \<in> set ops}"
proof (induction ops arbitrary: s)
  case (Cons op ops)
  from op_step_frame [OF Cons.prems, of op] Cons.IH [of "op_step get put op s"] show ?case by auto
qed simp

text \<open>What a lookup returns was put under that key before, if the cache started empty.\<close>

lemma get_was_put:
  assumes "inv s" and "held s = {}" and "get k (fold (op_step get put) ops s) = (s', Inr v)" and "v \<noteq> []"
  shows "OpPut k v \<in> set ops"
  using get_held [OF _ assms(3,4)] run_frame [OF assms(1), of ops] assms(2) by auto

end

section \<open>The caches satisfy the contract\<close>

text \<open>
  What the libraries promise: a lookup in the LRU list or in Redis returns a value stored under that
  key, storing adds only the new pair (whether or not Redis reports an error), and decoding inverts
  encoding.
\<close>

locale cache_libs =
  fixes C :: "('l, 'w) cache_lib"
    and lru_view :: "'l \<Rightarrow> (string \<times> string) set" and redis_view :: "'w \<Rightarrow> (string \<times> string) set"
  assumes lru_Get_view: "lru_Get C k l = (l', r) \<Longrightarrow>
      lru_view l' \<subseteq> lru_view l \<and> (\<forall>v. r = Some v \<longrightarrow> (k, v) \<in> lru_view l)"
    and lru_Add_view: "lru_view (lru_Add C k v l) \<subseteq> insert (k, v) (lru_view l)"
    and redis_Get_view: "redis_Get C k w = (w', reply) \<Longrightarrow>
      redis_view w' \<subseteq> redis_view w \<and> (\<forall>v. reply = RedisVal v \<longrightarrow> (k, v) \<in> redis_view w)"
    and redis_SetEx_view: "redis_SetEx C k v t w = (w', e) \<Longrightarrow> redis_view w' \<subseteq> insert (k, v) (redis_view w)"
    and snappy_inverse: "snappy_Decode C (snappy_Encode C v) = Inr v"

fun stored :: "('l, 'w) cache_lib \<Rightarrow> ('l \<Rightarrow> (string \<times> string) set) \<Rightarrow> ('w \<Rightarrow> (string \<times> string) set) \<Rightarrow>
    'l Cache \<Rightarrow> 'w \<Rightarrow> (string \<times> string) set" where
  "stored C lv rv (memoryCache l) w = lv l"
| "stored C lv rv (fallbackCache p s) w = stored C lv rv p w \<union> stored C lv rv s w"
| "stored C lv rv (redisCache c) w = {(k, v). (namespaced c k, v) \<in> rv w}"
| "stored C lv rv (cacheWithCompression c) w = {(k, v). \<exists>e. (k, e) \<in> stored C lv rv c w \<and> snappy_Decode C e = Inr v}"

text \<open>Deployed caches contain Redis at most once.\<close>

fun redis_nodes :: "'l Cache \<Rightarrow> nat" where
  "redis_nodes (memoryCache l) = 0"
| "redis_nodes (fallbackCache p s) = redis_nodes p + redis_nodes s"
| "redis_nodes (redisCache c) = 1"
| "redis_nodes (cacheWithCompression c) = redis_nodes c"

lemma namespaced_inj: "namespaced c k = namespaced c k' \<longleftrightarrow> k = k'"
  by (auto simp: namespaced_def)

lemma stored_no_redis: "redis_nodes c = 0 \<Longrightarrow> stored C lv rv c w = stored C lv rv c w'"
  by (induction c) auto

lemma stored_mono: "rv w' \<subseteq> rv w \<Longrightarrow> stored C lv rv c w' \<subseteq> stored C lv rv c w"
  by (induction c) auto

context cache_libs
begin

lemma Get_stored:
  "Cache_Get C k c w = (c', w', r) \<Longrightarrow>
   redis_nodes c' = redis_nodes c \<and> redis_view w' \<subseteq> redis_view w \<and>
   stored C lru_view redis_view c' w' \<subseteq> stored C lru_view redis_view c w \<and>
   (\<forall>v. r = Inr v \<longrightarrow> v \<noteq> [] \<longrightarrow> (k, v) \<in> stored C lru_view redis_view c w)"
proof (induction c arbitrary: c' w w' r)
  case (memoryCache l)
  obtain l' ov where "lru_Get C k l = (l', ov)" by fastforce
  with memoryCache lru_Get_view [of k l l' ov] show ?case by (auto split: option.splits)
next
  case (fallbackCache p s)
  obtain p' w1 r1 where p: "Cache_Get C k p w = (p', w1, r1)" by (metis prod_cases3)
  note P = fallbackCache.IH(1) [OF p]
  show ?case
  proof (cases r1)
    case (Inl err)
    obtain s' w2 r2 where s: "Cache_Get C k s w1 = (s', w2, r2)" by (metis prod_cases3)
    note S = fallbackCache.IH(2) [OF s]
    have "stored C lru_view redis_view p' w2 \<subseteq> stored C lru_view redis_view p' w1"
      and "stored C lru_view redis_view s w1 \<subseteq> stored C lru_view redis_view s w"
      using P S by (auto intro!: stored_mono)
    moreover have "c' = fallbackCache p' s'" "w' = w2" "r = r2"
      using fallbackCache.prems p s Inl by simp_all
    ultimately show ?thesis using P S by simp blast
  next
    case (Inr v)
    have "stored C lru_view redis_view s w1 \<subseteq> stored C lru_view redis_view s w"
      using P by (auto intro!: stored_mono)
    moreover have "c' = fallbackCache p' s" "w' = w1" "r = r1"
      using fallbackCache.prems p Inr by simp_all
    ultimately show ?thesis using P by simp blast
  qed
next
  case (redisCache c)
  obtain w1 rep where "redis_Get C (namespaced c k) w = (w1, rep)" by fastforce
  with redisCache redis_Get_view [of "namespaced c k" w w1 rep] show ?case
    by (auto split: redis_reply.splits)
next
  case (cacheWithCompression c)
  obtain c1 w1 r1 where c: "Cache_Get C k c w = (c1, w1, r1)" by (metis prod_cases3)
  with cacheWithCompression.IH [OF c] cacheWithCompression.prems show ?case
    by (auto split: sum.splits if_splits) blast+
qed

lemma Put_nodes:
  "Cache_Put C k v c w = (c', w', e) \<Longrightarrow> redis_nodes c' = redis_nodes c \<and> (redis_nodes c = 0 \<longrightarrow> w' = w)"
proof (induction c arbitrary: c' v w w' e)
  case (fallbackCache p s)
  obtain p' w1 e1 where p: "Cache_Put C k v p w = (p', w1, e1)" by (metis prod_cases3)
  obtain s' w2 e2 where s: "Cache_Put C k v s w1 = (s', w2, e2)" by (metis prod_cases3)
  from fallbackCache.IH(1) [OF p] fallbackCache.IH(2) [OF s] fallbackCache.prems p s show ?case
    by (cases e1) auto
next
  case (cacheWithCompression c)
  obtain c1 w1 e1 where c: "Cache_Put C k (snappy_Encode C v) c w = (c1, w1, e1)" by (metis prod_cases3)
  from cacheWithCompression.IH [OF c] cacheWithCompression.prems c show ?case by auto
qed (auto split: prod.splits)

lemma Put_stored:
  "redis_nodes c \<le> 1 \<Longrightarrow> Cache_Put C k v c w = (c', w', e) \<Longrightarrow>
   stored C lru_view redis_view c' w' \<subseteq> insert (k, v) (stored C lru_view redis_view c w)"
proof (induction c arbitrary: c' v w w' e)
  case (memoryCache l)
  then show ?case using lru_Add_view [of k v l] by auto
next
  case (fallbackCache p s)
  obtain p' w1 e1 where p: "Cache_Put C k v p w = (p', w1, e1)" by (metis prod_cases3)
  have nodes: "redis_nodes p \<le> 1" "redis_nodes s \<le> 1" "redis_nodes p = 0 \<or> redis_nodes s = 0"
    using fallbackCache.prems(1) by auto
  note P = fallbackCache.IH(1) [OF nodes(1) p]
  have s_same: "stored C lru_view redis_view s w1 = stored C lru_view redis_view s w"
    using nodes(3) Put_nodes [OF p] stored_no_redis by metis
  show ?case
  proof (cases e1)
    case (Some err)
    obtain s' w2 e2 where s: "Cache_Put C k v s w1 = (s', w2, e2)" by (metis prod_cases3)
    note S = fallbackCache.IH(2) [OF nodes(2) s]
    have "stored C lru_view redis_view p' w2 = stored C lru_view redis_view p' w1"
      using nodes(3) Put_nodes [OF s] Put_nodes [OF p] stored_no_redis by metis
    moreover have "c' = fallbackCache p' s'" "w' = w2"
      using fallbackCache.prems p s Some by simp_all
    ultimately show ?thesis using P S s_same by simp blast
  next
    case None
    then have "c' = fallbackCache p' s" "w' = w1"
      using fallbackCache.prems p by simp_all
    then show ?thesis using P s_same by simp blast
  qed
next
  case (redisCache c)
  obtain w1 e1 where "redis_SetEx C (namespaced c k) v (rc_ttl c) w = (w1, e1)" by fastforce
  with redisCache redis_SetEx_view [of "namespaced c k" v "rc_ttl c" w w1 e1] show ?case
    by (auto simp: namespaced_inj)
next
  case (cacheWithCompression c)
  obtain c1 w1 e1 where c: "Cache_Put C k (snappy_Encode C v) c w = (c1, w1, e1)" by (metis prod_cases3)
  then have eq: "c' = cacheWithCompression c1" "w' = w1" and n: "redis_nodes c \<le> 1"
    using cacheWithCompression.prems by simp_all
  from cacheWithCompression.IH [OF n c] snappy_inverse [of v] show ?case
    unfolding eq by auto
qed

end

text \<open>A cache and the Redis servers together are the state of the contract.\<close>

definition cget :: "('l, 'w) cache_lib \<Rightarrow> string \<Rightarrow> 'l Cache \<times> 'w \<Rightarrow> ('l Cache \<times> 'w) \<times> (error + string)" where
  "cget C k s = (case Cache_Get C k (fst s) (snd s) of (c, w, r) \<Rightarrow> ((c, w), r))"

definition cput :: "('l, 'w) cache_lib \<Rightarrow> string \<Rightarrow> string \<Rightarrow> 'l Cache \<times> 'w \<Rightarrow> ('l Cache \<times> 'w) \<times> error option" where
  "cput C k v s = (case Cache_Put C k v (fst s) (snd s) of (c, w, e) \<Rightarrow> ((c, w), e))"

definition chold :: "('l, 'w) cache_lib \<Rightarrow> ('l \<Rightarrow> (string \<times> string) set) \<Rightarrow> ('w \<Rightarrow> (string \<times> string) set) \<Rightarrow>
    'l Cache \<times> 'w \<Rightarrow> (string \<times> string) set" where
  "chold C lv rv s = stored C lv rv (fst s) (snd s)"

sublocale cache_libs \<subseteq> kv: cache_contract "cget C" "cput C" "chold C lru_view redis_view" "\<lambda>s. redis_nodes (fst s) \<le> 1"
proof
  fix s s' :: "'l Cache \<times> 'w" and k v r e
  assume one: "redis_nodes (fst s) \<le> 1"
  show "cget C k s = (s', Inr v) \<Longrightarrow> v \<noteq> [] \<Longrightarrow> (k, v) \<in> chold C lru_view redis_view s"
    using Get_stored [of k "fst s" "snd s"] by (auto simp: cget_def chold_def split: prod.splits)
  show "cget C k s = (s', r) \<Longrightarrow> redis_nodes (fst s') \<le> 1 \<and> chold C lru_view redis_view s' \<subseteq> chold C lru_view redis_view s"
    using Get_stored [of k "fst s" "snd s"] one by (auto simp: cget_def chold_def split: prod.splits)
  show "cput C k v s = (s', e) \<Longrightarrow>
      redis_nodes (fst s') \<le> 1 \<and> chold C lru_view redis_view s' \<subseteq> insert (k, v) (chold C lru_view redis_view s)"
    using Put_stored [OF one, of k v "snd s"] Put_nodes [of k v "fst s" "snd s"] one
    by (auto simp: cput_def chold_def split: prod.splits)
qed

section \<open>Histories of the RPC cache\<close>

datatype rpc_op = GetOp RPCReq | PutOp RPCReq RPCRes

fun rpc_step :: "'a lib_scheme \<Rightarrow> ('l, 'w) cache_lib \<Rightarrow> rpc_op \<Rightarrow> 'l Cache \<times> 'w \<Rightarrow> 'l Cache \<times> 'w" where
  "rpc_step L C (GetOp req) s =
     (case GetRPC L C req (Some (fst s)) (snd s) of
        (Some c, w, _) \<Rightarrow> (c, w) | (None, w, _) \<Rightarrow> (fst s, w))"
| "rpc_step L C (PutOp req res) s =
     (case PutRPC L C req res (Some (fst s)) (snd s) of
        Done (Some c, w, _) \<Rightarrow> (c, w) | Done (None, w, _) \<Rightarrow> (fst s, w) | Panic _ \<Rightarrow> s)"

text \<open>What one RPC operation does to the underlying cache.\<close>

fun ops_of :: "'a lib_scheme \<Rightarrow> ('l, 'w) cache_lib \<Rightarrow> rpc_op \<Rightarrow> cache_op list" where
  "ops_of L C (GetOp req) = (case map_of (rpc_handlers L) (rq_Method req) of
       None \<Rightarrow> []
     | Some h \<Rightarrow> if filtered_out h req then [] else [OpGet (handler_key C req)])"
| "ops_of L C (PutOp req res) = (case map_of (rpc_handlers L) (rq_Method req) of
       None \<Rightarrow> []
     | Some h \<Rightarrow>
         if filtered_out h req \<or> filtered_put h req res then []
         else case marshal_result (hex_String L) (rs_Result res) of
             None \<Rightarrow> []
           | Some val \<Rightarrow> [OpPut (handler_key C req) val])"

lemma rpc_step_ops: "rpc_step L C op s = fold (op_step (cget C) (cput C)) (ops_of L C op) s"
  by (cases op) (auto simp: GetRPC_def PutRPC_def GetRPCMethod_def PutRPCMethod_def cget_def cput_def
      split: option.splits prod.splits sum.splits)

lemma rpc_run_ops: "fold (rpc_step L C) ops s = fold (op_step (cget C) (cput C)) (concat (map (ops_of L C) ops)) s"
  by (induction ops arbitrary: s) (simp_all add: rpc_step_ops)

lemma join_inj: "c \<notin> set b \<Longrightarrow> c \<notin> set b' \<Longrightarrow> b @ c # t = b' @ c # t' \<longleftrightarrow> b = b' \<and> t = t'"
proof (induction b arbitrary: b')
  case Nil
  then show ?case by (cases b') auto
next
  case (Cons x b)
  then show ?case by (cases b') auto
qed

lemma handler_no_colon: "map_of (rpc_handlers L) m = Some h \<Longrightarrow> CHR '':'' \<notin> set m"
  by (drule map_of_SomeD) (auto simp: rpc_handlers_def Let_def)

lemma handler_key_inj:
  assumes "map_of (rpc_handlers L) (rq_Method q) = Some h" and "map_of (rpc_handlers L) (rq_Method q') = Some h'"
    and "handler_key C q = handler_key C q'"
  shows "rq_Method q = rq_Method q' \<and> sha256_hex C (rq_Params q) = sha256_hex C (rq_Params q')"
  using assms(3) join_inj [OF handler_no_colon [OF assms(1)] handler_no_colon [OF assms(2)]]
  by (simp add: handler_key_def)

lemma GetRPC_hit:
  assumes "GetRPC L C req (Some c) w = (c', w', Inr (Some res))"
  obtains h val s' where "map_of (rpc_handlers L) (rq_Method req) = Some h"
    and "cget C (handler_key C req) (c, w) = (s', Inr val)" and "val \<noteq> []"
    and "any_field (fnum L) [val] None = Some (rs_Result res)" and "rs_ID res = rq_ID req"
    and "rs_JSONRPC res = rq_JSONRPC req" and "rs_Error res = None"
  using assms
  by (auto simp: GetRPC_def GetRPCMethod_def cget_def simp del: any_field.simps
      split: option.splits if_splits sum.splits prod.splits)

lemma ops_of_Put:
  "OpPut k v \<in> set (ops_of L C op) \<Longrightarrow> \<exists>req res h. op = PutOp req res \<and> k = handler_key C req \<and>
     map_of (rpc_handlers L) (rq_Method req) = Some h \<and> marshal_result (hex_String L) (rs_Result res) = Some v"
  by (cases op) (auto split: option.splits if_splits dest: sym)

context cache_libs
begin

lemma GetRPC_was_put:
  assumes "redis_nodes c \<le> 1" and "stored C lru_view redis_view c w = {}"
    and "fold (rpc_step L C) ops (c, w) = (c1, w1)" and "GetRPC L C req (Some c1) w1 = (c2, w2, Inr (Some res))"
  shows "\<exists>req0 res0 val. PutOp req0 res0 \<in> set ops \<and> rq_Method req0 = rq_Method req \<and>
    sha256_hex C (rq_Params req0) = sha256_hex C (rq_Params req) \<and>
    marshal_result (hex_String L) (rs_Result res0) = Some val \<and>
    any_field (fnum L) [val] None = Some (rs_Result res)"
proof -
  from GetRPC_hit [OF assms(4)] obtain h val s' where h: "map_of (rpc_handlers L) (rq_Method req) = Some h"
    and get: "cget C (handler_key C req) (c1, w1) = (s', Inr val)" "val \<noteq> []"
    and res: "any_field (fnum L) [val] None = Some (rs_Result res)" by metis
  have "OpPut (handler_key C req) val \<in> set (concat (map (ops_of L C) ops))"
    by (rule kv.get_was_put [of "(c, w)" _ _ s'])
      (use assms get rpc_run_ops [of L C ops "(c, w)"] in \<open>simp_all add: chold_def\<close>)
  then obtain op where "op \<in> set ops" "OpPut (handler_key C req) val \<in> set (ops_of L C op)" by auto
  with ops_of_Put [OF this(2)] h res handler_key_inj show ?thesis by metis
qed

end

section \<open>An instance of the libraries\<close>

definition alist_cache_lib :: "((string \<times> string) list, (string \<times> string) list) cache_lib" where
  "alist_cache_lib = \<lparr>lru_Get = (\<lambda>k l. (l, map_of l k)), lru_Add = (\<lambda>k v l. take 4096 ((k, v) # l)),
     redis_Get = (\<lambda>k w. (w, case map_of w k of None \<Rightarrow> RedisNil | Some v \<Rightarrow> RedisVal v)),
     redis_SetEx = (\<lambda>k v t w. ((k, v) # w, None)),
     snappy_Encode = (\<lambda>v. CHR 0x00 # v),
     snappy_Decode = (\<lambda>e. case e of [] \<Rightarrow> Inl (Errorf ''snappy: corrupt input'') | _ # v \<Rightarrow> Inr v),
     sha256_hex = (\<lambda>b. b)\<rparr>"

interpretation acl: cache_libs alist_cache_lib set set
  by unfold_locales
    (auto simp: alist_cache_lib_def dest: map_of_SomeD in_set_takeD split: option.splits)

section \<open>Properties\<close>

definition demo_chainId :: "bytes \<Rightarrow> RPCReq" where
  "demo_chainId i = \<lparr>rq_JSONRPC = ''2.0'', rq_Method = ''eth_chainId'', rq_Params = ''[]'', rq_ID = i\<rparr>"

definition demo_cache :: "(string \<times> string) list Cache" where
  "demo_cache = cacheWithCompression (fallbackCache (redisCache \<lparr>rc_prefix = ''p'', rc_ttl = Hour\<rparr>) (memoryCache []))"

text \<open>
  C11: the response cache answers only with what was cached for the same call. Over any history of
  reads and writes through compression, Redis, the memory cache and the fallback between them, with
  any evictions, expiries and Redis errors: a response read for a request carries the request's id
  and the result of a response that was stored earlier for the same method and for parameters with
  the same hash.
\<close>

theorem cached_response_was_stored:
  assumes "eth_lib L" and "cache_libs C lv rv" and "redis_nodes c \<le> 1" and "stored C lv rv c w = {}"
    and "fold (rpc_step L C) ops (c, w) = (c1, w1)"
    and "GetRPC L C req (Some c1) w1 = (c2, w2, Inr (Some res))"
  shows "rs_ID res = rq_ID req \<and> rs_Error res = None \<and>
    (\<exists>req0 res0. PutOp req0 res0 \<in> set ops \<and> rq_Method req0 = rq_Method req \<and>
       sha256_hex C (rq_Params req0) = sha256_hex C (rq_Params req) \<and>
       (\<forall>u v. rs_Result res0 = Some (ResJSON v) \<longrightarrow> any_of (fnum L) u = Some v \<longrightarrow> v \<noteq> JNull \<longrightarrow>
          rs_Result res = rs_Result res0))"
proof -
  from cache_libs.GetRPC_was_put [OF assms(2-6)] obtain req0 res0 val where
    put: "PutOp req0 res0 \<in> set ops" "rq_Method req0 = rq_Method req"
      "sha256_hex C (rq_Params req0) = sha256_hex C (rq_Params req)"
    and val: "marshal_result (hex_String L) (rs_Result res0) = Some val"
      "any_field (fnum L) [val] None = Some (rs_Result res)" by blast
  have "rs_Result res = rs_Result res0"
    if v: "rs_Result res0 = Some (ResJSON v)" "any_of (fnum L) u = Some v" "v \<noteq> JNull" for u v
  proof -
    have "Option.bind (json_parse val) (any_of (fnum L)) = Some v"
      using float_text.json_roundtrip [OF eth_lib.axioms(1) [OF assms(1)] v(2)] val(1) v(1) by simp
    with val(2) v show ?thesis by (cases v) simp_all
  qed
  with put GetRPC_hit [OF assms(6)] show ?thesis by blast
qed

lemma cached_response_was_stored_witness:
  "\<exists>c1 w1 c2 w2 res. fold (rpc_step geth alist_cache_lib)
      [PutOp (demo_chainId ''1'') (NewRPCRes ''1'' (Some (ResJSON (JString ''0xa''))))] (demo_cache, []) = (c1, w1) \<and>
    GetRPC geth alist_cache_lib (demo_chainId ''7'') (Some c1) w1 = (c2, w2, Inr (Some res)) \<and>
    rs_ID res = ''7'' \<and> rs_Result res = Some (ResJSON (JString ''0xa''))"
proof -
  let ?c = demo_cache and ?put = "demo_chainId ''1''" and ?q = "demo_chainId ''7''"
  let ?stored = "NewRPCRes ''1'' (Some (ResJSON (JString ''0xa'')))"
  let ?key = "''p:cache:eth_chainId:[]''"
  let ?w = "[(?key, CHR 0x00 # enc_string ''0xa'')]"
  let ?res = "\<lparr>rs_JSONRPC = ''2.0'', rs_Result = Some (ResJSON (JString ''0xa'')), rs_Error = None, rs_ID = ''7''\<rparr>"
  have run: "fold (rpc_step geth alist_cache_lib) [PutOp ?put ?stored] (?c, []) = (?c, ?w)"
    by (simp add: PutRPC_def PutRPCMethod_def rpc_handlers_def Let_def filtered_out_def filtered_put_def NewRPCRes_def
        alist_cache_lib_def handler_key_def namespaced_def demo_cache_def demo_chainId_def)
  have hit: "GetRPC geth alist_cache_lib ?q (Some ?c) ?w = (Some ?c, ?w, Inr (Some ?res))"
    by (simp add: GetRPC_def GetRPCMethod_def rpc_handlers_def Let_def filtered_out_def
        alist_cache_lib_def handler_key_def namespaced_def demo_cache_def demo_chainId_def json_text_parse [OF json_text_string])
      (simp add: enc_string_def)
  have empty: "stored alist_cache_lib set set ?c [] = {}" "redis_nodes ?c \<le> 1" by (simp_all add: demo_cache_def)
  from cached_response_was_stored [OF gl.eth_lib_axioms acl.cache_libs_axioms empty(2,1) run hit]
  have "rs_ID ?res = ''7''" unfolding demo_chainId_def by simp
  with run hit show ?thesis
    by (intro exI conjI) (assumption, assumption, assumption, simp)
qed



end
