(* ===== verification/Backend.thy ===== *)
theory Backend
  imports Sliding_Window Eth_Lib IO_Util "HOL-Library.Multiset"
begin

text \<open>
  One upstream node (\<open>Backend\<close> of \<open>proxyd/backend.go\<close>): its options, its health from three sliding
  windows, and forwarding of requests over HTTP with retries.

  The surroundings are the record \<open>E\<close>: the libraries, the map under the sliding windows, and the
  network, whose state \<open>h\<close> also carries the clock. A pointer receiver is passed and returned;
  \<open>doForward\<close> also modifies the requests it is given, so they are returned too. A nil response
  pointer is \<open>None\<close>. Logging and metrics are left out, except that the error rate computed for a
  metric evicts expired buckets.
\<close>

section \<open>Surroundings\<close>

record http_request =
  hq_URL :: string
  hq_Body :: bytes
  hq_Header :: "(string \<times> string) list"
  hq_Timeout :: duration

record http_response =
  hp_StatusCode :: int
  hp_Body :: reader

text \<open>
  \<open>http_Do\<close> is \<open>http.Client.Do\<close>, \<open>sem_Acquire\<close> and
  \<open>sem_Release\<close> the request semaphore, \<open>newRequest_err\<close> tells which
  URLs \<open>http.NewRequest\<close> rejects, \<open>sleep\<close> waits, and \<open>rand_Int63n\<close> draws a number below its argument.
\<close>

record ('m, 'h) env = lib +
  lhm :: "'m lhm"
  net_clock :: "'h \<Rightarrow> time"
  sem_Acquire :: "'h \<Rightarrow> 'h \<times> error option"
  sem_Release :: "'h \<Rightarrow> 'h"
  http_Do :: "http_request \<Rightarrow> 'h \<Rightarrow> 'h \<times> (error + http_response)"
  newRequest_err :: "string \<Rightarrow> error option"
  sleep :: "duration \<Rightarrow> 'h \<Rightarrow> 'h"
  rand_Int63n :: "int \<Rightarrow> 'h \<Rightarrow> 'h \<times> int"

text \<open>The values a request context carries.\<close>

record req_ctx =
  cx_Auth :: string
  cx_ReqID :: string
  cx_XForwardedFor :: string
  cx_OpTxProxyAuth :: string

section \<open>The backend and its options\<close>

text \<open>A TLS configuration: the PEM text of the accepted roots and the certificates with their keys.\<close>

record tls_config =
  RootCAs :: bytes
  Certificates :: "(bytes \<times> bytes) list"

record 'm Backend =
  Name :: string
  rpcURL :: string
  receiptsTarget :: string
  wsURL :: string
  authUsername :: string
  authPassword :: string
  headers :: "(string \<times> string) list"
  client_Timeout :: duration
  client_TLS :: "tls_config option"
  maxRetries :: int
  maxResponseSize :: int
  maxRPS :: int
  maxWSConns :: int
  outOfServiceInterval :: duration
  stripTrailingXFF :: bool
  proxydIP :: string
  skipPeerCountCheck :: bool
  forcedCandidate :: bool
  maxDegradedLatencyThreshold :: duration
  maxLatencyThreshold :: duration
  maxErrorRateThreshold :: rat
  latencySlidingWindow :: "'m AvgSlidingWindow"
  networkRequestsSlidingWindow :: "'m AvgSlidingWindow"
  intermittentErrorsSlidingWindow :: "'m AvgSlidingWindow"
  weight :: int

type_synonym 'm BackendOpt = "'m Backend \<Rightarrow> 'm Backend"

definition WithBasicAuth :: "string \<Rightarrow> string \<Rightarrow> 'm BackendOpt" where
  "WithBasicAuth username password b = b\<lparr>authUsername := username, authPassword := password\<rparr>"

definition WithHeaders :: "(string \<times> string) list \<Rightarrow> 'm BackendOpt" where
  "WithHeaders hs b = b\<lparr>headers := hs\<rparr>"

definition WithTimeout :: "duration \<Rightarrow> 'm BackendOpt" where
  "WithTimeout timeout b = b\<lparr>client_Timeout := timeout\<rparr>"

definition WithMaxRetries :: "int \<Rightarrow> 'm BackendOpt" where
  "WithMaxRetries retries b = b\<lparr>maxRetries := retries\<rparr>"

definition WithMaxResponseSize :: "int \<Rightarrow> 'm BackendOpt" where
  "WithMaxResponseSize n b = b\<lparr>maxResponseSize := n\<rparr>"

definition WithOutOfServiceDuration :: "duration \<Rightarrow> 'm BackendOpt" where
  "WithOutOfServiceDuration interval b = b\<lparr>outOfServiceInterval := interval\<rparr>"

definition WithMaxRPS :: "int \<Rightarrow> 'm BackendOpt" where
  "WithMaxRPS n b = b\<lparr>maxRPS := n\<rparr>"

definition WithMaxWSConns :: "int \<Rightarrow> 'm BackendOpt" where
  "WithMaxWSConns maxConns b = b\<lparr>maxWSConns := maxConns\<rparr>"

definition WithTLSConfig :: "tls_config \<Rightarrow> 'm BackendOpt" where
  "WithTLSConfig tlsConfig b = b\<lparr>client_TLS := Some tlsConfig\<rparr>"

definition WithStrippedTrailingXFF :: "'m BackendOpt" where
  "WithStrippedTrailingXFF b = b\<lparr>stripTrailingXFF := True\<rparr>"

definition WithProxydIP :: "string \<Rightarrow> 'm BackendOpt" where
  "WithProxydIP ip b = b\<lparr>proxydIP := ip\<rparr>"

definition WithConsensusSkipPeerCountCheck :: "bool \<Rightarrow> 'm BackendOpt" where
  "WithConsensusSkipPeerCountCheck skip b = b\<lparr>skipPeerCountCheck := skip\<rparr>"

definition WithConsensusForcedCandidate :: "bool \<Rightarrow> 'm BackendOpt" where
  "WithConsensusForcedCandidate forced b = b\<lparr>forcedCandidate := forced\<rparr>"

definition WithWeight :: "int \<Rightarrow> 'm BackendOpt" where
  "WithWeight n b = b\<lparr>weight := n\<rparr>"

definition WithMaxDegradedLatencyThreshold :: "duration \<Rightarrow> 'm BackendOpt" where
  "WithMaxDegradedLatencyThreshold d b = b\<lparr>maxDegradedLatencyThreshold := d\<rparr>"

definition WithMaxLatencyThreshold :: "duration \<Rightarrow> 'm BackendOpt" where
  "WithMaxLatencyThreshold d b = b\<lparr>maxLatencyThreshold := d\<rparr>"

definition WithMaxErrorRateThreshold :: "rat \<Rightarrow> 'm BackendOpt" where
  "WithMaxErrorRateThreshold r b = b\<lparr>maxErrorRateThreshold := r\<rparr>"

definition WithConsensusReceiptTarget :: "string \<Rightarrow> 'm BackendOpt" where
  "WithConsensusReceiptTarget target b = b\<lparr>receiptsTarget := target\<rparr>"

definition WithIntermittentNetworkErrorSlidingWindow :: "'m AvgSlidingWindow \<Rightarrow> 'm BackendOpt" where
  "WithIntermittentNetworkErrorSlidingWindow sw b = b\<lparr>intermittentErrorsSlidingWindow := sw\<rparr>"

definition Override :: "'m BackendOpt list \<Rightarrow> 'm Backend \<Rightarrow> 'm Backend" where
  "Override opts b = fold (\<lambda>opt b. opt b) opts b"

definition NewBackend :: "('m, 'h) env \<Rightarrow> string \<Rightarrow> string \<Rightarrow> string \<Rightarrow> 'm BackendOpt list \<Rightarrow> 'm Backend" where
  "NewBackend E name rpc ws opts =
     Override opts
       \<lparr>Name = name, rpcURL = rpc, receiptsTarget = [], wsURL = ws, authUsername = [], authPassword = [],
        headers = [], client_Timeout = 5 * Second, client_TLS = None, maxRetries = 0,
        maxResponseSize = 2 ^ 63 - 1, maxRPS = 0, maxWSConns = 0, outOfServiceInterval = 0,
        stripTrailingXFF = False, proxydIP = [], skipPeerCountCheck = False, forcedCandidate = False,
        maxDegradedLatencyThreshold = 5 * Second, maxLatencyThreshold = 10 * Second,
        maxErrorRateThreshold = 1 / 2,
        latencySlidingWindow = NewSlidingWindow (lhm E) [],
        networkRequestsSlidingWindow = NewSlidingWindow (lhm E) [],
        intermittentErrorsSlidingWindow = NewSlidingWindow (lhm E) [], weight = 0\<rparr>"

section \<open>Health\<close>

text \<open>Conversion of a \<open>float64\<close> to \<open>time.Duration\<close> truncates.\<close>

definition to_duration :: "rat \<Rightarrow> duration" where
  "to_duration r = (if 0 \<le> r then \<lfloor>r\<rfloor> else \<lceil>r\<rceil>)"

definition ErrorRate :: "('m, 'h) env \<Rightarrow> 'h \<Rightarrow> 'm Backend \<Rightarrow> 'm Backend \<times> rat" where
  "ErrorRate E h b =
     (let now = net_clock E h;
          (nw, reqs) = sw_Sum (lhm E) now (networkRequestsSlidingWindow b);
          b = b\<lparr>networkRequestsSlidingWindow := nw\<rparr>
      in if reqs \<ge> 10 then
           (let (ew, errs) = sw_Sum (lhm E) now (intermittentErrorsSlidingWindow b);
                b = b\<lparr>intermittentErrorsSlidingWindow := ew\<rparr>;
                (nw, reqs) = sw_Sum (lhm E) now (networkRequestsSlidingWindow b)
            in (b\<lparr>networkRequestsSlidingWindow := nw\<rparr>, errs / reqs))
         else (b, 0))"

definition avg_latency :: "('m, 'h) env \<Rightarrow> 'h \<Rightarrow> 'm Backend \<Rightarrow> 'm Backend \<times> duration" where
  "avg_latency E h b =
     (let (lw, avg) = sw_Avg (lhm E) (net_clock E h) (latencySlidingWindow b)
      in (b\<lparr>latencySlidingWindow := lw\<rparr>, to_duration avg))"

definition IsHealthy :: "('m, 'h) env \<Rightarrow> 'h \<Rightarrow> 'm Backend \<Rightarrow> 'm Backend \<times> bool" where
  "IsHealthy E h b =
     (let (b, errorRate) = ErrorRate E h b;
          (b, avgLatency) = avg_latency E h b
      in (b, if errorRate \<ge> maxErrorRateThreshold b then False
             else if avgLatency \<ge> maxLatencyThreshold b then False
             else True))"

definition IsDegraded :: "('m, 'h) env \<Rightarrow> 'h \<Rightarrow> 'm Backend \<Rightarrow> 'm Backend \<times> bool" where
  "IsDegraded E h b =
     (let (b, avgLatency) = avg_latency E h b
      in (b, avgLatency \<ge> maxDegradedLatencyThreshold b))"

definition ClearSlidingWindows :: "'m Backend \<Rightarrow> 'm Backend" where
  "ClearSlidingWindows b = b\<lparr>intermittentErrorsSlidingWindow := sw_Clear (intermittentErrorsSlidingWindow b),
     networkRequestsSlidingWindow := sw_Clear (networkRequestsSlidingWindow b)\<rparr>"

section \<open>Forwarding\<close>

definition proxydHealthzMethod :: string where "proxydHealthzMethod = ''proxyd_healthz''"
definition ConsensusGetReceiptsMethod :: string where "ConsensusGetReceiptsMethod = ''consensus_getReceipts''"
definition ReceiptsTargetDebugGetRawReceipts :: string where
  "ReceiptsTargetDebugGetRawReceipts = ''debug_getRawReceipts''"
definition ReceiptsTargetAlchemyGetTransactionReceipts :: string where
  "ReceiptsTargetAlchemyGetTransactionReceipts = ''alchemy_getTransactionReceipts''"
definition ReceiptsTargetParityGetTransactionReceipts :: string where
  "ReceiptsTargetParityGetTransactionReceipts = ''parity_getBlockReceipts''"
definition ReceiptsTargetEthGetTransactionReceipts :: string where
  "ReceiptsTargetEthGetTransactionReceipts = ''eth_getBlockReceipts''"

definition DefaultOpTxProxyAuthHeader :: string where
  "DefaultOpTxProxyAuthHeader = ''X-Optimism-Signature''"

abbreviation (input) nil_deref :: "'a outcome" where
  "nil_deref \<equiv> Panic ''invalid memory address or nil pointer dereference''"

abbreviation (input) out_of_range :: "'a outcome" where
  "out_of_range \<equiv> Panic ''index out of range''"

definition must :: "'a option \<Rightarrow> 'a outcome" where
  "must r = (case r of None \<Rightarrow> Panic ''json: error calling MarshalJSON'' | Some x \<Rightarrow> Done x)"

text \<open>The parameter of \<open>alchemy_getTransactionReceipts\<close>, a pointer each.\<close>

record BlockHashOrNumberParameter =
  bhn_BlockHash :: "string option"
  bhn_BlockNumber :: "int option"

definition marshal_bhn :: "'a lib_scheme \<Rightarrow> BlockHashOrNumberParameter \<Rightarrow> bytes" where
  "marshal_bhn L p = enc_fields
     [(''blockHash'', case bhn_BlockHash p of None \<Rightarrow> ''null'' | Some h \<Rightarrow> enc_string (hash_Hex L h)),
      (''blockNumber'', case bhn_BlockNumber p of None \<Rightarrow> ''null'' | Some n \<Rightarrow> enc_string (bn_String L n))]"

text \<open>The receipts call of one request: its method becomes the target of the backend before the
  parameters are looked at.\<close>

definition translated_params :: "'a lib_scheme \<Rightarrow> string \<Rightarrow> BlockNumberOrHash list \<Rightarrow> (error + bytes) outcome" where
  "translated_params L target reqParams =
     (if target = ReceiptsTargetDebugGetRawReceipts \<or> target = ReceiptsTargetEthGetTransactionReceipts \<or>
         target = ReceiptsTargetParityGetTransactionReceipts then
        (case reqParams of
           [] \<Rightarrow> out_of_range
         | p # _ \<Rightarrow>
             (case BlockNumber p of
                Some n \<Rightarrow> Done (Inr (json_encode (JArray [JString (bn_String L n)])))
              | None \<Rightarrow>
                  (case BlockHash p of
                     Some h \<Rightarrow> Done (Inr (json_encode (JArray [JString (hash_Hex L h)])))
                   | None \<Rightarrow> nil_deref)))
      else if target = ReceiptsTargetAlchemyGetTransactionReceipts then
        (case reqParams of
           [] \<Rightarrow> out_of_range
         | p # _ \<Rightarrow>
             Done (Inr (''['' @ marshal_bhn L
               (case BlockNumber p of
                  Some n \<Rightarrow> \<lparr>bhn_BlockHash = None, bhn_BlockNumber = Some n\<rparr>
                | None \<Rightarrow> \<lparr>bhn_BlockHash = BlockHash p, bhn_BlockNumber = None\<rparr>) @ '']'')))
      else Done (Inl (Std ErrConsensusGetReceiptsInvalidTarget)))"

definition translate_req :: "'a lib_scheme \<Rightarrow> string \<Rightarrow> RPCReq \<Rightarrow> (RPCReq \<times> error option) outcome" where
  "translate_req L target req =
     (let req = req\<lparr>rq_Method := target\<rparr>
      in case Unmarshal_bnhs L (rq_Params req) of
           None \<Rightarrow> Done (req, Some (RPCE (ErrInvalidRequest ''invalid request'')))
         | Some reqParams \<Rightarrow>
             obind (translated_params L target reqParams) (\<lambda>r. case r of
               Inl err \<Rightarrow> Done (req, Some err)
             | Inr params \<Rightarrow> Done (req\<lparr>rq_Params := params\<rparr>, None)))"

text \<open>All requests, up to the first error; the second result lists the IDs of the translated ones.\<close>

fun translate_reqs :: "'a lib_scheme \<Rightarrow> string \<Rightarrow> RPCReq list \<Rightarrow> (RPCReq list \<times> bytes list \<times> error option) outcome" where
  "translate_reqs L target [] = Done ([], [], None)"
| "translate_reqs L target (req # reqs) =
     (if rq_Method req = ConsensusGetReceiptsMethod then
        obind (translate_req L target req) (\<lambda>(req', err).
          if err \<noteq> None then Done (req' # reqs, [rq_ID req], err)
          else obind (translate_reqs L target reqs) (\<lambda>(reqs', ids, err).
                 Done (req' # reqs', rq_ID req # ids, err)))
      else obind (translate_reqs L target reqs) (\<lambda>(reqs', ids, err). Done (req # reqs', ids, err)))"

definition translate :: "'a lib_scheme \<Rightarrow> string \<Rightarrow> bool \<Rightarrow> RPCReq list \<Rightarrow> (RPCReq list \<times> bytes list \<times> error option) outcome" where
  "translate L target isBatch rpcReqs =
     (if isBatch then
        Done (rpcReqs, [],
          if list_ex (\<lambda>r. rq_Method r = ConsensusGetReceiptsMethod) rpcReqs
          then Some (Std ErrConsensusGetReceiptsCantBeBatched) else None)
      else translate_reqs L target rpcReqs)"

text \<open>Single element batches are unwrapped.\<close>

definition request_body :: "RPCReq list \<Rightarrow> bytes outcome" where
  "request_body rpcReqs =
     (case rpcReqs of
        [req] \<Rightarrow> must (marshal_RPCReq req)
      | _ \<Rightarrow> must (map_option (\<lambda>ts. ''['' @ strings_Join ts '','' @ '']'') (sequence (map marshal_RPCReq rpcReqs))))"

definition stripXFF :: "string \<Rightarrow> string" where
  "stripXFF xff = strings_TrimSpace (hd (strings_Split xff CHR '',''))"

definition forwarded_for :: "'m Backend \<Rightarrow> req_ctx \<Rightarrow> string" where
  "forwarded_for b ctx =
     (let xForwardedFor = cx_XForwardedFor ctx
      in if stripTrailingXFF b then stripXFF xForwardedFor
         else if proxydIP b \<noteq> [] then xForwardedFor @ '', '' @ proxydIP b
         else xForwardedFor)"

text \<open>Header names are compared in canonical form; \<open>Header.Set\<close> replaces.\<close>

definition header_Set :: "string \<Rightarrow> string \<Rightarrow> (string \<times> string) list \<Rightarrow> (string \<times> string) list" where
  "header_Set name v hs = filter (\<lambda>(n, _). map to_lower n \<noteq> map to_lower name) hs @ [(name, v)]"

text \<open>\<open>Request.SetBasicAuth\<close>, with the standard base64 encoding.\<close>

definition b64 :: "nat \<Rightarrow> char" where
  "b64 n = (''ABCDEFGHIJKLMNOPQRSTUVWXYZabcdefghijklmnopqrstuvwxyz0123456789+/'') ! (n mod 64)"

fun base64 :: "bytes \<Rightarrow> string" where
  "base64 [] = []"
| "base64 [a] = (let n = of_char a * 65536 in [b64 (n div 262144), b64 (n div 4096), CHR ''='', CHR ''=''])"
| "base64 [a, b] = (let n = of_char a * 65536 + of_char b * 256
     in [b64 (n div 262144), b64 (n div 4096), b64 (n div 64), CHR ''=''])"
| "base64 (a # b # c # s) = (let n = of_char a * 65536 + of_char b * 256 + of_char c
     in [b64 (n div 262144), b64 (n div 4096), b64 (n div 64), b64 n] @ base64 s)"

definition basicAuth :: "string \<Rightarrow> string \<Rightarrow> string" where
  "basicAuth username password = ''Basic '' @ base64 (username @ '':'' @ password)"

definition build_request :: "'m Backend \<Rightarrow> req_ctx \<Rightarrow> bytes \<Rightarrow> http_request" where
  "build_request b ctx body =
     (let hs = (if authPassword b \<noteq> [] then header_Set ''Authorization'' (basicAuth (authUsername b) (authPassword b)) [] else []);
          hs = (if cx_OpTxProxyAuth ctx \<noteq> [] then header_Set DefaultOpTxProxyAuthHeader (cx_OpTxProxyAuth ctx) hs else hs);
          hs = header_Set ''content-type'' ''application/json'' hs;
          hs = header_Set ''X-Forwarded-For'' (forwarded_for b ctx) hs;
          hs = fold (\<lambda>(name, v). header_Set name v) (headers b) hs
      in \<lparr>hq_URL = rpcURL b, hq_Body = body, hq_Header = hs, hq_Timeout = client_Timeout b\<rparr>)"

definition DoLimited :: "('m, 'h) env \<Rightarrow> http_request \<Rightarrow> 'h \<Rightarrow> 'h \<times> (error + http_response)" where
  "DoLimited E req h =
     (case sem_Acquire E h of
        (h, Some err) \<Rightarrow> (h, Inl (wrapErr (Some err) ''too many requests''))
      | (h, None) \<Rightarrow> (let (h, r) = http_Do E req h in (sem_Release E h, r)))"


definition responseIsNotBatched :: "'a lib_scheme \<Rightarrow> bytes \<Rightarrow> bool" where
  "responseIsNotBatched L b = (Unmarshal_RPCRes (fnum L) b \<noteq> None)"

definition duplicate_ids :: "string" where
  "duplicate_ids = ''bug! detected requests with duplicate IDs''"

text \<open>The position of an ID among the requests; the zero value for an ID that is not there.\<close>

fun id_pos :: "RPCReq list \<Rightarrow> bytes \<Rightarrow> nat" where
  "id_pos [] i = 0"
| "id_pos (r # req) i =
     (if rq_ID r = i then 0 else if i \<in> rq_ID ` set req then Suc (id_pos req i) else 0)"

text \<open>\<open>sort.Slice\<close> with the positions as keys. The order it gives elements with equal keys, which
  only responses with unknown or repeated IDs have, is not specified; here it is their old order.\<close>

definition sortBatchRPCResponse :: "RPCReq list \<Rightarrow> RPCRes option list \<Rightarrow> RPCRes option list outcome" where
  "sortBatchRPCResponse req res =
     (if \<not> distinct (map rq_ID req) then Panic duplicate_ids
      else if None \<in> set res \<and> 2 \<le> length res then nil_deref
      else Done (sort_key (\<lambda>r. id_pos req (rs_ID (the r))) res))"

text \<open>A failed request counts, and the error rate is computed for its metric.\<close>

definition network_error :: "('m, 'h) env \<Rightarrow> 'h \<Rightarrow> 'm Backend \<Rightarrow> 'm Backend" where
  "network_error E h b = fst (ErrorRate E h
     (b\<lparr>intermittentErrorsSlidingWindow := sw_Incr (lhm E) (net_clock E h) (intermittentErrorsSlidingWindow b)\<rparr>))"

definition network_request :: "('m, 'h) env \<Rightarrow> 'h \<Rightarrow> 'm Backend \<Rightarrow> 'm Backend" where
  "network_request E h b = b\<lparr>networkRequestsSlidingWindow :=
     sw_Incr (lhm E) (net_clock E h) (networkRequestsSlidingWindow b)\<rparr>"

definition record_latency :: "('m, 'h) env \<Rightarrow> 'h \<Rightarrow> duration \<Rightarrow> 'm Backend \<Rightarrow> 'm Backend" where
  "record_latency E h d b =
     (let b = b\<lparr>latencySlidingWindow := sw_Add (lhm E) (net_clock E h) (of_int d) (latencySlidingWindow b)\<rparr>
      in fst (ErrorRate E h (fst (avg_latency E h b))))"

text \<open>The decoded responses, or an error and whether it counts against the backend.\<close>

definition decode_responses :: "'a lib_scheme \<Rightarrow> nat \<Rightarrow> bytes \<Rightarrow> (error \<times> bool) + RPCRes option list" where
  "decode_responses L n resB =
     (let decoded =
        (if n = 1 then
           (case Unmarshal_RPCRes (fnum L) resB of
              None \<Rightarrow> Inl (RPCE (Global ErrBackendBadResponse), False)
            | Some singleRes \<Rightarrow> Inr [Some singleRes])
         else
           (case Unmarshal_RPCRess (fnum L) resB of
              None \<Rightarrow>
                (if responseIsNotBatched L resB then Inl (Std ErrBackendUnexpectedJSONRPC, True)
                 else Inl (RPCE (Global ErrBackendBadResponse), True))
            | Some rpcRes \<Rightarrow> Inr rpcRes))
      in case decoded of
           Inl e \<Rightarrow> Inl e
         | Inr rpcRes \<Rightarrow>
             if n \<noteq> length rpcRes then Inl (Std ErrBackendUnexpectedJSONRPC, True) else Inr rpcRes)"

text \<open>The status code goes into every error; a response without an error has a nil pointer there.
  The errors were decoded from the body, so they are not the global ones.\<close>

fun set_status :: "int \<Rightarrow> RPCRes option list \<Rightarrow> RPCRes option list outcome" where
  "set_status code [] = Done []"
| "set_status code (Some r # res) =
     (case rs_Error r of
        Some (Fresh e) \<Rightarrow> obind (set_status code res)
          (\<lambda>res'. Done (Some (r\<lparr>rs_Error := Some (Fresh (e\<lparr>HTTPErrorCode := code\<rparr>))\<rparr>) # res'))
      | _ \<Rightarrow> nil_deref)"
| "set_status code (None # res) = nil_deref"

text \<open>The results of translated requests are wrapped with the method that served them.\<close>

fun enrich :: "bytes list \<Rightarrow> string \<Rightarrow> RPCRes option list \<Rightarrow> RPCRes option list outcome" where
  "enrich ids target [] = Done []"
| "enrich ids target (Some r # res) =
     obind (enrich ids target res) (\<lambda>res'. Done (Some
       (if rs_ID r \<in> set ids
        then r\<lparr>rs_Result := Some (ConsensusGetReceiptsResult target (rs_Result r))\<rparr> else r) # res'))"
| "enrich ids target (None # res) = nil_deref"

text \<open>What happens to a response with status 200 or 400, \<open>d\<close> after the request was sent.\<close>

definition handle_body ::
  "('m, 'h) env \<Rightarrow> 'm Backend \<Rightarrow> RPCReq list \<Rightarrow> bytes list \<Rightarrow> http_response \<Rightarrow> duration \<Rightarrow> 'h
    \<Rightarrow> ('m Backend \<times> (error + RPCRes option list)) outcome" where
  "handle_body E b rpcReqs ids httpRes d h =
     (let (resB, err) = read_limited (hp_Body httpRes) (maxResponseSize b)
      in if errors_Is err (Std ErrLimitReaderOverLimit) then
           Done (b, Inl (RPCE (Global ErrBackendResponseTooLarge)))
         else if err \<noteq> None then
           Done (network_error E h b, Inl (wrapErr err ''error reading response body''))
         else
           (case decode_responses E (length rpcReqs) resB of
              Inl (err, counts) \<Rightarrow> Done (if counts then network_error E h b else b, Inl err)
            | Inr rpcRes \<Rightarrow>
                obind (if hp_StatusCode httpRes \<noteq> 200 then set_status (hp_StatusCode httpRes) rpcRes
                       else Done rpcRes) (\<lambda>rpcRes.
                (let b = record_latency E h d b
                 in obind (enrich ids (receiptsTarget b) rpcRes) (\<lambda>rpcRes.
                    obind (sortBatchRPCResponse rpcReqs rpcRes) (\<lambda>rpcRes.
                    Done (b, Inr rpcRes)))))))"

definition doForward ::
  "('m, 'h) env \<Rightarrow> req_ctx \<Rightarrow> 'm Backend \<Rightarrow> RPCReq list \<Rightarrow> bool \<Rightarrow> 'h
    \<Rightarrow> ('m Backend \<times> RPCReq list \<times> 'h \<times> (error + RPCRes option list)) outcome" where
  "doForward E ctx b rpcReqs isBatch h =
     (let b = network_request E h b
      in obind (translate E (receiptsTarget b) isBatch rpcReqs) (\<lambda>(rpcReqs, ids, err).
         if err \<noteq> None then Done (b, rpcReqs, h, Inl (the err))
         else obind (request_body rpcReqs) (\<lambda>body.
           case newRequest_err E (rpcURL b) of
             Some err \<Rightarrow>
               Done (network_error E h b, rpcReqs, h, Inl (wrapErr (Some err) ''error creating backend request''))
           | None \<Rightarrow>
               (let start = net_clock E h;
                    (h, r) = DoLimited E (build_request b ctx body) h
                in case r of
                     Inl err \<Rightarrow>
                       Done (network_error E h b, rpcReqs, h, Inl (wrapErr (Some err) ''error in backend request''))
                   | Inr httpRes \<Rightarrow>
                       if rpcReqs = [] then out_of_range
                       else if hp_StatusCode httpRes \<noteq> 200 \<and> hp_StatusCode httpRes \<noteq> 400 then
                         Done (network_error E h b, rpcReqs, h,
                           Inl (Errorf (''response code '' @ int_text (hp_StatusCode httpRes))))
                       else
                         obind (handle_body E b rpcReqs ids httpRes (net_clock E h - start) h)
                           (\<lambda>(b, r). Done (b, rpcReqs, h, r))))))"

text \<open>The waiting time in milliseconds is capped at three seconds; the context may end the wait
  early.\<close>

definition calcBackoff :: "('m, 'h) env \<Rightarrow> nat \<Rightarrow> 'h \<Rightarrow> 'h \<times> duration" where
  "calcBackoff E i h =
     (let (h, jitter) = rand_Int63n E 250 h;
          ms = min (2 ^ i * 1000 + jitter) 3000
      in (h, ms * Millisecond))"

definition sleepContext :: "('m, 'h) env \<Rightarrow> duration \<Rightarrow> 'h \<Rightarrow> 'h" where
  "sleepContext E d h = sleep E d h"

text \<open>The errors that end the attempts although they are errors.\<close>

definition not_retried :: "error \<Rightarrow> bool" where
  "not_retried err \<longleftrightarrow>
     err = RPCE (Global ErrBackendResponseTooLarge) \<or> err = Std ErrConsensusGetReceiptsCantBeBatched \<or>
     err = Std ErrConsensusGetReceiptsInvalidTarget \<or> err = Std ErrBackendUnexpectedJSONRPC"

text \<open>The attempts from number \<open>i\<close> on, \<open>n\<close> at most.\<close>

fun Forward_loop ::
  "('m, 'h) env \<Rightarrow> req_ctx \<Rightarrow> bool \<Rightarrow> nat \<Rightarrow> nat \<Rightarrow> error option \<Rightarrow> 'm Backend \<Rightarrow> RPCReq list \<Rightarrow> 'h
    \<Rightarrow> ('m Backend \<times> RPCReq list \<times> 'h \<times> (error + RPCRes option list)) outcome" where
  "Forward_loop E ctx isBatch 0 i lastError b reqs h =
     Done (b, reqs, h, Inl (wrapErr lastError ''permanent error forwarding request''))"
| "Forward_loop E ctx isBatch (Suc n) i lastError b reqs h =
     (if reqs = [] then out_of_range
      else obind (doForward E ctx b reqs isBatch h) (\<lambda>(b, reqs, h, r).
        case r of
          Inr res \<Rightarrow> Done (b, reqs, h, Inr res)
        | Inl err \<Rightarrow>
            if not_retried err then Done (b, reqs, h, Inl err)
            else (let (h, d) = calcBackoff E i h
                  in Forward_loop E ctx isBatch n (Suc i) (Some err) b reqs (sleepContext E d h))))"

definition Forward ::
  "('m, 'h) env \<Rightarrow> req_ctx \<Rightarrow> 'm Backend \<Rightarrow> RPCReq list \<Rightarrow> bool \<Rightarrow> 'h
    \<Rightarrow> ('m Backend \<times> RPCReq list \<times> 'h \<times> (error + RPCRes option list)) outcome" where
  "Forward E ctx b reqs isBatch h = Forward_loop E ctx isBatch (nat (maxRetries b + 1)) 0 None b reqs h"

definition ForwardRPC ::
  "('m, 'h) env \<Rightarrow> req_ctx \<Rightarrow> 'm Backend \<Rightarrow> bytes \<Rightarrow> string \<Rightarrow> gojson list \<Rightarrow> 'h
    \<Rightarrow> ('m Backend \<times> 'h \<times> (error + RPCRes)) outcome" where
  "ForwardRPC E ctx b i method params h =
     (let rpcReq = \<lparr>rq_JSONRPC = JSONRPCVersion, rq_Method = method,
            rq_Params = (if params = [] then ''null'' else json_encode (JArray params)), rq_ID = i\<rparr>
      in obind (doForward E ctx b [rpcReq] False h) (\<lambda>(b, _, h, r).
         case r of
           Inl err \<Rightarrow> Done (b, h, Inl err)
         | Inr slicedRes \<Rightarrow>
             if length slicedRes \<noteq> 1 then
               Done (b, h, Inl (Errorf ''unexpected response len for non-batched request (len != 1)''))
             else (case slicedRes ! 0 of
                     None \<Rightarrow> nil_deref
                   | Some res \<Rightarrow>
                       (case rs_Error res of
                          Some err \<Rightarrow> Done (b, h, Inl (RPCE err))
                        | None \<Rightarrow> Done (b, h, Inr res)))))"


section \<open>Health accounting\<close>

text \<open>What the environment guarantees about time: the clock never runs backwards.\<close>

locale network = linked_hash_map "lhm E" minv for E :: "('m, 'h) env" and minv +
  assumes clock_Acquire: "net_clock E h \<le> net_clock E (fst (sem_Acquire E h))"
    and clock_Release: "net_clock E h \<le> net_clock E (sem_Release E h)"
    and clock_Do: "net_clock E h \<le> net_clock E (fst (http_Do E req h))"
    and clock_sleep: "net_clock E h \<le> net_clock E (sleep E d h)"
    and clock_rand: "net_clock E h \<le> net_clock E (fst (rand_Int63n E n h))"

text \<open>The history of a backend: requests made, errors counted, latencies measured.\<close>

record history =
  hi_net :: "(time \<times> rat) list"
  hi_err :: "(time \<times> rat) list"
  hi_lat :: "(time \<times> rat) list"

definition accounts :: "('m, 'h) env \<Rightarrow> ('m \<Rightarrow> bool) \<Rightarrow> time \<Rightarrow> history \<Rightarrow> 'm Backend \<Rightarrow> bool" where
  "accounts E minv t H b \<longleftrightarrow>
     window_rep (lhm E) minv t (hi_net H) (networkRequestsSlidingWindow b) \<and>
     window_rep (lhm E) minv t (hi_err H) (intermittentErrorsSlidingWindow b) \<and>
     window_rep (lhm E) minv t (hi_lat H) (latencySlidingWindow b)"

text \<open>Only the windows of a backend change.\<close>

definition same_config :: "'m Backend \<Rightarrow> 'm Backend \<Rightarrow> bool" where
  "same_config b b' \<longleftrightarrow>
     b'\<lparr>networkRequestsSlidingWindow := networkRequestsSlidingWindow b,
        intermittentErrorsSlidingWindow := intermittentErrorsSlidingWindow b,
        latencySlidingWindow := latencySlidingWindow b\<rparr> = b"

lemma same_config_iff: "same_config b b' \<longleftrightarrow>
    (\<exists>n e l. b' = b\<lparr>networkRequestsSlidingWindow := n, intermittentErrorsSlidingWindow := e,
                    latencySlidingWindow := l\<rparr>)"
  unfolding same_config_def by (cases b; cases b') auto

lemma same_config_refl [simp]: "same_config b b"
  by (simp add: same_config_def)

lemma same_config_trans: "same_config a b \<Longrightarrow> same_config b c \<Longrightarrow> same_config a c"
  by (cases a; cases b; cases c) (simp add: same_config_def)

lemma same_config_update [simp]:
  "same_config b (b\<lparr>networkRequestsSlidingWindow := n\<rparr>)"
  "same_config b (b\<lparr>intermittentErrorsSlidingWindow := n\<rparr>)"
  "same_config b (b\<lparr>latencySlidingWindow := n\<rparr>)"
  by (simp_all add: same_config_def)

lemma same_config_fields:
  assumes "same_config b b'"
  shows "rpcURL b' = rpcURL b" "receiptsTarget b' = receiptsTarget b" "maxRetries b' = maxRetries b"
    "maxResponseSize b' = maxResponseSize b" "maxErrorRateThreshold b' = maxErrorRateThreshold b"
    "maxLatencyThreshold b' = maxLatencyThreshold b" "Name b' = Name b" "weight b' = weight b"
    "maxDegradedLatencyThreshold b' = maxDegradedLatencyThreshold b" "forcedCandidate b' = forcedCandidate b"
    "skipPeerCountCheck b' = skipPeerCountCheck b" "wsURL b' = wsURL b"
  using assms by (auto simp: same_config_iff)

lemma ErrorRate_config: "same_config b (fst (ErrorRate E h b))"
  by (simp add: ErrorRate_def Let_def same_config_def split: prod.splits)

lemma avg_latency_config: "same_config b (fst (avg_latency E h b))"
  by (simp add: avg_latency_def Let_def split: prod.splits)

lemma IsHealthy_config: "same_config b (fst (IsHealthy E h b))"
  using ErrorRate_config [of b E h] avg_latency_config [of "fst (ErrorRate E h b)" E h]
  by (auto simp: IsHealthy_def split: prod.splits intro: same_config_trans)

lemma IsDegraded_config: "same_config b (fst (IsDegraded E h b))"
  using avg_latency_config [of b E h] by (auto simp: IsDegraded_def split: prod.splits)

lemma network_error_config: "same_config b (network_error E h b)"
  unfolding network_error_def by (rule same_config_trans [OF _ ErrorRate_config]) simp

lemma network_request_config: "same_config b (network_request E h b)"
  by (simp add: network_request_def)

lemma record_latency_config: "same_config b (record_latency E h d b)"
  unfolding record_latency_def Let_def
  by (rule same_config_trans [OF _ ErrorRate_config], rule same_config_trans [OF _ avg_latency_config]) simp

context network begin

lemma DoLimited_clock: "net_clock E h \<le> net_clock E (fst (DoLimited E req h))"
proof -
  obtain h1 e where a: "sem_Acquire E h = (h1, e)" by (cases "sem_Acquire E h")
  obtain h2 r where d: "http_Do E req h1 = (h2, r)" by (cases "http_Do E req h1")
  show ?thesis
    using clock_Acquire [of h] clock_Do [of h1 req] clock_Release [of h2] a d
    by (cases e) (auto simp: DoLimited_def)
qed

lemma accounts_mono: "accounts E minv t H b \<Longrightarrow> t \<le> t' \<Longrightarrow> accounts E minv t' H b"
  unfolding accounts_def by (blast intro: window_rep_mono)

lemma accounts_ErrorRate: "accounts E minv t H b \<Longrightarrow> t \<le> net_clock E h \<Longrightarrow>
    accounts E minv (net_clock E h) H (fst (ErrorRate E h b))"
  unfolding accounts_def
  by (auto simp: ErrorRate_def sw_Sum_def Let_def intro: window_rep_advance window_rep_mono)

lemma accounts_avg_latency: "accounts E minv t H b \<Longrightarrow> t \<le> net_clock E h \<Longrightarrow>
    accounts E minv (net_clock E h) H (fst (avg_latency E h b))"
  unfolding accounts_def
  by (auto simp: avg_latency_def sw_Avg_def Let_def intro: window_rep_advance window_rep_mono)

lemma accounts_error: "accounts E minv t H b \<Longrightarrow> t \<le> net_clock E h \<Longrightarrow>
    accounts E minv (net_clock E h) (H\<lparr>hi_err := hi_err H @ [(net_clock E h, 1)]\<rparr>) (network_error E h b)"
  unfolding network_error_def
  by (rule accounts_ErrorRate [OF _ order_refl])
    (auto simp: accounts_def sw_Incr_def intro: window_rep_Add window_rep_mono)

lemma accounts_request: "accounts E minv t H b \<Longrightarrow> t \<le> net_clock E h \<Longrightarrow>
    accounts E minv (net_clock E h) (H\<lparr>hi_net := hi_net H @ [(net_clock E h, 1)]\<rparr>) (network_request E h b)"
  unfolding network_request_def
  by (auto simp: accounts_def sw_Incr_def intro: window_rep_Add window_rep_mono)

lemma accounts_latency: "accounts E minv t H b \<Longrightarrow> t \<le> net_clock E h \<Longrightarrow>
    accounts E minv (net_clock E h) (H\<lparr>hi_lat := hi_lat H @ [(net_clock E h, of_int d)]\<rparr>) (record_latency E h d b)"
  unfolding record_latency_def Let_def
  by (rule accounts_ErrorRate [OF accounts_avg_latency [OF _ order_refl] order_refl])
    (auto simp: accounts_def intro: window_rep_Add window_rep_mono)

end


section \<open>What one attempt does\<close>

text \<open>The errors that do not count against the backend, for \<open>n\<close> requests.\<close>

definition uncounted :: "nat \<Rightarrow> error \<Rightarrow> bool" where
  "uncounted n err \<longleftrightarrow> err = Std ErrConsensusGetReceiptsCantBeBatched \<or>
     err = Std ErrConsensusGetReceiptsInvalidTarget \<or> err = RPCE (ErrInvalidRequest ''invalid request'') \<or>
     err = RPCE (Global ErrBackendResponseTooLarge) \<or> (n = 1 \<and> err = RPCE (Global ErrBackendBadResponse))"

lemma translated_params_err:
  "translated_params L target ps = Done (Inl err) \<Longrightarrow> err = Std ErrConsensusGetReceiptsInvalidTarget"
  by (auto simp: translated_params_def split: if_splits list.splits option.splits)

lemma translate_req_result:
  assumes "translate_req L target req = Done (req', err)"
  shows "rq_ID req' = rq_ID req" "err = None \<or> uncounted n (the err)"
proof -
  have "rq_ID req' = rq_ID req \<and> (err = None \<or> uncounted n (the err))"
  proof (cases "Unmarshal_bnhs L (rq_Params req)")
    case (Some ps)
    with assms obtain x where x: "translated_params L target ps = Done x" by (auto simp: translate_req_def Let_def)
    then show ?thesis
      using assms Some translated_params_err [of L target ps]
      by (cases x) (auto simp: translate_req_def Let_def uncounted_def)
  qed (use assms in \<open>auto simp: translate_req_def Let_def uncounted_def\<close>)
  then show "rq_ID req' = rq_ID req" "err = None \<or> uncounted n (the err)" by auto
qed

lemma translate_reqs_result:
  assumes "translate_reqs L target reqs = Done (reqs', ids, err)"
  shows "map rq_ID reqs' = map rq_ID reqs \<and> (err = None \<or> uncounted n (the err)) \<and> set ids \<subseteq> rq_ID ` set reqs"
  using assms
proof (induction reqs arbitrary: reqs' ids err)
  case (Cons req reqs)
  show ?case
  proof (cases "rq_Method req = ConsensusGetReceiptsMethod")
    case True
    with Cons.prems obtain req' e where t: "translate_req L target req = Done (req', e)"
      by (auto split: prod.splits)
    note res = translate_req_result [OF t]
    show ?thesis
    proof (cases "e = None")
      case True
      with t Cons.prems \<open>rq_Method req = _\<close> obtain reqs'' ids' where
        "translate_reqs L target reqs = Done (reqs'', ids', err)" "reqs' = req' # reqs''" "ids = rq_ID req # ids'"
        by (auto split: prod.splits)
      then show ?thesis using Cons.IH [of reqs'' ids' err] res by auto
    next
      case False
      with t Cons.prems \<open>rq_Method req = _\<close> res show ?thesis by auto
    qed
  next
    case False
    with Cons.prems obtain reqs'' where
      "translate_reqs L target reqs = Done (reqs'', ids, err)" "reqs' = req # reqs''"
      by (auto split: prod.splits)
    then show ?thesis using Cons.IH [of reqs'' ids err] by auto
  qed
qed simp

lemma translate_result:
  assumes "translate L target isBatch reqs = Done (reqs', ids, err)"
  shows "map rq_ID reqs' = map rq_ID reqs" "length reqs' = length reqs" "err = None \<or> uncounted n (the err)"
    "set ids \<subseteq> rq_ID ` set reqs"
proof -
  have "map rq_ID reqs' = map rq_ID reqs \<and> (err = None \<or> uncounted n (the err)) \<and> set ids \<subseteq> rq_ID ` set reqs"
    using assms translate_reqs_result [of L target reqs reqs' ids err n]
    by (auto simp: translate_def uncounted_def split: if_splits)
  moreover from this have "length reqs' = length reqs" by (metis length_map)
  ultimately show "map rq_ID reqs' = map rq_ID reqs" "length reqs' = length reqs"
    "err = None \<or> uncounted n (the err)" "set ids \<subseteq> rq_ID ` set reqs" by auto
qed

text \<open>The four ways an attempt ends.\<close>

lemma doForward_cases:
  assumes "doForward E ctx b reqs isBatch h = Done (b', reqs', h', r)"
  obtains (untranslated) ids err where
      "translate E (receiptsTarget b) isBatch reqs = Done (reqs', ids, Some err)"
      "b' = network_request E h b" "h' = h" "r = Inl err"
  | (failed) ids err where
      "translate E (receiptsTarget b) isBatch reqs = Done (reqs', ids, None)"
      "b' = network_error E h' (network_request E h b)" "r = Inl err"
      "(\<exists>e m. err = Wrapf m e) \<or> (\<exists>s. err = Errorf s)"
      "h' = h \<or> (\<exists>req. h' = fst (DoLimited E req h))"
  | (handled) ids body httpRes where
      "translate E (receiptsTarget b) isBatch reqs = Done (reqs', ids, None)"
      "request_body reqs' = Done body" "reqs' \<noteq> []"
      "DoLimited E (build_request (network_request E h b) ctx body) h = (h', Inr httpRes)"
      "hp_StatusCode httpRes = 200 \<or> hp_StatusCode httpRes = 400"
      "handle_body E (network_request E h b) reqs' ids httpRes (net_clock E h' - net_clock E h) h' = Done (b', r)"
proof -
  let ?b = "network_request E h b"
  have tgt: "receiptsTarget ?b = receiptsTarget b" by (simp add: network_request_def)
  from assms obtain reqs1 ids err where t: "translate E (receiptsTarget b) isBatch reqs = Done (reqs1, ids, err)"
    by (auto simp: doForward_def Let_def tgt)
  show thesis
  proof (cases err)
    case (Some e)
    with assms t show thesis by (intro untranslated) (auto simp: doForward_def Let_def tgt)
  next
    case None
    with assms t obtain body where body: "request_body reqs1 = Done body"
      by (auto simp: doForward_def Let_def tgt)
    obtain h1 r1 where d: "DoLimited E (build_request ?b ctx body) h = (h1, r1)"
      by (cases "DoLimited E (build_request ?b ctx body) h")
    then have h1: "\<exists>req. h1 = fst (DoLimited E req h)" by (metis fst_conv)
    note R = assms [unfolded doForward_def Let_def tgt t obind.simps prod.case None body]
    show thesis
    proof (cases "newRequest_err E (rpcURL ?b)")
      case (Some e)
      with R t None show thesis by (intro failed) (auto simp: wrapErr_def)
    next
      case nr: None
      show thesis
      proof (cases r1)
        case (Inl e)
        with R nr d t None h1 show thesis by (intro failed) (auto simp: wrapErr_def)
      next
        case (Inr httpRes)
        with R nr d have ne: "reqs1 \<noteq> []" by auto
        show thesis
        proof (cases "hp_StatusCode httpRes = 200 \<or> hp_StatusCode httpRes = 400")
          case True
          with R nr d t None ne Inr body show thesis by (intro handled) auto
        next
          case False
          with R nr d t None ne Inr h1 show thesis by (intro failed) auto
        qed
      qed
    qed
  qed
qed


abbreviation (input) res_IDs :: "RPCRes option list \<Rightarrow> bytes list" where
  "res_IDs res \<equiv> map (\<lambda>r. rs_ID (the r)) res"

lemma set_status_result: "set_status code res = Done res' \<Longrightarrow>
    length res' = length res \<and> None \<notin> set res' \<and> res_IDs res' = res_IDs res"
proof (induction code res arbitrary: res' rule: set_status.induct)
  case (2 code r res)
  then show ?case by (cases "rs_Error r") (auto split: RPCErrPtr.splits)
qed auto

lemma enrich_result: "enrich ids target res = Done res' \<Longrightarrow>
    length res' = length res \<and> None \<notin> set res' \<and> res_IDs res' = res_IDs res"
  by (induction ids target res arbitrary: res' rule: enrich.induct) auto

lemma sort_result:
  assumes "sortBatchRPCResponse reqs res = Done res'"
  shows "mset res' = mset res" "sorted (map (id_pos reqs) (res_IDs res'))" "distinct (map rq_ID reqs)"
proof -
  have res': "res' = sort_key (\<lambda>r. id_pos reqs (rs_ID (the r))) res" and "distinct (map rq_ID reqs)"
    using assms by (auto simp: sortBatchRPCResponse_def split: if_splits)
  then show "mset res' = mset res" "distinct (map rq_ID reqs)" by auto
  have "sorted (map (\<lambda>r. id_pos reqs (rs_ID (the r))) res')"
    unfolding res' by (rule sorted_sort_key)
  then show "sorted (map (id_pos reqs) (res_IDs res'))" by (simp add: comp_def)
qed

lemma id_pos_nth: "distinct (map rq_ID reqs) \<Longrightarrow> i < length reqs \<Longrightarrow> id_pos reqs (rq_ID (reqs ! i)) = i"
proof (induction reqs arbitrary: i)
  case (Cons r reqs)
  then show ?case by (cases i) (auto simp: image_iff)
qed simp

lemma map_id_pos: "distinct (map rq_ID reqs) \<Longrightarrow> map (id_pos reqs) (map rq_ID reqs) = [0..<length reqs]"
  by (rule nth_equalityI) (auto simp: id_pos_nth)

text \<open>Sorting by the positions of the requests puts a permutation of their IDs in their order.\<close>

lemma sorted_by_pos:
  assumes "distinct (map rq_ID reqs)" and "mset is = mset (map rq_ID reqs)" and "sorted (map (id_pos reqs) is)"
  shows "is = map rq_ID reqs"
proof -
  have inj: "inj_on (id_pos reqs) (set (map rq_ID reqs))"
    using assms(1) by (auto simp: inj_on_def in_set_conv_nth id_pos_nth)
  have "mset (map (id_pos reqs) is) = mset (map (id_pos reqs) (map rq_ID reqs))"
    using assms(2) by (metis mset_map)
  then have "map (id_pos reqs) is = map (id_pos reqs) (map rq_ID reqs)"
    using assms(3) map_id_pos [OF assms(1)] by (metis sorted_list_of_multiset_mset sorted_sort_id sorted_upt)
  moreover have "set is = set (map rq_ID reqs)" using assms(2) by (metis set_mset_mset)
  ultimately show ?thesis using inj by (metis inj_on_map_eq_map sup.idem)
qed

lemma id_pos_cong: "map rq_ID reqs = map rq_ID reqs' \<Longrightarrow> id_pos reqs i = id_pos reqs' i"
proof (induction reqs arbitrary: reqs')
  case (Cons r reqs)
  then obtain r' rs where "reqs' = r' # rs" by (cases reqs') auto
  with Cons show ?case by simp (metis list.set_map)
qed simp

text \<open>The responses a backend returns for its requests.\<close>

definition answers :: "RPCReq list \<Rightarrow> RPCRes option list \<Rightarrow> bool" where
  "answers reqs res \<longleftrightarrow> length res = length reqs \<and> None \<notin> set res \<and> distinct (map rq_ID reqs) \<and>
     sorted (map (id_pos reqs) (res_IDs res)) \<and>
     (set (map rq_ID reqs) \<subseteq> set (res_IDs res) \<longrightarrow> res_IDs res = map rq_ID reqs)"

lemma answers_cong: "map rq_ID reqs = map rq_ID reqs' \<Longrightarrow> answers reqs res = answers reqs' res"
proof -
  assume eq: "map rq_ID reqs = map rq_ID reqs'"
  then have "id_pos reqs = id_pos reqs'" by (intro ext id_pos_cong)
  with eq map_eq_imp_length_eq [OF eq] show ?thesis by (simp add: answers_def)
qed

lemma answersI:
  assumes "length res = length reqs" and "None \<notin> set res" and "sortBatchRPCResponse reqs res = Done res'"
  shows "answers reqs res'"
proof -
  note srt = sort_result [OF assms(3)]
  have len: "length res' = length res" using srt(1) by (metis size_mset)
  have none: "None \<notin> set res'" using srt(1) assms(2) by (metis set_mset_mset)
  have "res_IDs res' = map rq_ID reqs" if "set (map rq_ID reqs) \<subseteq> set (res_IDs res')"
  proof (rule sorted_by_pos [OF srt(3) _ srt(2)])
    have "card (set (res_IDs res')) \<le> length reqs"
      using card_length [of "res_IDs res'"] len assms(1) by simp
    moreover have "card (set (map rq_ID reqs)) = length reqs" using distinct_card [OF srt(3)] by simp
    ultimately have eq: "set (map rq_ID reqs) = set (res_IDs res')"
      using that by (metis List.finite_set card_seteq)
    then have "distinct (res_IDs res')"
      using distinct_card [OF srt(3)] len assms(1) by (intro card_distinct) simp
    with srt(3) eq show "mset (res_IDs res') = mset (map rq_ID reqs)" by (metis set_eq_iff_mset_eq_distinct)
  qed
  then show ?thesis using srt len none assms(1) by (simp add: answers_def)
qed


lemma decode_responses_length: "decode_responses L n resB = Inr res \<Longrightarrow> length res = n"
  by (auto simp: decode_responses_def Let_def split: sum.splits if_splits)

lemma decode_responses_err: "decode_responses L n resB = Inl (err, counts) \<Longrightarrow> counts = (\<not> uncounted n err)"
  by (auto simp: decode_responses_def Let_def uncounted_def ErrInvalidRequest_def
      split: sum.splits if_splits option.splits)

text \<open>The three ways the handling of a body ends.\<close>

lemma handle_body_cases:
  assumes "handle_body E b reqs ids httpRes d h = Done (b', r)"
  obtains (ok) res where "b' = record_latency E h d b" "r = Inr res" "answers reqs res"
  | (counted) err where "b' = network_error E h b" "r = Inl err" "\<not> uncounted (length reqs) err"
  | (uncounted) err where "b' = b" "r = Inl err" "uncounted (length reqs) err"
proof -
  obtain resB err where rd: "read_limited (hp_Body httpRes) (maxResponseSize b) = (resB, err)"
    by (cases "read_limited (hp_Body httpRes) (maxResponseSize b)")
  note R = assms [unfolded handle_body_def rd Let_def prod.case]
  show thesis
  proof (cases "errors_Is err (Std ErrLimitReaderOverLimit) \<or> err \<noteq> None")
    case True
    with R show thesis
      by (cases "errors_Is err (Std ErrLimitReaderOverLimit)")
        (auto simp: uncounted_def wrapErr_def intro: counted uncounted)
  next
    case False
    show thesis
    proof (cases "decode_responses E (length reqs) resB")
      case (Inl e)
      obtain e1 c where e: "e = (e1, c)" by (cases e)
      from Inl e decode_responses_err [of E "length reqs" resB e1 c] R False show thesis
        by (cases c) (auto intro: counted uncounted)
    next
      case (Inr res)
      let ?st = "if hp_StatusCode httpRes \<noteq> 200 then set_status (hp_StatusCode httpRes) res else Done res"
      from Inr R False obtain res1 res2 res3 where steps: "?st = Done res1"
          "enrich ids (receiptsTarget (record_latency E h d b)) res1 = Done res2"
          "sortBatchRPCResponse reqs res2 = Done res3" and b': "b' = record_latency E h d b" "r = Inr res3"
        by (auto split: if_splits)
      have "length res1 = length res"
        using steps(1) set_status_result [of "hp_StatusCode httpRes" res res1] by (auto split: if_splits)
      with enrich_result [OF steps(2)] decode_responses_length [OF Inr]
      have "length res2 = length reqs" "None \<notin> set res2" by auto
      from answersI [OF this steps(3)] b' show thesis by (intro ok)
    qed
  qed
qed

lemma handle_body_config: "handle_body E b reqs ids httpRes d h = Done (b', r) \<Longrightarrow> same_config b b'"
  by (erule handle_body_cases) (simp_all add: record_latency_config network_error_config)

lemma doForward_config: "doForward E ctx b reqs isBatch h = Done (b', reqs', h', r) \<Longrightarrow> same_config b b'"
  by (erule doForward_cases)
    (auto intro: network_request_config same_config_trans network_error_config dest!: handle_body_config)

lemma doForward_IDs: "doForward E ctx b reqs isBatch h = Done (b', reqs', h', r) \<Longrightarrow>
    map rq_ID reqs' = map rq_ID reqs"
  by (erule doForward_cases) (auto dest: translate_result(1))

lemma doForward_answers:
  assumes "doForward E ctx b reqs isBatch h = Done (b', reqs', h', Inr res)"
  shows "answers reqs res"
proof -
  have "answers reqs' res"
    using assms by (cases rule: doForward_cases) (auto elim: handle_body_cases)
  then show ?thesis using answers_cong [OF doForward_IDs [OF assms]] by simp
qed

lemma Forward_loop_answers:
  "Forward_loop E ctx isBatch n i lastError b reqs h = Done (b', reqs', h', Inr res) \<Longrightarrow> answers reqs res"
proof (induction n arbitrary: i lastError b reqs h)
  case (Suc n)
  then obtain b1 reqs1 h1 r where d: "doForward E ctx b reqs isBatch h = Done (b1, reqs1, h1, r)"
    by (auto split: if_splits)
  show ?case
  proof (cases r)
    case (Inr res1)
    with Suc.prems d show ?thesis by (auto split: if_splits dest: doForward_answers)
  next
    case (Inl err)
    with Suc.prems d obtain h2 dd where
      "Forward_loop E ctx isBatch n (Suc i) (Some err) b1 reqs1 (sleepContext E dd h2) = Done (b', reqs', h', Inr res)"
      by (auto split: if_splits prod.splits)
    then have "answers reqs1 res" by (rule Suc.IH)
    then show ?thesis using answers_cong [OF doForward_IDs [OF d]] by simp
  qed
qed simp

context network begin

text \<open>One attempt extends the history by one request and by one error or one latency, if any.\<close>

lemma doForward_accounts:
  assumes "accounts E minv t H b" and "t \<le> net_clock E h"
    and "doForward E ctx b reqs isBatch h = Done (b', reqs', h', r)"
  defines "H' \<equiv> H\<lparr>hi_net := hi_net H @ [(net_clock E h, 1)]\<rparr>"
  shows "net_clock E h \<le> net_clock E h' \<and> accounts E minv (net_clock E h')
    (case r of
       Inr _ \<Rightarrow> H'\<lparr>hi_lat := hi_lat H @ [(net_clock E h', of_int (net_clock E h' - net_clock E h))]\<rparr>
     | Inl err \<Rightarrow> if uncounted (length reqs) err then H' else H'\<lparr>hi_err := hi_err H @ [(net_clock E h', 1)]\<rparr>) b'"
proof -
  note req = accounts_request [OF assms(1,2), folded H'_def]
  show ?thesis
    using assms(3)
  proof (cases rule: doForward_cases)
    case (untranslated ids err)
    with req translate_result(3) [OF untranslated(1)] show ?thesis by simp
  next
    case (failed ids err)
    have le: "net_clock E h \<le> net_clock E h'" using failed(5) DoLimited_clock by auto
    moreover have "\<not> uncounted (length reqs) err" using failed(4) by (auto simp: uncounted_def)
    ultimately show ?thesis
      using accounts_error [OF req le] failed by (simp add: H'_def)
  next
    case (handled ids body httpRes)
    have le: "net_clock E h \<le> net_clock E h'" using handled(4) DoLimited_clock by (metis fst_conv)
    have len: "length reqs' = length reqs" by (rule translate_result(2) [OF handled(1)])
    from handled(6) show ?thesis
      using accounts_latency [OF req le, of "net_clock E h' - net_clock E h"] accounts_error [OF req le] accounts_mono [OF req le] le len
      by (cases rule: handle_body_cases) (auto simp: H'_def)
  qed
qed

end


section \<open>A network for evaluation\<close>

text \<open>Replies are scripted, each with the time it takes; requests are logged; waiting advances the
  clock.\<close>

record script =
  sc_now :: time
  sc_log :: "http_request list"
  sc_replies :: "(duration \<times> (error + http_response)) list"

definition script_Do :: "http_request \<Rightarrow> script \<Rightarrow> script \<times> (error + http_response)" where
  "script_Do req h =
     (let h = h\<lparr>sc_log := sc_log h @ [req]\<rparr>
      in case sc_replies h of
           [] \<Rightarrow> (h, Inl (Errorf ''connection refused''))
         | (d, r) # rs \<Rightarrow> (h\<lparr>sc_now := sc_now h + max 0 d, sc_replies := rs\<rparr>, r))"

definition scripted :: "((time \<times> bucket) list, script) env" where
  "scripted = lib.extend geth
     (env.fields alist_lhm sc_now (\<lambda>h. (h, None)) (\<lambda>h. h) script_Do (\<lambda>_. None)
        (\<lambda>d h. h\<lparr>sc_now := sc_now h + max 0 d\<rparr>) (\<lambda>n h. (h, 0)))"

lemma scripted_simps [simp]:
  "lhm scripted = alist_lhm" "net_clock scripted = sc_now" "sem_Acquire scripted h = (h, None)"
  "sem_Release scripted h = h" "http_Do scripted = script_Do" "newRequest_err scripted u = None"
  "sleep scripted d h = h\<lparr>sc_now := sc_now h + max 0 d\<rparr>" "rand_Int63n scripted n h = (h, 0)"
  by (simp_all add: scripted_def lib.defs env.defs)

lemma scripted_lib [simp]:
  "fnum scripted = fnum geth" "hex_DecodeUint64 scripted = hex_DecodeUint64 geth" "hex_String scripted = hex_String geth"
  "bnh_UnmarshalJSON scripted = bnh_UnmarshalJSON geth" "bnh_Value scripted = bnh_Value geth"
  "SafeBlockNumber scripted = SafeBlockNumber geth" "FinalizedBlockNumber scripted = FinalizedBlockNumber geth"
  "LatestBlockNumber scripted = LatestBlockNumber geth" "PendingBlockNumber scripted = PendingBlockNumber geth"
  "EarliestBlockNumber scripted = EarliestBlockNumber geth" "bn_String scripted = bn_String geth"
  "hash_Hex scripted = hash_Hex geth"
  by (simp_all add: scripted_def lib.defs)

interpretation scl: eth_lib scripted
  using gl.eth_lib_axioms by (simp add: eth_lib_def eth_lib_axioms_def)

lemma script_Do_simps:
  "sc_replies h = [] \<Longrightarrow> script_Do req h = (h\<lparr>sc_log := sc_log h @ [req]\<rparr>, Inl (Errorf ''connection refused''))"
  "sc_replies h = (d, r) # rs \<Longrightarrow> script_Do req h =
     (h\<lparr>sc_log := sc_log h @ [req], sc_now := sc_now h + max 0 d, sc_replies := rs\<rparr>, r)"
  by (simp_all add: script_Do_def)

interpretation scn: network scripted "\<lambda>m. distinct (map fst m)"
  by unfold_locales
    (simp_all add: alm.laws alm.Keys_distinct alm.Get_None script_Do_def Let_def split: list.splits prod.splits)

text \<open>How many requests an operation sends, for any measure of the network that counts them.\<close>

locale request_count =
  fixes E :: "('m, 'h) env" and cnt :: "'h \<Rightarrow> nat"
  assumes cnt_Acquire: "cnt (fst (sem_Acquire E h)) = cnt h"
    and cnt_Release: "cnt (sem_Release E h) = cnt h"
    and cnt_Do: "cnt (fst (http_Do E req h)) = Suc (cnt h)"
    and cnt_sleep: "cnt (sleep E d h) = cnt h"
    and cnt_rand: "cnt (fst (rand_Int63n E n h)) = cnt h"
begin

lemma cnt_DoLimited: "cnt (fst (DoLimited E req h)) \<le> Suc (cnt h)"
proof -
  obtain h1 e where a: "sem_Acquire E h = (h1, e)" by (cases "sem_Acquire E h")
  obtain h2 r where d: "http_Do E req h1 = (h2, r)" by (cases "http_Do E req h1")
  show ?thesis
    using cnt_Acquire [of h] cnt_Do [of req h1] cnt_Release [of h2] a d
    by (cases e) (auto simp: DoLimited_def)
qed

lemma cnt_doForward: "doForward E ctx b reqs isBatch h = Done (b', reqs', h', r) \<Longrightarrow> cnt h' \<le> Suc (cnt h)"
  using cnt_DoLimited by (elim doForward_cases) (auto, (metis fst_conv)+)

lemma cnt_backoff: "calcBackoff E i h = (h', d) \<Longrightarrow> cnt (sleepContext E d h') = cnt h"
  using cnt_rand [of 250 h] by (auto simp: calcBackoff_def sleepContext_def cnt_sleep split: prod.splits)

lemma cnt_Forward_loop:
  "Forward_loop E ctx isBatch n i lastError b reqs h = Done (b', reqs', h', r) \<Longrightarrow> cnt h' \<le> n + cnt h"
proof (induction n arbitrary: i lastError b reqs h)
  case (Suc n)
  then obtain b1 reqs1 h1 r1 where d: "doForward E ctx b reqs isBatch h = Done (b1, reqs1, h1, r1)"
    by (auto split: if_splits)
  note c1 = cnt_doForward [OF d]
  obtain h2 dd where bo: "calcBackoff E i h1 = (h2, dd)" by (cases "calcBackoff E i h1")
  show ?case
  proof (cases "\<exists>err. r1 = Inl err \<and> \<not> not_retried err")
    case True
    with Suc.prems d bo obtain err where
      "Forward_loop E ctx isBatch n (Suc i) (Some err) b1 reqs1 (sleepContext E dd h2) = Done (b', reqs', h', r)"
      by (auto split: if_splits)
    from Suc.IH [OF this] c1 cnt_backoff [OF bo] show ?thesis by simp
  next
    case False
    with Suc.prems d have "h' = h1" by (auto split: if_splits sum.splits)
    with c1 show ?thesis by simp
  qed
qed simp

end

interpretation scc: request_count scripted "\<lambda>h. length (sc_log h)"
  by unfold_locales (simp_all add: script_Do_def Let_def split: list.splits prod.splits)


text \<open>The recent part of a history, as a window sees it at a time.\<close>

definition recent_of :: "time \<Rightarrow> 'm AvgSlidingWindow \<Rightarrow> (time \<times> rat) list \<Rightarrow> (time \<times> rat) list" where
  "recent_of now sw ps = recent (sw_bucketSize sw) (windowStart now sw) ps"

definition mean :: "(time \<times> rat) list \<Rightarrow> rat" where
  "mean ps = (if ps = [] then 0 else sum_list (map snd ps) / of_nat (length ps))"

context network begin

lemma ErrorRate_value:
  assumes "accounts E minv t H b" and "t \<le> net_clock E h"
  defines "reqs \<equiv> sum_list (map snd (recent_of (net_clock E h) (networkRequestsSlidingWindow b) (hi_net H)))"
    and "errs \<equiv> sum_list (map snd (recent_of (net_clock E h) (intermittentErrorsSlidingWindow b) (hi_err H)))"
  shows "snd (ErrorRate E h b) = (if 10 \<le> reqs then errs / reqs else 0)"
proof -
  let ?L = "lhm E" and ?now = "net_clock E h"
  let ?nw = "networkRequestsSlidingWindow b" and ?ew = "intermittentErrorsSlidingWindow b"
  have rep: "window_rep ?L minv t (hi_net H) ?nw" "window_rep ?L minv t (hi_err H) ?ew"
    using assms(1) by (auto simp: accounts_def)
  have n1: "snd (sw_Sum ?L ?now ?nw) = reqs" and e1: "snd (sw_Sum ?L ?now ?ew) = errs"
    using window_rep_totals(1) [OF rep(1) assms(2)] window_rep_totals(1) [OF rep(2) assms(2)]
    by (simp_all add: reqs_def errs_def recent_of_def)
  have "window_rep ?L minv ?now (hi_net H) (fst (sw_Sum ?L ?now ?nw))"
    using window_rep_advance [OF rep(1) assms(2)] by (simp add: sw_Sum_def Let_def)
  from window_rep_totals(1) [OF this order_refl]
  have n2: "snd (sw_Sum ?L ?now (fst (sw_Sum ?L ?now ?nw))) = reqs"
    by (simp add: reqs_def recent_of_def sw_Sum_def Let_def windowStart_def)
  show ?thesis
    using n1 e1 n2 by (auto simp: ErrorRate_def Let_def split: prod.splits)
qed

lemma avg_latency_value:
  assumes "accounts E minv t H b" and "t \<le> net_clock E h" and "length (hi_lat H) < 2 ^ 64"
  shows "snd (avg_latency E h b) = to_duration (mean (recent_of (net_clock E h) (latencySlidingWindow b) (hi_lat H)))"
proof -
  have "window_rep (lhm E) minv t (hi_lat H) (latencySlidingWindow b)"
    using assms(1) by (simp add: accounts_def)
  from window_rep_totals(3) [OF this assms(2,3)] show ?thesis
    by (simp add: avg_latency_def mean_def recent_of_def case_prod_unfold)
qed

lemma ErrorRate_latency_window [simp]: "latencySlidingWindow (fst (ErrorRate E h b)) = latencySlidingWindow b"
  by (simp add: ErrorRate_def Let_def split: prod.splits)

lemma IsHealthy_value:
  assumes "accounts E minv t H b" and "t \<le> net_clock E h" and "length (hi_lat H) < 2 ^ 64"
  shows "snd (IsHealthy E h b) \<longleftrightarrow> snd (ErrorRate E h b) < maxErrorRateThreshold b \<and>
      to_duration (mean (recent_of (net_clock E h) (latencySlidingWindow b) (hi_lat H))) < maxLatencyThreshold b"
    and "accounts E minv (net_clock E h) H (fst (IsHealthy E h b))"
proof -
  let ?b1 = "fst (ErrorRate E h b)" let ?b2 = "fst (avg_latency E h ?b1)"
  note a1 = accounts_ErrorRate [OF assms(1,2)]
  have cfg: "same_config b ?b2" by (rule same_config_trans [OF ErrorRate_config avg_latency_config])
  have res: "IsHealthy E h b = (?b2, \<not> snd (ErrorRate E h b) \<ge> maxErrorRateThreshold b \<and>
      \<not> snd (avg_latency E h ?b1) \<ge> maxLatencyThreshold b)"
    using same_config_fields(5,6) [OF cfg] by (auto simp: IsHealthy_def split: prod.splits)
  show "snd (IsHealthy E h b) \<longleftrightarrow> snd (ErrorRate E h b) < maxErrorRateThreshold b \<and>
      to_duration (mean (recent_of (net_clock E h) (latencySlidingWindow b) (hi_lat H))) < maxLatencyThreshold b"
    using avg_latency_value [OF a1 order_refl assms(3)] by (auto simp: res)
  show "accounts E minv (net_clock E h) H (fst (IsHealthy E h b))"
    using accounts_avg_latency [OF a1 order_refl] by (simp add: res)
qed

end

lemma translate_reqs_none: "(\<And>r. r \<in> set reqs \<Longrightarrow> rq_Method r \<noteq> ConsensusGetReceiptsMethod) \<Longrightarrow>
    translate_reqs L target reqs = Done (reqs, [], None)"
  by (induction reqs) auto

lemma translate_req_method: "translate_req L target req = Done (req', err) \<Longrightarrow> rq_Method req' = target"
proof (cases "Unmarshal_bnhs L (rq_Params req)")
  case (Some ps)
  assume a: "translate_req L target req = Done (req', err)"
  with Some obtain x where "translated_params L target ps = Done x" by (auto simp: translate_req_def Let_def)
  with a Some show ?thesis by (cases x) (auto simp: translate_req_def Let_def)
qed (auto simp: translate_req_def Let_def)

lemma translate_reqs_methods:
  "translate_reqs L target reqs = Done (reqs', ids, None) \<Longrightarrow> target \<noteq> ConsensusGetReceiptsMethod \<Longrightarrow>
    req \<in> set reqs' \<Longrightarrow> rq_Method req \<noteq> ConsensusGetReceiptsMethod"
proof (induction reqs arbitrary: reqs' ids)
  case (Cons r reqs)
  then obtain r' rs js where "reqs' = r' # rs" "translate_reqs L target reqs = Done (rs, js, None)"
      "rq_Method r' \<noteq> ConsensusGetReceiptsMethod"
    by (auto split: if_splits dest: translate_req_method)
  with Cons show ?case by auto
qed simp

lemma translate_reqs_again:
  "translate_reqs L target reqs = Done (reqs', ids, None) \<Longrightarrow> target \<noteq> ConsensusGetReceiptsMethod \<Longrightarrow>
    translate_reqs L' target' reqs' = Done (reqs', [], None)"
  by (rule translate_reqs_none) (rule translate_reqs_methods)

text \<open>Attempts on the scripted network: nobody answers, or the answer is the text null.\<close>

definition quiet :: "(duration \<times> (error + http_response)) list \<Rightarrow> script" where
  "quiet replies = \<lparr>sc_now = 0, sc_log = [], sc_replies = replies\<rparr>"

definition null_reply :: "int \<Rightarrow> http_response" where
  "null_reply code = \<lparr>hp_StatusCode = code, hp_Body = [(''null'', Some EOF)]\<rparr>"

definition empty_req :: "string \<Rightarrow> RPCReq" where
  "empty_req m = \<lparr>rq_JSONRPC = ''2.0'', rq_Method = m, rq_Params = [], rq_ID = []\<rparr>"

abbreviation (input) new_backend :: "(time \<times> bucket) list Backend" where
  "new_backend \<equiv> NewBackend scripted ''a'' ''u'' [] []"

abbreviation (input) no_ctx :: req_ctx where
  "no_ctx \<equiv> \<lparr>cx_Auth = [], cx_ReqID = [], cx_XForwardedFor = [], cx_OpTxProxyAuth = []\<rparr>"

lemma request_body_empty_req: "\<exists>body. request_body [empty_req m] = Done body"
  by (simp add: request_body_def empty_req_def marshal_RPCReq_def compact_def must_def)

lemma doForward_refused:
  assumes "m \<noteq> ConsensusGetReceiptsMethod"
  shows "\<exists>h'. doForward scripted ctx b [empty_req m] False (quiet []) =
    Done (network_error scripted h' (network_request scripted (quiet []) b), [empty_req m], h',
      Inl (Wrapf ''error in backend request'' (Some (Errorf ''connection refused'')))) \<and>
    sc_now h' = 0 \<and> length (sc_log h') = 1 \<and> sc_replies h' = []"
proof -
  obtain body where "request_body [empty_req m] = Done body" using request_body_empty_req by blast
  moreover have "translate scripted t False [empty_req m] = Done ([empty_req m], [], None)" for t
    using assms by (simp add: translate_def empty_req_def)
  ultimately show ?thesis
    by (simp add: doForward_def Let_def DoLimited_def script_Do_def quiet_def wrapErr_def)
qed

lemma null_body: "read_limited [(''null'', Some EOF)] (maxResponseSize new_backend) = (''null'', None)"
  by (simp add: read_limited_def LimitReader_def LimitedReader_Read_def NewBackend_def Override_def)

lemma doForward_null:
  assumes "m \<noteq> ConsensusGetReceiptsMethod" and "maxResponseSize b = maxResponseSize new_backend"
  shows "\<exists>b' h'. doForward scripted ctx b [empty_req m] isBatch (quiet [(7, Inr (null_reply 200))]) =
    Done (b', [empty_req m], h', Inr [Some zero_RPCRes])"
proof -
  obtain body where body: "request_body [empty_req m] = Done body" using request_body_empty_req by blast
  have tr: "translate scripted t isBatch [empty_req m] = Done ([empty_req m], [], None)" for t
    using assms(1) by (simp add: translate_def empty_req_def)
  have "json_parse ''null'' = Some JNull" by (rule json_text_parse) (rule json_text_literal)
  then have dec: "decode_responses scripted 1 ''null'' = Inr [Some zero_RPCRes]"
    by (simp add: decode_responses_def Unmarshal_RPCRes_def)
  have sz: "maxResponseSize (network_request scripted h b) = maxResponseSize b" for h b
    by (simp add: network_request_def)
  show ?thesis
    using tr body dec null_body assms(2)
    by (simp add: doForward_def Let_def DoLimited_def script_Do_def quiet_def null_reply_def
        handle_body_def sz sortBatchRPCResponse_def)
qed

text \<open>A receipts request for the latest block.\<close>

abbreviation (input) receipts_backend :: "(time \<times> bucket) list Backend" where
  "receipts_backend \<equiv> NewBackend scripted ''a'' ''u'' [] [WithConsensusReceiptTarget ''debug_getRawReceipts'']"

definition receipts_req :: RPCReq where
  "receipts_req = \<lparr>rq_JSONRPC = ''2.0'', rq_Method = ConsensusGetReceiptsMethod,
     rq_Params = json_encode (JArray [JString ''latest'']), rq_ID = []\<rparr>"

lemma Unmarshal_bnhs_latest: "Unmarshal_bnhs scripted (json_encode (JArray [JString ''latest''])) =
    Some [BlockNumberOrHashWithNumber (LatestBlockNumber geth)]"
proof -
  have "list_all2 json_text [enc_string ''latest''] [JString ''latest'']" by (simp add: json_text_string)
  from raw_elems_text [OF this] json_text_parse [OF json_text_array [OF this]] show ?thesis
    by (simp add: Unmarshal_bnhs_def gl.bnh_latest)
qed

lemma request_body_strings: "\<exists>body. request_body [receipts_req\<lparr>rq_Method := m, rq_Params := json_encode (JArray [JString s])\<rparr>] = Done body"
proof -
  have "list_all2 json_text [enc_string s] [JString s]" by (simp add: json_text_string)
  from json_text_parse [OF json_text_array [OF this]] show ?thesis
    by (simp add: request_body_def receipts_req_def marshal_RPCReq_def compact_def must_def)
qed

lemma receipts_refused:
  "\<exists>b' req h'. doForward scripted ctx receipts_backend [receipts_req] False (quiet []) =
     Done (b', [req], h', Inl (Wrapf ''error in backend request'' (Some (Errorf ''connection refused'')))) \<and>
     rq_Method req = ''debug_getRawReceipts''"
proof -
  let ?s = "bn_String geth (LatestBlockNumber geth)"
  let ?req = "receipts_req\<lparr>rq_Method := ''debug_getRawReceipts'', rq_Params := json_encode (JArray [JString ?s])\<rparr>"
  obtain body where "request_body [?req] = Done body" using request_body_strings by blast
  moreover have "receiptsTarget receipts_backend = ''debug_getRawReceipts''"
    by (simp add: NewBackend_def Override_def WithConsensusReceiptTarget_def)
  moreover have "translate scripted ''debug_getRawReceipts'' False [receipts_req] = Done ([?req], [[]], None)"
    using Unmarshal_bnhs_latest
    by (simp add: translate_def translate_req_def translated_params_def receipts_req_def Let_def
        ReceiptsTargetDebugGetRawReceipts_def BlockNumberOrHashWithNumber_def del: json_encode.simps)
  ultimately show ?thesis
    by (simp add: doForward_def Let_def DoLimited_def script_Do_def quiet_def wrapErr_def network_request_def
        del: json_encode.simps)
qed

lemma set_status_nil: "\<exists>r \<in> set res. \<forall>x. r = Some x \<longrightarrow> rs_Error x = None \<Longrightarrow>
    set_status code res = Panic ''invalid memory address or nil pointer dereference''"
proof (induction code res rule: set_status.induct)
  case (2 code r res)
  then show ?case by (cases "rs_Error r") (auto split: RPCErrPtr.split)
qed auto

text \<open>A network that never returns status 400 or a nil response.\<close>

definition well_behaved :: "('m, 'h) env \<Rightarrow> int \<Rightarrow> bool" where
  "well_behaved E m \<longleftrightarrow> (\<forall>req h h' p. http_Do E req h = (h', Inr p) \<longrightarrow>
     hp_StatusCode p \<noteq> 400 \<and>
     (\<forall>resB res. read_limited (hp_Body p) m = (resB, None) \<longrightarrow>
        Unmarshal_RPCRess (fnum E) resB = Some res \<longrightarrow> None \<notin> set res))"

lemma enrich_total: "None \<notin> set res \<Longrightarrow> \<exists>res'. enrich ids target res = Done res'"
  by (induction ids target res rule: enrich.induct) auto

lemma handle_body_total:
  assumes "hp_StatusCode httpRes = 200" and "distinct (map rq_ID reqs)"
    and "\<And>resB res. read_limited (hp_Body httpRes) (maxResponseSize b) = (resB, None) \<Longrightarrow>
      Unmarshal_RPCRess (fnum E) resB = Some res \<Longrightarrow> None \<notin> set res"
  shows "\<exists>ret. handle_body E b reqs ids httpRes d h = Done ret"
proof -
  obtain resB err where rd: "read_limited (hp_Body httpRes) (maxResponseSize b) = (resB, err)"
    by (cases "read_limited (hp_Body httpRes) (maxResponseSize b)")
  show ?thesis
  proof (cases "err = None \<and> (\<exists>res. decode_responses E (length reqs) resB = Inr res)")
    case True
    then obtain res where dec: "decode_responses E (length reqs) resB = Inr res" and err: "err = None" by blast
    have "None \<notin> set res"
      using dec assms(3) [OF rd [unfolded err]]
      by (auto simp: decode_responses_def Let_def split: if_splits option.splits sum.splits)
    then obtain res1 where "enrich ids (receiptsTarget (record_latency E h d b)) res = Done res1"
      using enrich_total by blast
    moreover have "None \<notin> set res1" using enrich_result [OF calculation] by blast
    ultimately show ?thesis
      using rd dec err assms(1,2) by (simp add: handle_body_def sortBatchRPCResponse_def)
  next
    case False
    then show ?thesis
      using rd by (cases "err = None"; cases "decode_responses E (length reqs) resB")
        (auto simp: handle_body_def split: prod.splits)
  qed
qed

lemma request_body_total: "\<forall>req \<in> set reqs. marshal_RPCReq req \<noteq> None \<Longrightarrow> \<exists>body. request_body reqs = Done body"
proof -
  assume a: "\<forall>req \<in> set reqs. marshal_RPCReq req \<noteq> None"
  then have "list_all2 (\<lambda>x y. x = Some y) (map marshal_RPCReq reqs) (map (the \<circ> marshal_RPCReq) reqs)"
    by (auto simp: list_all2_map1 list_all2_map2 intro!: list.rel_refl_strong)
  then have "sequence (map marshal_RPCReq reqs) = Some (map (the \<circ> marshal_RPCReq) reqs)"
    by (simp add: sequence_Some)
  with a show ?thesis by (auto simp: request_body_def must_def split: list.split)
qed

lemma doForward_total:
  assumes "well_behaved E (maxResponseSize b)" and "reqs \<noteq> []" and "distinct (map rq_ID reqs)"
    and "\<forall>req \<in> set reqs. marshal_RPCReq req \<noteq> None \<and> rq_Method req \<noteq> ConsensusGetReceiptsMethod"
  shows "\<exists>b' h' r. doForward E ctx b reqs isBatch h = Done (b', reqs, h', r)"
proof -
  let ?b = "network_request E h b"
  have tr: "translate E t isBatch reqs = Done (reqs, [], None)" for t
    using assms(4) by (auto simp: translate_def translate_reqs_none list_ex_iff)
  obtain body where body: "request_body reqs = Done body" using request_body_total assms(4) by blast
  obtain h1 r1 where d: "DoLimited E (build_request ?b ctx body) h = (h1, r1)"
    by (cases "DoLimited E (build_request ?b ctx body) h")
  show ?thesis
  proof (cases r1)
    case (Inr httpRes)
    with d obtain h2 h3 where "http_Do E (build_request ?b ctx body) h2 = (h3, Inr httpRes)"
      by (auto simp: DoLimited_def Let_def split: prod.splits option.splits)
    with assms(1) have wb: "hp_StatusCode httpRes \<noteq> 400"
        "\<And>resB res. read_limited (hp_Body httpRes) (maxResponseSize ?b) = (resB, None) \<Longrightarrow>
          Unmarshal_RPCRess (fnum E) resB = Some res \<Longrightarrow> None \<notin> set res"
      unfolding well_behaved_def by (auto simp: network_request_def)
    show ?thesis
    proof (cases "hp_StatusCode httpRes = 200")
      case True
      obtain b2 r2 where "handle_body E ?b reqs [] httpRes (net_clock E h1 - net_clock E h) h1 = Done (b2, r2)"
        using handle_body_total [OF True assms(3) wb(2)] by fast
      with tr body d Inr True assms(2) show ?thesis
        by (simp add: doForward_def Let_def split: option.split)
    qed (use tr body d Inr assms(2) wb(1) in \<open>simp add: doForward_def Let_def split: option.split\<close>)
  qed (use tr body d in \<open>simp add: doForward_def Let_def split: option.split\<close>)
qed

lemma Forward_loop_total:
  assumes "well_behaved E (maxResponseSize b)" and "reqs \<noteq> []" and "distinct (map rq_ID reqs)"
    and "\<forall>req \<in> set reqs. marshal_RPCReq req \<noteq> None \<and> rq_Method req \<noteq> ConsensusGetReceiptsMethod"
  shows "\<exists>ret. Forward_loop E ctx isBatch n i lastError b reqs h = Done ret"
  using assms(1)
proof (induction n arbitrary: i lastError b h)
  case (Suc n)
  obtain b1 h1 r where d: "doForward E ctx b reqs isBatch h = Done (b1, reqs, h1, r)"
    using doForward_total [OF Suc.prems assms(2-4)] by blast
  have "well_behaved E (maxResponseSize b1)"
    using same_config_fields(4) [OF doForward_config [OF d]] Suc.prems by simp
  note IH = Suc.IH [OF this]
  obtain h2 dd where bo: "calcBackoff E i h1 = (h2, dd)" by (cases "calcBackoff E i h1")
  from d bo assms(2) IH show ?case by (cases r) auto
qed simp

definition scripted_null :: "((time \<times> bucket) list, script) env" where
  "scripted_null = scripted\<lparr>http_Do := (\<lambda>req h. (h, Inr (null_reply 200)))\<rparr>"

lemma scripted_null_well_behaved: "well_behaved scripted_null (maxResponseSize new_backend)"
proof -
  have "json_parse ''null'' = Some JNull" by (rule json_text_parse) (rule json_text_literal)
  then show ?thesis
    using null_body by (auto simp: well_behaved_def scripted_null_def null_reply_def Unmarshal_RPCRess_def)
qed

lemma null_decoded: "decode_responses L (length [req]) ''null'' = Inr [Some zero_RPCRes]"
proof -
  have "json_parse ''null'' = Some JNull" by (rule json_text_parse) (rule json_text_literal)
  then show ?thesis by (simp add: decode_responses_def Unmarshal_RPCRes_def)
qed

lemma accounts_NewBackend:
  assumes "network E minv"
  shows "accounts E minv t \<lparr>hi_net = [], hi_err = [], hi_lat = []\<rparr> (NewBackend E name rpc ws [])"
proof -
  have lm: "linked_hash_map (lhm E) minv" using assms by (simp add: network_def)
  have "window_rep (lhm E) minv t [] (NewSlidingWindow (lhm E) [WithBucketSize Second, WithWindowLength (5 * Minute)])"
    by (rule linked_hash_map.window_rep_New [OF lm]) simp_all
  moreover have "NewSlidingWindow (lhm E) [WithBucketSize Second, WithWindowLength (5 * Minute)] = NewSlidingWindow (lhm E) []"
    by (simp add: NewSlidingWindow_def WithBucketSize_def WithWindowLength_def Let_def)
  ultimately show ?thesis by (simp add: accounts_def NewBackend_def Override_def)
qed

lemma new_backend_healthy: "snd (IsHealthy scripted h new_backend)"
proof -
  note acc = accounts_NewBackend [OF scn.network_axioms, of "net_clock scripted h"]
  show ?thesis
    using scn.IsHealthy_value(1) [OF acc order_refl] scn.ErrorRate_value [OF acc order_refl]
    by (simp add: recent_of_def recent_def mean_def NewBackend_def Override_def to_duration_def)
qed

section \<open>Properties\<close>



text \<open>
  C14: one forwarding attempt is accounted for exactly once. It adds one request to the history of
  the backend; a response adds its latency; an error adds one error, unless the client or the
  size of the response caused it; nothing else of the backend changes.
\<close>

theorem doForward_accounting:
  assumes "network E minv" and "accounts E minv t H b" and "t \<le> net_clock E h"
    and "doForward E ctx b reqs isBatch h = Done (b', reqs', h', r)"
  shows "same_config b b' \<and>
    accounts E minv (net_clock E h')
      (let H' = H\<lparr>hi_net := hi_net H @ [(net_clock E h, 1)]\<rparr>
       in case r of
            Inr _ \<Rightarrow> H'\<lparr>hi_lat := hi_lat H @ [(net_clock E h', of_int (net_clock E h' - net_clock E h))]\<rparr>
          | Inl err \<Rightarrow> if uncounted (length reqs) err then H'
                       else H'\<lparr>hi_err := hi_err H @ [(net_clock E h', 1)]\<rparr>) b'"
  using network.doForward_accounts [OF assms] doForward_config [OF assms(4)] by (simp only: Let_def simp_thms)

lemma doForward_accounting_witness:
  "\<exists>b' h' e. accounts scripted (\<lambda>m. distinct (map fst m)) 0
     \<lparr>hi_net = [(0, 1)], hi_err = [(0, 1)], hi_lat = []\<rparr> b' \<and>
     doForward scripted no_ctx new_backend [empty_req ''eth_call''] False (quiet []) =
       Done (b', [empty_req ''eth_call''], h', Inl e)"
proof -
  have m: "''eth_call'' \<noteq> ConsensusGetReceiptsMethod" by (simp add: ConsensusGetReceiptsMethod_def)
  obtain h' where d: "doForward scripted no_ctx new_backend [empty_req ''eth_call''] False (quiet []) =
      Done (network_error scripted h' (network_request scripted (quiet []) new_backend), [empty_req ''eth_call''], h',
        Inl (Wrapf ''error in backend request'' (Some (Errorf ''connection refused''))))" "sc_now h' = 0"
    using doForward_refused [OF m, of no_ctx new_backend] by blast
  have "sc_now (quiet []) = 0" by (simp add: quiet_def)
  with doForward_accounting [OF scn.network_axioms accounts_NewBackend [OF scn.network_axioms, of 0] _ d(1)] d
  show ?thesis by (auto simp: uncounted_def Let_def)
qed

text \<open>
  C26: a forwarded batch is answered request by request. Whenever forwarding succeeds, after any
  number of retries, there is one response for each request, none of them nil, in the order of
  the requests; if every request has a response with its ID, the IDs agree position by position.
\<close>

theorem forward_answers_in_order:
  assumes "Forward E ctx b reqs isBatch h = Done (b', reqs', h', Inr res)"
  shows "length res = length reqs \<and> None \<notin> set res \<and> sorted (map (id_pos reqs) (res_IDs res)) \<and>
    (rq_ID ` set reqs \<subseteq> (rs_ID \<circ> the) ` set res \<longrightarrow> map (rs_ID \<circ> the) res = map rq_ID reqs)"
  using Forward_loop_answers [OF assms [unfolded Forward_def]]
  by (simp add: answers_def comp_def image_image)

lemma forward_answers_in_order_witness:
  "\<exists>b' h'. Forward scripted no_ctx new_backend [empty_req ''eth_call''] False (quiet [(7, Inr (null_reply 200))]) =
       Done (b', [empty_req ''eth_call''], h', Inr [Some zero_RPCRes]) \<and>
     map (rs_ID \<circ> the) [Some zero_RPCRes] = map rq_ID [empty_req ''eth_call'']"
proof -
  have m: "''eth_call'' \<noteq> ConsensusGetReceiptsMethod" by (simp add: ConsensusGetReceiptsMethod_def)
  have "maxRetries new_backend = 0" by (simp add: NewBackend_def Override_def)
  then obtain b' h' where f: "Forward scripted no_ctx new_backend [empty_req ''eth_call''] False
      (quiet [(7, Inr (null_reply 200))]) = Done (b', [empty_req ''eth_call''], h', Inr [Some zero_RPCRes])"
    using doForward_null [OF m refl, of no_ctx False] by (auto simp: Forward_def)
  from forward_answers_in_order [OF f] f show ?thesis by (auto simp: zero_RPCRes_def empty_req_def)
qed

text \<open>
  C27: retries are bounded. Forwarding ends, and sends at most one request more than the configured
  number of retries, whatever the network does.
\<close>

theorem forward_attempts_bounded:
  assumes "request_count E cnt" and "Forward E ctx b reqs isBatch h = Done (b', reqs', h', r)"
  shows "cnt h' \<le> cnt h + nat (maxRetries b + 1)"
  using request_count.cnt_Forward_loop [OF assms(1) assms(2) [unfolded Forward_def]] by (simp add: add.commute)

lemma forward_attempts_bounded_witness:
  "\<exists>b' h' e. Forward scripted no_ctx new_backend [empty_req ''eth_call''] False (quiet []) =
       Done (b', [empty_req ''eth_call''], h', Inl e) \<and> length (sc_log h') \<le> 1"
proof -
  have m: "''eth_call'' \<noteq> ConsensusGetReceiptsMethod" by (simp add: ConsensusGetReceiptsMethod_def)
  have r: "maxRetries new_backend = 0" by (simp add: NewBackend_def Override_def)
  then obtain b' h' e where f: "Forward scripted no_ctx new_backend [empty_req ''eth_call''] False (quiet []) =
      Done (b', [empty_req ''eth_call''], h', Inl e)"
    using doForward_refused [OF m, of no_ctx new_backend]
    by (auto simp: Forward_def calcBackoff_def sleepContext_def not_retried_def)
  from forward_attempts_bounded [OF scc.request_count_axioms f] f r show ?thesis by (auto simp: quiet_def)
qed

text \<open>
  C29: a retried or failed over receipts request is no longer translated. The first attempt
  overwrites the method, so the next one, on this or on another backend, finds nothing to
  translate and returns the result as it is instead of wrapping it with the method.
\<close>

theorem receipts_retry_not_translated:
  assumes "doForward E ctx b reqs False h = Done (b', reqs', h', Inl err)" and "\<not> uncounted (length reqs) err"
    and "receiptsTarget b \<noteq> ConsensusGetReceiptsMethod"
  shows "translate E target False reqs' = Done (reqs', [], None)"
  using assms(1)
proof (cases rule: doForward_cases)
  case (untranslated ids e)
  with translate_result(3) [OF untranslated(1)] assms(2) show ?thesis by simp
qed (use assms(3) translate_reqs_again in \<open>auto simp: translate_def\<close>)

lemma receipts_retry_not_translated_witness:
  "\<exists>b' req h' e. doForward scripted no_ctx receipts_backend [receipts_req] False (quiet []) =
       Done (b', [req], h', Inl e) \<and>
     rq_Method req = ''debug_getRawReceipts'' \<and>
     translate scripted ''debug_getRawReceipts'' False [req] = Done ([req], [], None)"
proof -
  obtain b' req h' where d: "doForward scripted no_ctx receipts_backend [receipts_req] False (quiet []) =
      Done (b', [req], h', Inl (Wrapf ''error in backend request'' (Some (Errorf ''connection refused''))))"
      "rq_Method req = ''debug_getRawReceipts''"
    using receipts_refused by blast
  have "translate scripted ''debug_getRawReceipts'' False [req] = Done ([req], [], None)"
    by (rule receipts_retry_not_translated [OF d(1)])
      (simp_all add: uncounted_def NewBackend_def Override_def ConsensusGetReceiptsMethod_def
        WithConsensusReceiptTarget_def)
  with d show ?thesis by blast
qed



text \<open>
  C30: a reply with status 400 whose JSON has no error crashes the proxy. The status code is written
  through the nil error pointer of the response.
\<close>

theorem bad_request_without_error_panics:
  assumes "translate E (receiptsTarget b) isBatch reqs = Done (reqs', ids, None)" and "reqs' \<noteq> []"
    and "request_body reqs' = Done body" and "newRequest_err E (rpcURL b) = None"
    and "DoLimited E (build_request (network_request E h b) ctx body) h = (h', Inr httpRes)"
    and "hp_StatusCode httpRes = 400"
    and "read_limited (hp_Body httpRes) (maxResponseSize b) = (resB, None)"
    and "decode_responses E (length reqs') resB = Inr res"
    and "\<exists>r \<in> set res. \<forall>x. r = Some x \<longrightarrow> rs_Error x = None"
  shows "doForward E ctx b reqs isBatch h = Panic ''invalid memory address or nil pointer dereference''"
proof -
  have cfg: "receiptsTarget (network_request E h b) = receiptsTarget b" "rpcURL (network_request E h b) = rpcURL b"
      "maxResponseSize (network_request E h b) = maxResponseSize b"
    by (simp_all add: network_request_def)
  show ?thesis
    using assms set_status_nil [OF assms(9), of 400]
    by (simp add: doForward_def Let_def cfg handle_body_def)
qed

lemma bad_request_without_error_panics_witness:
  "doForward scripted no_ctx new_backend [empty_req ''eth_call''] False (quiet [(7, Inr (null_reply 400))]) =
     Panic ''invalid memory address or nil pointer dereference''"
proof -
  have m: "''eth_call'' \<noteq> ConsensusGetReceiptsMethod" by (simp add: ConsensusGetReceiptsMethod_def)
  obtain body where body: "request_body [empty_req ''eth_call''] = Done body" using request_body_empty_req by blast
  show ?thesis
    by (rule bad_request_without_error_panics [OF _ _ body _ _ _ _ null_decoded, where httpRes = "null_reply 400"])
      (simp_all add: translate_def empty_req_def m DoLimited_def script_Do_def quiet_def null_reply_def
        null_body zero_RPCRes_def)
qed

end
