(* ===== verification/Consensus_Tracker.thy ===== *)
theory Consensus_Tracker
  imports Eth_Lib
begin

text \<open>
  The consensus trackers of \<open>proxyd/consensus_tracker.go\<close>: where the poller keeps the agreed block
  numbers, in memory or in a Redis shared by several proxies, one of which is the leader.

  Redis and its lock (redsync) are an argument \<open>R\<close> over a state \<open>'r\<close>. A lock is held by the value
  that \<open>Lock\<close> drew for it. \<open>Extend\<close> and \<open>Unlock\<close> return whether they succeeded; the code treats
  an error like a failure.
\<close>

section \<open>In memory\<close>

record ConsensusTrackerState =
  ts_Latest :: uint64
  ts_Safe :: uint64
  ts_Finalized :: uint64

type_synonym InMemoryConsensusTracker = ConsensusTrackerState

definition NewInMemoryConsensusTracker :: InMemoryConsensusTracker where
  "NewInMemoryConsensusTracker = \<lparr>ts_Latest = 0, ts_Safe = 0, ts_Finalized = 0\<rparr>"

definition tracker_update :: "ConsensusTrackerState \<Rightarrow> InMemoryConsensusTracker \<Rightarrow> InMemoryConsensusTracker" where
  "tracker_update s ct = ct\<lparr>ts_Latest := ts_Latest s, ts_Safe := ts_Safe s, ts_Finalized := ts_Finalized s\<rparr>"

definition Valid :: "InMemoryConsensusTracker \<Rightarrow> bool" where
  "Valid ct \<longleftrightarrow> ts_Latest ct > 0 \<and> ts_Safe ct > 0 \<and> ts_Finalized ct > 0"

definition Behind :: "InMemoryConsensusTracker \<Rightarrow> InMemoryConsensusTracker \<Rightarrow> bool" where
  "Behind ct other \<longleftrightarrow> ts_Latest ct < ts_Latest other \<or> ts_Safe ct < ts_Safe other \<or>
     ts_Finalized ct < ts_Finalized other"

section \<open>Shared\<close>

datatype redis_get = GetNil | GetErr error | GetVal string

text \<open>\<open>u64_UnmarshalJSON\<close> is the decoder of \<open>hexutil.Uint64\<close>, \<open>hostname\<close> the environment variable.\<close>

record 'r redis_lib =
  rds_Get :: "string \<Rightarrow> 'r \<Rightarrow> 'r \<times> redis_get"
  rds_Set :: "string \<Rightarrow> string \<Rightarrow> duration \<Rightarrow> 'r \<Rightarrow> 'r \<times> error option"
  mutex_Lock :: "string \<Rightarrow> duration \<Rightarrow> 'r \<Rightarrow> 'r \<times> (error + string)"
  mutex_Extend :: "string \<Rightarrow> string \<Rightarrow> duration \<Rightarrow> 'r \<Rightarrow> 'r \<times> bool"
  mutex_Unlock :: "string \<Rightarrow> string \<Rightarrow> 'r \<Rightarrow> 'r \<times> bool"
  u64_UnmarshalJSON :: "bytes \<Rightarrow> uint64 option"
  hostname :: string

text \<open>The lock a tracker has taken: its name, value and expiry.\<close>

record RedisConsensusTracker =
  rt_namespace :: string
  rt_redlock :: "(string \<times> string \<times> duration) option"
  rt_lockPeriod :: duration
  rt_heartbeatInterval :: duration
  rt_leader :: bool
  rt_leaderName :: string
  rt_local :: InMemoryConsensusTracker
  rt_remote :: InMemoryConsensusTracker

type_synonym RedisConsensusTrackerOpt = "RedisConsensusTracker \<Rightarrow> RedisConsensusTracker"

definition WithLockPeriod :: "duration \<Rightarrow> RedisConsensusTrackerOpt" where
  "WithLockPeriod d ct = ct\<lparr>rt_lockPeriod := d\<rparr>"

definition WithHeartbeatInterval :: "duration \<Rightarrow> RedisConsensusTrackerOpt" where
  "WithHeartbeatInterval d ct = ct\<lparr>rt_heartbeatInterval := d\<rparr>"

definition NewRedisConsensusTracker :: "string \<Rightarrow> RedisConsensusTrackerOpt list \<Rightarrow> RedisConsensusTracker" where
  "NewRedisConsensusTracker namespace opts =
     fold (\<lambda>opt ct. opt ct) opts
       \<lparr>rt_namespace = namespace, rt_redlock = None, rt_lockPeriod = 30 * Second,
        rt_heartbeatInterval = 2 * Second, rt_leader = False, rt_leaderName = [],
        rt_local = NewInMemoryConsensusTracker, rt_remote = NewInMemoryConsensusTracker\<rparr>"

definition tracker_key :: "RedisConsensusTracker \<Rightarrow> string \<Rightarrow> string" where
  "tracker_key ct tag = ''consensus:'' @ rt_namespace ct @ '':'' @ tag"

definition marshal_state :: "'a lib_scheme \<Rightarrow> ConsensusTrackerState \<Rightarrow> bytes" where
  "marshal_state L s = enc_fields
     [(''latest'', enc_string (hex_String L (ts_Latest s))),
      (''safe'', enc_string (hex_String L (ts_Safe s))),
      (''finalized'', enc_string (hex_String L (ts_Finalized s)))]"

fun u64_field :: "'r redis_lib \<Rightarrow> bytes list \<Rightarrow> uint64 \<Rightarrow> uint64 option" where
  "u64_field R [] acc = Some acc"
| "u64_field R (raw # rs) acc =
     (case u64_UnmarshalJSON R raw of None \<Rightarrow> None | Some n \<Rightarrow> u64_field R rs n)"

definition Unmarshal_state :: "'r redis_lib \<Rightarrow> bytes \<Rightarrow> ConsensusTrackerState option" where
  "Unmarshal_state R body =
     (case json_parse body of
        Some JNull \<Rightarrow> Some NewInMemoryConsensusTracker
      | _ \<Rightarrow>
          (case raw_members body of
             None \<Rightarrow> None
           | Some ms \<Rightarrow>
               (case (u64_field R (field_raws ''latest'' ms) 0, u64_field R (field_raws ''safe'' ms) 0,
                      u64_field R (field_raws ''finalized'' ms) 0) of
                  (Some l, Some s, Some f) \<Rightarrow> Some \<lparr>ts_Latest = l, ts_Safe = s, ts_Finalized = f\<rparr>
                | _ \<Rightarrow> None)))"

definition postPayload ::
  "'a lib_scheme \<Rightarrow> 'r redis_lib \<Rightarrow> string \<Rightarrow> RedisConsensusTracker \<Rightarrow> 'r \<Rightarrow> RedisConsensusTracker \<times> 'r" where
  "postPayload L R mutexVal ct r =
     (let jsonState = marshal_state L (rt_local ct);
          (r, err) = rds_Set R (tracker_key ct (''state:'' @ mutexVal)) jsonState (rt_lockPeriod ct) r
      in if err \<noteq> None then (ct\<lparr>rt_leader := False\<rparr>, r)
         else
           (let leader = hostname R;
                (r, err) = rds_Set R (tracker_key ct (''leader:'' @ mutexVal)) leader (rt_lockPeriod ct) r
            in if err \<noteq> None then (ct\<lparr>rt_leader := False\<rparr>, r)
               else (ct\<lparr>rt_leaderName := leader, rt_remote := tracker_update (rt_local ct) (rt_remote ct)\<rparr>, r)))"

text \<open>Giving up the lock; a tracker that is not able to stays the leader.\<close>

definition release_lock :: "'r redis_lib \<Rightarrow> RedisConsensusTracker \<Rightarrow> 'r \<Rightarrow> (RedisConsensusTracker \<times> 'r) outcome" where
  "release_lock R ct r =
     (case rt_redlock ct of
        None \<Rightarrow> Panic ''invalid memory address or nil pointer dereference''
      | Some (name, v, _) \<Rightarrow>
          (let (r, ok) = mutex_Unlock R name v r
           in Done (if \<not> ok then ct else ct\<lparr>rt_leader := False\<rparr>, r)))"

definition lead :: "'a lib_scheme \<Rightarrow> 'r redis_lib \<Rightarrow> string \<Rightarrow> RedisConsensusTracker \<Rightarrow> 'r
    \<Rightarrow> (RedisConsensusTracker \<times> 'r) outcome" where
  "lead L R val ct r =
     (case rt_redlock ct of
        None \<Rightarrow> Panic ''invalid memory address or nil pointer dereference''
      | Some (name, v, expiry) \<Rightarrow>
          (let (r, ok) = mutex_Extend R name v expiry r
           in if \<not> ok then release_lock R ct r else Done (postPayload L R val ct r)))"

definition follow :: "'r redis_lib \<Rightarrow> string \<Rightarrow> RedisConsensusTracker \<Rightarrow> 'r \<Rightarrow> RedisConsensusTracker \<times> 'r" where
  "follow R val ct r =
     (let (r, got) = rds_Get R (tracker_key ct (''leader:'' @ val)) r
      in case got of
           GetErr _ \<Rightarrow> (ct, r)
         | _ \<Rightarrow>
             (let leaderName = (case got of GetVal s \<Rightarrow> s | _ \<Rightarrow> []);
                  ct = ct\<lparr>rt_leaderName := leaderName\<rparr>;
                  (r, got) = rds_Get R (tracker_key ct (''state:'' @ val)) r
              in case got of
                   GetErr _ \<Rightarrow> (ct, r)
                 | GetNil \<Rightarrow> (ct, r)
                 | GetVal s \<Rightarrow>
                     if s = [] then (ct, r)
                     else (case Unmarshal_state R s of
                             None \<Rightarrow> (ct, r)
                           | Some state \<Rightarrow> (ct\<lparr>rt_remote := tracker_update state (rt_remote ct)\<rparr>, r))))"

definition elect :: "'a lib_scheme \<Rightarrow> 'r redis_lib \<Rightarrow> RedisConsensusTracker \<Rightarrow> 'r \<Rightarrow> RedisConsensusTracker \<times> 'r" where
  "elect L R ct r =
     (if \<not> Valid (rt_local ct) then (ct, r)
      else if Valid (rt_remote ct) \<and> Behind (rt_local ct) (rt_remote ct) then (ct, r)
      else
        (let key = tracker_key ct ''mutex'';
             (r, locked) = mutex_Lock R key (rt_lockPeriod ct) r
         in case locked of
              Inl _ \<Rightarrow> (ct\<lparr>rt_leader := False\<rparr>, r)
            | Inr v \<Rightarrow> postPayload L R v (ct\<lparr>rt_redlock := Some (key, v, rt_lockPeriod ct), rt_leader := True\<rparr>) r))"

definition stateHeartbeat :: "'a lib_scheme \<Rightarrow> 'r redis_lib \<Rightarrow> RedisConsensusTracker \<Rightarrow> 'r
    \<Rightarrow> (RedisConsensusTracker \<times> 'r) outcome" where
  "stateHeartbeat L R ct r =
     (let (r, got) = rds_Get R (tracker_key ct ''mutex'') r
      in case got of
           GetErr _ \<Rightarrow> if rt_leader ct then release_lock R ct r else Done (ct, r)
         | _ \<Rightarrow>
             (let val = (case got of GetVal s \<Rightarrow> s | _ \<Rightarrow> [])
              in if val \<noteq> [] then
                   (if rt_leader ct then lead L R val ct r else Done (follow R val ct r))
                 else Done (elect L R ct r)))"

section \<open>The interface of the poller\<close>

datatype ConsensusTracker = InMemory InMemoryConsensusTracker | Redis RedisConsensusTracker

fun GetLatestBlockNumber :: "ConsensusTracker \<Rightarrow> uint64" where
  "GetLatestBlockNumber (InMemory ct) = ts_Latest ct"
| "GetLatestBlockNumber (Redis ct) = ts_Latest (rt_remote ct)"

fun GetSafeBlockNumber :: "ConsensusTracker \<Rightarrow> uint64" where
  "GetSafeBlockNumber (InMemory ct) = ts_Safe ct"
| "GetSafeBlockNumber (Redis ct) = ts_Safe (rt_remote ct)"

fun GetFinalizedBlockNumber :: "ConsensusTracker \<Rightarrow> uint64" where
  "GetFinalizedBlockNumber (InMemory ct) = ts_Finalized ct"
| "GetFinalizedBlockNumber (Redis ct) = ts_Finalized (rt_remote ct)"

fun SetLatestBlockNumber :: "uint64 \<Rightarrow> ConsensusTracker \<Rightarrow> ConsensusTracker" where
  "SetLatestBlockNumber n (InMemory ct) = InMemory (ct\<lparr>ts_Latest := n\<rparr>)"
| "SetLatestBlockNumber n (Redis ct) = Redis (ct\<lparr>rt_local := (rt_local ct)\<lparr>ts_Latest := n\<rparr>\<rparr>)"

fun SetSafeBlockNumber :: "uint64 \<Rightarrow> ConsensusTracker \<Rightarrow> ConsensusTracker" where
  "SetSafeBlockNumber n (InMemory ct) = InMemory (ct\<lparr>ts_Safe := n\<rparr>)"
| "SetSafeBlockNumber n (Redis ct) = Redis (ct\<lparr>rt_local := (rt_local ct)\<lparr>ts_Safe := n\<rparr>\<rparr>)"

fun SetFinalizedBlockNumber :: "uint64 \<Rightarrow> ConsensusTracker \<Rightarrow> ConsensusTracker" where
  "SetFinalizedBlockNumber n (InMemory ct) = InMemory (ct\<lparr>ts_Finalized := n\<rparr>)"
| "SetFinalizedBlockNumber n (Redis ct) = Redis (ct\<lparr>rt_local := (rt_local ct)\<lparr>ts_Finalized := n\<rparr>\<rparr>)"

section \<open>The contract of Redis\<close>

text \<open>
  As long as Redis answers and no key expires: a value that was set is read back, a lock is a key
  that holds the value its owner drew, and only the owner can extend or release it. Block numbers
  are read back as they were printed.
\<close>

locale redis_store =
  fixes L :: "'a lib_scheme" and R :: "'r redis_lib" and content :: "'r \<Rightarrow> string \<Rightarrow> string option"
  assumes get: "rds_Get R k r = (r, case content r k of None \<Rightarrow> GetNil | Some v \<Rightarrow> GetVal v)"
    and set: "rds_Set R k v d r = (r', None) \<Longrightarrow> content r' = (content r)(k \<mapsto> v)"
    and lock: "mutex_Lock R k d r = (r', Inr v) \<Longrightarrow> content r k = None \<and> content r' = (content r)(k \<mapsto> v) \<and> v \<noteq> []"
    and extend_owner: "content r k = Some v \<Longrightarrow>
      \<exists>r'. mutex_Extend R k v d r = (r', True) \<and> content r' = content r"
    and extend: "content r k \<noteq> Some v \<Longrightarrow> mutex_Extend R k v d r = (r, False)"
    and unlock: "content r k \<noteq> Some v \<Longrightarrow> mutex_Unlock R k v r = (r, False)"
    and u64: "u64_UnmarshalJSON R (enc_string (hex_String L n)) = Some n"
begin

lemma state_roundtrip: "Unmarshal_state R (marshal_state L s) = Some s"
proof -
  let ?fs = "[(''latest'', enc_string (hex_String L (ts_Latest s))), (''safe'', enc_string (hex_String L (ts_Safe s))),
      (''finalized'', enc_string (hex_String L (ts_Finalized s)))]"
  let ?vs = "[JString (hex_String L (ts_Latest s)), JString (hex_String L (ts_Safe s)), JString (hex_String L (ts_Finalized s))]"
  have texts: "list_all2 (\<lambda>f. json_text (snd f)) ?fs ?vs" by (simp add: json_text_string)
  have "field_raws ''latest'' ?fs = [enc_string (hex_String L (ts_Latest s))]"
       "field_raws ''safe'' ?fs = [enc_string (hex_String L (ts_Safe s))]"
       "field_raws ''finalized'' ?fs = [enc_string (hex_String L (ts_Finalized s))]"
    by (simp_all add: field_raws_def to_lower_def)
  then show ?thesis
    using raw_members_text [OF texts] json_text_parse [OF json_text_members [OF texts]]
    by (simp add: Unmarshal_state_def marshal_state_def u64)
qed

lemma post_then_follow:
  assumes "postPayload L R v ct r = (ct', r')" and "rt_leader ct'" and "rt_namespace ct = rt_namespace other"
  shows "rt_remote ct' = rt_local ct" and "rt_remote (fst (follow R v other r')) = rt_local ct"
    and "rt_leaderName (fst (follow R v other r')) = rt_leaderName ct'" and "rt_leader ct"
proof -
  obtain r1 e1 where s1: "rds_Set R (tracker_key ct (''state:'' @ v)) (marshal_state L (rt_local ct)) (rt_lockPeriod ct) r = (r1, e1)"
    by (cases "rds_Set R (tracker_key ct (''state:'' @ v)) (marshal_state L (rt_local ct)) (rt_lockPeriod ct) r")
  obtain r2 e2 where s2: "rds_Set R (tracker_key ct (''leader:'' @ v)) (hostname R) (rt_lockPeriod ct) r1 = (r2, e2)"
    by (cases "rds_Set R (tracker_key ct (''leader:'' @ v)) (hostname R) (rt_lockPeriod ct) r1")
  have ok: "e1 = None" "e2 = None" and ct': "ct' = ct\<lparr>rt_leaderName := hostname R, rt_remote := tracker_update (rt_local ct) (rt_remote ct)\<rparr>"
    and r': "r' = r2" and "rt_leader ct"
    using assms(1,2) s1 s2 by (auto simp: postPayload_def split: if_splits)
  then show "rt_leader ct" by blast
  show "rt_remote ct' = rt_local ct" by (simp add: ct' tracker_update_def)
  have c: "content r2 (tracker_key ct (''state:'' @ v)) = Some (marshal_state L (rt_local ct))"
      "content r2 (tracker_key ct (''leader:'' @ v)) = Some (hostname R)"
    using set [OF s1 [unfolded ok]] set [OF s2 [unfolded ok]] by (auto simp: tracker_key_def)
  have k: "tracker_key other t = tracker_key ct t" "tracker_key (other\<lparr>rt_leaderName := n\<rparr>) t = tracker_key ct t" for t n
    using assms(3) by (simp_all add: tracker_key_def)
  have ne: "marshal_state L s \<noteq> []" for s by (simp add: marshal_state_def enc_fields_def)
  show "rt_remote (fst (follow R v other r')) = rt_local ct"
    and "rt_leaderName (fst (follow R v other r')) = rt_leaderName ct'"
    using c by (simp_all add: follow_def get k r' ct' ne state_roundtrip tracker_update_def)
qed

end

text \<open>A store that satisfies it: lock values are drawn in order.\<close>

record kv_store =
  kv_map :: "string \<rightharpoonup> string"
  kv_next :: nat

definition kv_Lock :: "string \<Rightarrow> duration \<Rightarrow> kv_store \<Rightarrow> kv_store \<times> (error + string)" where
  "kv_Lock k d r =
     (if kv_map r k = None
      then (let v = replicate (Suc (kv_next r)) CHR ''x''
            in (r\<lparr>kv_map := (kv_map r)(k \<mapsto> v), kv_next := Suc (kv_next r)\<rparr>, Inr v))
      else (r, Inl (Errorf ''lock already taken'')))"

definition kv_redis :: "kv_store redis_lib" where
  "kv_redis = \<lparr>rds_Get = (\<lambda>k r. (r, case kv_map r k of None \<Rightarrow> GetNil | Some v \<Rightarrow> GetVal v)),
     rds_Set = (\<lambda>k v d r. (r\<lparr>kv_map := (kv_map r)(k \<mapsto> v)\<rparr>, None)),
     mutex_Lock = kv_Lock,
     mutex_Extend = (\<lambda>k v d r. (r, kv_map r k = Some v)),
     mutex_Unlock = (\<lambda>k v r. if kv_map r k = Some v then (r\<lparr>kv_map := (kv_map r)(k := None)\<rparr>, True) else (r, False)),
     u64_UnmarshalJSON = (\<lambda>raw. case json_parse raw of
         Some (JString t) \<Rightarrow> (case geth_Decode t of Inl _ \<Rightarrow> None | Inr n \<Rightarrow> Some n)
       | _ \<Rightarrow> None),
     hostname = ''proxyd-0''\<rparr>"

interpretation kv: redis_store geth kv_redis kv_map
proof
  show "u64_UnmarshalJSON kv_redis (enc_string (hex_String geth n)) = Some n" for n
    using gl.decode_String [of n] json_text_parse [OF json_text_string [of "hex_String geth n"]]
    by (simp add: kv_redis_def geth_def)
qed (auto simp: kv_redis_def kv_Lock_def Let_def split: if_splits)

section \<open>Heartbeats\<close>

text \<open>The lock a leader refers to is the one of its namespace.\<close>

definition redlock_ok :: "RedisConsensusTracker \<Rightarrow> bool" where
  "redlock_ok ct \<longleftrightarrow> (case rt_redlock ct of
       None \<Rightarrow> \<not> rt_leader ct
     | Some (name, v, d) \<Rightarrow> name = tracker_key ct ''mutex'')"

lemma postPayload_frame:
  assumes "postPayload L R v ct r = (ct', r')"
  shows "rt_redlock ct' = rt_redlock ct" "rt_namespace ct' = rt_namespace ct" "rt_leader ct' \<Longrightarrow> rt_leader ct"
    "rt_local ct' = rt_local ct"
  using assms by (auto simp: postPayload_def Let_def split: prod.splits if_splits)

lemma release_lock_frame:
  assumes "release_lock R ct r = Done (ct', r')"
  shows "rt_redlock ct' = rt_redlock ct" "rt_namespace ct' = rt_namespace ct" "rt_leader ct' \<Longrightarrow> rt_leader ct"
  using assms by (auto simp: release_lock_def split: prod.splits if_splits option.splits)

lemma follow_frame:
  "rt_redlock (fst (follow R v ct r)) = rt_redlock ct" "rt_namespace (fst (follow R v ct r)) = rt_namespace ct"
  "rt_leader (fst (follow R v ct r)) = rt_leader ct"
  by (auto simp: follow_def Let_def split: prod.splits redis_get.splits option.splits)

lemma redlock_ok_cong: "rt_redlock ct' = rt_redlock ct \<Longrightarrow> rt_namespace ct' = rt_namespace ct \<Longrightarrow>
    (rt_leader ct' \<Longrightarrow> rt_leader ct) \<Longrightarrow> redlock_ok ct \<Longrightarrow> redlock_ok ct'"
  by (auto simp: redlock_ok_def tracker_key_def split: option.splits)

lemma release_lock_total: "redlock_ok ct \<Longrightarrow> rt_leader ct \<Longrightarrow> \<exists>ct' r'. release_lock R ct r = Done (ct', r')"
  by (auto simp: redlock_ok_def release_lock_def split: option.splits prod.splits)

lemma lead_result:
  assumes "redlock_ok ct" and "rt_leader ct"
  shows "\<exists>ct' r'. lead L R val ct r = Done (ct', r') \<and> redlock_ok ct'"
proof -
  obtain name v d where rl: "rt_redlock ct = Some (name, v, d)"
    using assms by (cases "rt_redlock ct") (auto simp: redlock_ok_def)
  obtain r1 ok where e: "mutex_Extend R name v d r = (r1, ok)" by (cases "mutex_Extend R name v d r")
  show ?thesis
  proof (cases ok)
    case True
    obtain ct' r' where p: "postPayload L R val ct r1 = (ct', r')" by (cases "postPayload L R val ct r1")
    have "redlock_ok ct'" using postPayload_frame [OF p] assms(1) by (blast intro: redlock_ok_cong)
    with p rl e True show ?thesis by (simp add: lead_def)
  next
    case False
    obtain ct' r' where l: "release_lock R ct r1 = Done (ct', r')" using release_lock_total [OF assms, of R r1] by blast
    have "redlock_ok ct'" using release_lock_frame [OF l] assms(1) by (blast intro: redlock_ok_cong)
    with l rl e False show ?thesis by (simp add: lead_def)
  qed
qed

lemma elect_result:
  assumes "redlock_ok ct" and "elect L R ct r = (ct', r')"
  shows "redlock_ok ct'"
    and "rt_leader ct' \<Longrightarrow> rt_leader ct \<or>
      Valid (rt_local ct) \<and> (Valid (rt_remote ct) \<longrightarrow> \<not> Behind (rt_local ct) (rt_remote ct))"
proof -
  let ?skip = "\<not> Valid (rt_local ct) \<or> Valid (rt_remote ct) \<and> Behind (rt_local ct) (rt_remote ct)"
  have skip: "elect L R ct r = (ct, r)" if ?skip using that by (simp add: elect_def disj_imp)
  obtain r1 l where m: "mutex_Lock R (tracker_key ct ''mutex'') (rt_lockPeriod ct) r = (r1, l)"
    by (cases "mutex_Lock R (tracker_key ct ''mutex'') (rt_lockPeriod ct) r")
  show "redlock_ok ct'"
  proof (cases ?skip)
    case False
    show ?thesis
    proof (cases l)
      case (Inr v)
      let ?ct = "ct\<lparr>rt_redlock := Some (tracker_key ct ''mutex'', v, rt_lockPeriod ct), rt_leader := True\<rparr>"
      have p: "postPayload L R v ?ct r1 = (ct', r')" using assms(2) False m Inr by (auto simp: elect_def Let_def)
      have "redlock_ok ?ct" by (simp add: redlock_ok_def tracker_key_def)
      then show ?thesis using postPayload_frame(1,2) [OF p] by (elim redlock_ok_cong [rotated -1]) simp_all
    next
      case (Inl e)
      then show ?thesis
        using assms False m by (auto simp: elect_def Let_def redlock_ok_def tracker_key_def split: option.splits)
    qed
  qed (use assms skip in simp)
  show "rt_leader ct' \<Longrightarrow> rt_leader ct \<or>
      Valid (rt_local ct) \<and> (Valid (rt_remote ct) \<longrightarrow> \<not> Behind (rt_local ct) (rt_remote ct))"
    using assms(2) skip by (cases ?skip) simp_all
qed

context redis_store begin

lemma post_keeps_lock:
  assumes "postPayload L R v ct r = (ct', r')"
  shows "rt_leader ct' \<Longrightarrow> content r' (tracker_key ct ''mutex'') = content r (tracker_key ct ''mutex'')"
proof -
  obtain r1 e1 where s1: "rds_Set R (tracker_key ct (''state:'' @ v)) (marshal_state L (rt_local ct)) (rt_lockPeriod ct) r = (r1, e1)"
    by (cases "rds_Set R (tracker_key ct (''state:'' @ v)) (marshal_state L (rt_local ct)) (rt_lockPeriod ct) r")
  obtain r2 e2 where s2: "rds_Set R (tracker_key ct (''leader:'' @ v)) (hostname R) (rt_lockPeriod ct) r1 = (r2, e2)"
    by (cases "rds_Set R (tracker_key ct (''leader:'' @ v)) (hostname R) (rt_lockPeriod ct) r1")
  assume "rt_leader ct'"
  with assms s1 s2 have ok: "e1 = None" "e2 = None" "r' = r2"
    by (auto simp: postPayload_def split: if_splits)
  show ?thesis
    using set [OF s1 [unfolded ok]] set [OF s2 [unfolded ok]] ok by (simp add: tracker_key_def)
qed

text \<open>A leader that holds the lock after its heartbeat has posted its state under the lock's value.\<close>

lemma heartbeat_posts:
  assumes "redlock_ok a" and "stateHeartbeat L R a r = Done (a', r')" and "rt_leader a'"
    and "rt_redlock a' = Some (name, v, d)" and "content r' (tracker_key a ''mutex'') = Some v" and "v \<noteq> []"
  shows "\<exists>ct r1. postPayload L R v ct r1 = (a', r') \<and> rt_local ct = rt_local a \<and> rt_namespace ct = rt_namespace a"
proof (cases "content r (tracker_key a ''mutex'') = None \<or> content r (tracker_key a ''mutex'') = Some []")
  case True
  then have e: "elect L R a r = (a', r')"
    using assms(2) by (auto simp: stateHeartbeat_def get)
  obtain r1 l where m: "mutex_Lock R (tracker_key a ''mutex'') (rt_lockPeriod a) r = (r1, l)"
    by (cases "mutex_Lock R (tracker_key a ''mutex'') (rt_lockPeriod a) r")
  have ns: "a' \<noteq> a \<or> r' \<noteq> r" using True assms(5,6) by auto
  then obtain w where w: "l = Inr w" and p: "postPayload L R w
      (a\<lparr>rt_redlock := Some (tracker_key a ''mutex'', w, rt_lockPeriod a), rt_leader := True\<rparr>) r1 = (a', r')"
    using e m assms(3) by (cases l) (auto simp: elect_def Let_def split: if_splits)
  have "w = v" using postPayload_frame(1) [OF p] assms(4) by simp
  with p show ?thesis
    by (intro exI [of _ "a\<lparr>rt_redlock := Some (tracker_key a ''mutex'', w, rt_lockPeriod a), rt_leader := True\<rparr>"]
        exI [of _ r1]) simp
next
  case False
  then obtain val where val: "content r (tracker_key a ''mutex'') = Some val" "val \<noteq> []" by auto
  show ?thesis
  proof (cases "rt_leader a")
    case True
    with assms(1) obtain w d' where rl: "rt_redlock a = Some (tracker_key a ''mutex'', w, d')"
      by (auto simp: redlock_ok_def split: option.splits)
    have hb: "lead L R val a r = Done (a', r')" using assms(2) val True by (simp add: stateHeartbeat_def get)
    show ?thesis
    proof (cases "val = w")
      case eq: True
      obtain r1 where "mutex_Extend R (tracker_key a ''mutex'') w d' r = (r1, True)"
        using extend_owner [of r "tracker_key a ''mutex''" w d'] val(1) eq by blast
      with hb rl have p: "postPayload L R val a r1 = (a', r')" by (simp add: lead_def)
      moreover have "v = val" using postPayload_frame(1) [OF p] rl assms(4) eq by simp
      ultimately show ?thesis by blast
    next
      case ne: False
      then have x: "content r (tracker_key a ''mutex'') \<noteq> Some w" using val by simp
      have "a' = a \<and> r' = r" using hb rl extend [OF x, of d'] unlock [OF x] by (simp add: lead_def release_lock_def)
      with rl assms(4,5) x show ?thesis by simp
    qed
  next
    case False
    with assms(2) val have "follow R val a r = (a', r')" by (simp add: stateHeartbeat_def get)
    then show ?thesis using assms(3) False follow_frame(3) [of R val a r] by simp
  qed
qed

lemma heartbeat_reaches:
  assumes "redlock_ok a" and "stateHeartbeat L R a r = Done (a', r')" and "rt_leader a'"
    and "rt_redlock a' = Some (name, v, d)" and "content r' (tracker_key a ''mutex'') = Some v" and "v \<noteq> []"
    and "\<not> rt_leader b" and "rt_namespace b = rt_namespace a"
  shows "\<exists>b' r''. stateHeartbeat L R b r' = Done (b', r'') \<and> rt_remote b' = rt_local a \<and>
    rt_remote a' = rt_local a \<and> rt_leaderName b' = rt_leaderName a' \<and> \<not> rt_leader b'"
proof -
  obtain ct r1 where p: "postPayload L R v ct r1 = (a', r')" "rt_local ct = rt_local a" "rt_namespace ct = rt_namespace b"
    using heartbeat_posts [OF assms(1-6)] assms(8) by auto
  have "tracker_key b ''mutex'' = tracker_key a ''mutex''" using assms(8) by (simp add: tracker_key_def)
  then have "stateHeartbeat L R b r' = Done (follow R v b r')"
    using assms(5-7) by (simp add: stateHeartbeat_def get)
  then show ?thesis
    using post_then_follow [OF p(1) assms(3) p(3)] p(2) follow_frame(3) [of R v b r'] assms(7)
    by (cases "follow R v b r'") auto
qed

end

section \<open>Properties\<close>



text \<open>
  C35: the proxies share one consensus state. After a leader's heartbeat that leaves it holding the
  lock, the next heartbeat of every follower of the same namespace makes the follower's state
  exactly what the leader's poller has found, and the leader serves the same.
\<close>

theorem leader_state_reaches_followers:
  assumes "redis_store L R content" and "redlock_ok a" and "stateHeartbeat L R a r = Done (a', r')"
    and "rt_leader a'" and "rt_redlock a' = Some (name, v, d)"
    and "content r' (tracker_key a ''mutex'') = Some v" and "v \<noteq> []"
    and "\<not> rt_leader b" and "rt_namespace b = rt_namespace a"
  shows "\<exists>b' r''. stateHeartbeat L R b r' = Done (b', r'') \<and>
    GetLatestBlockNumber (Redis b') = ts_Latest (rt_local a) \<and>
    GetSafeBlockNumber (Redis b') = ts_Safe (rt_local a) \<and>
    GetFinalizedBlockNumber (Redis b') = ts_Finalized (rt_local a) \<and>
    rt_remote a' = rt_local a \<and> rt_leaderName b' = rt_leaderName a'"
proof -
  obtain b' r'' where "stateHeartbeat L R b r' = Done (b', r'')" "rt_remote b' = rt_local a" "rt_remote a' = rt_local a"
      "rt_leaderName b' = rt_leaderName a'"
    using redis_store.heartbeat_reaches [OF assms(1), OF assms(2-)] by blast
  then show ?thesis by simp
qed

text \<open>A leader elected on an empty store.\<close>

definition polled :: RedisConsensusTracker where
  "polled = (NewRedisConsensusTracker ''main'' [])\<lparr>rt_local := \<lparr>ts_Latest = 9, ts_Safe = 7, ts_Finalized = 5\<rparr>\<rparr>"

lemma polled_elected:
  "\<exists>a' r'. stateHeartbeat geth kv_redis polled \<lparr>kv_map = Map.empty, kv_next = 0\<rparr> = Done (a', r') \<and> rt_leader a' \<and>
     rt_redlock a' = Some (''consensus:main:mutex'', ''x'', 30 * Second) \<and>
     kv_map r' (tracker_key polled ''mutex'') = Some ''x''"
  by (simp add: stateHeartbeat_def kv_redis_def elect_def polled_def NewRedisConsensusTracker_def Valid_def
      NewInMemoryConsensusTracker_def kv_Lock_def tracker_key_def postPayload_def Let_def)

lemma leader_state_reaches_followers_witness:
  "\<exists>a' r' b' r''. stateHeartbeat geth kv_redis polled \<lparr>kv_map = Map.empty, kv_next = 0\<rparr> = Done (a', r') \<and>
     stateHeartbeat geth kv_redis (NewRedisConsensusTracker ''main'' []) r' = Done (b', r'') \<and>
     GetLatestBlockNumber (Redis b') = 9"
proof -
  obtain a' r' where hb: "stateHeartbeat geth kv_redis polled \<lparr>kv_map = Map.empty, kv_next = 0\<rparr> = Done (a', r')"
      "rt_leader a'" "rt_redlock a' = Some (''consensus:main:mutex'', ''x'', 30 * Second)"
      "kv_map r' (tracker_key polled ''mutex'') = Some ''x''"
    using polled_elected by blast
  have ok: "redlock_ok polled" by (simp add: redlock_ok_def polled_def NewRedisConsensusTracker_def)
  have fo: "\<not> rt_leader (NewRedisConsensusTracker ''main'' [])"
    "rt_namespace (NewRedisConsensusTracker ''main'' []) = rt_namespace polled"
    by (simp_all add: polled_def NewRedisConsensusTracker_def)
  obtain b' r'' where b: "stateHeartbeat geth kv_redis (NewRedisConsensusTracker ''main'' []) r' = Done (b', r'')"
      "GetLatestBlockNumber (Redis b') = ts_Latest (rt_local polled)"
    using leader_state_reaches_followers [OF kv.redis_store_axioms, OF ok hb _ fo] by blast
  have "ts_Latest (rt_local polled) = 9" by (simp add: polled_def)
  with hb(1) b show ?thesis by metis
qed

text \<open>
  C36: a deposed leader does not step down. When another proxy has taken the lock, extending and
  releasing the old lock both fail, and the heartbeat returns without clearing the leader flag: the
  tracker stays as it is, does not read the new leader's state, and so serves the old one.
\<close>

theorem deposed_leader_stuck:
  assumes "redis_store L R content" and "rt_leader ct" and "rt_redlock ct = Some (tracker_key ct ''mutex'', v, d)"
    and "content r (tracker_key ct ''mutex'') = Some w" and "w \<noteq> v" and "w \<noteq> []"
  shows "stateHeartbeat L R ct r = Done (ct, r)"
proof -
  have x: "content r (tracker_key ct ''mutex'') \<noteq> Some v" using assms(4,5) by simp
  show ?thesis
    using assms(2-6) redis_store.get [OF assms(1)] redis_store.extend [OF assms(1), OF x] redis_store.unlock [OF assms(1), OF x]
    by (simp add: stateHeartbeat_def lead_def release_lock_def)
qed

lemma deposed_leader_stuck_witness:
  "let ct = polled\<lparr>rt_leader := True, rt_redlock := Some (tracker_key polled ''mutex'', ''x'', 30 * Second)\<rparr>;
       r = \<lparr>kv_map = [tracker_key polled ''mutex'' \<mapsto> ''xx''], kv_next = 2\<rparr>
   in stateHeartbeat geth kv_redis ct r = Done (ct, r)"
  unfolding Let_def
  by (rule deposed_leader_stuck [OF kv.redis_store_axioms, where v = "''x''" and w = "''xx''"])
    (simp_all add: tracker_key_def)

end
