(* ===== verification/Consensus_Poller.thy ===== *)
theory Consensus_Poller
  imports Backend Consensus_Tracker
begin

text \<open>
  The consensus poller of \<open>proxyd/consensus_poller.go\<close>, with the data of a backend group that it
  uses (\<open>proxyd/backend.go\<close>).

  Backends are pointers: a reference \<open>bref\<close> into the store \<open>w_be\<close> of a world, which also holds the
  network. A group refers to its poller and the poller to its group; here the group is an argument
  of the poller's operations. An operation runs without interruption, and the goroutines of the
  poller interleave operations (\<open>poller_step\<close>). Where the code ranges over a map, the order is
  given by the argument \<open>ord\<close>, which may differ from range to range.
\<close>

section \<open>Backend groups\<close>

type_synonym bref = nat

record ('m, 'h) world =
  w_be :: "bref \<Rightarrow> 'm Backend"
  w_net :: 'h

record 'p BackendGroup =
  bg_Name :: string
  bg_Backends :: "bref list"
  WeightedRouting :: bool
  Consensus :: "'p option"
  FallbackBackends :: "(string \<times> bool) list"
  routingStrategy :: string
  multicallRPCErrorCheck :: bool

definition Fallbacks :: "('m, 'h) world \<Rightarrow> 'p BackendGroup \<Rightarrow> bref list" where
  "Fallbacks w bg = filter (\<lambda>a. map_of (FallbackBackends bg) (Name (w_be w a)) = Some True) (bg_Backends bg)"

definition Primaries :: "('m, 'h) world \<Rightarrow> 'p BackendGroup \<Rightarrow> bref list" where
  "Primaries w bg = filter (\<lambda>a. map_of (FallbackBackends bg) (Name (w_be w a)) = Some False) (bg_Backends bg)"

text \<open>Operations on a backend in the store.\<close>

definition be_update :: "bref \<Rightarrow> 'm Backend \<Rightarrow> ('m, 'h) world \<Rightarrow> ('m, 'h) world" where
  "be_update be b w = w\<lparr>w_be := (w_be w)(be := b)\<rparr>"

definition be_IsHealthy :: "('m, 'h) env \<Rightarrow> bref \<Rightarrow> ('m, 'h) world \<Rightarrow> ('m, 'h) world \<times> bool" where
  "be_IsHealthy E be w = (let (b, ok) = IsHealthy E (w_net w) (w_be w be) in (be_update be b w, ok))"

definition be_IsDegraded :: "('m, 'h) env \<Rightarrow> bref \<Rightarrow> ('m, 'h) world \<Rightarrow> ('m, 'h) world \<times> bool" where
  "be_IsDegraded E be w = (let (b, ok) = IsDegraded E (w_net w) (w_be w be) in (be_update be b w, ok))"

definition be_ForwardRPC ::
  "('m, 'h) env \<Rightarrow> req_ctx \<Rightarrow> bref \<Rightarrow> bytes \<Rightarrow> string \<Rightarrow> gojson list \<Rightarrow> ('m, 'h) world
    \<Rightarrow> (('m, 'h) world \<times> (error + RPCRes)) outcome" where
  "be_ForwardRPC E ctx be i method params w =
     obind (ForwardRPC E ctx (w_be w be) i method params (w_net w)) (\<lambda>(b, h, r).
       Done ((be_update be b w)\<lparr>w_net := h\<rparr>, r))"

definition be_error_Incr :: "('m, 'h) env \<Rightarrow> bref \<Rightarrow> ('m, 'h) world \<Rightarrow> ('m, 'h) world" where
  "be_error_Incr E be w =
     (let b = w_be w be
      in be_update be (b\<lparr>intermittentErrorsSlidingWindow :=
           sw_Incr (lhm E) (net_clock E (w_net w)) (intermittentErrorsSlidingWindow b)\<rparr>) w)"

section \<open>The state of the poller\<close>

record backendState =
  latestBlockNumber :: uint64
  latestBlockHash :: string
  safeBlockNumber :: uint64
  finalizedBlockNumber :: uint64
  peerCount :: uint64
  inSync :: bool
  lastUpdate :: time
  bannedUntil :: time

definition zero_state :: backendState where
  "zero_state = \<lparr>latestBlockNumber = 0, latestBlockHash = [], safeBlockNumber = 0, finalizedBlockNumber = 0,
     peerCount = 0, inSync = False, lastUpdate = 0, bannedUntil = 0\<rparr>"

definition bs_IsBanned :: "time \<Rightarrow> backendState \<Rightarrow> bool" where
  "bs_IsBanned now bs \<longleftrightarrow> now < bannedUntil bs"

datatype ConsensusAsyncHandler = NoopAsyncHandler | PollerAsyncHandler

text \<open>The trackers and the handler are nil (\<open>None\<close>) until the constructor has run.\<close>

record 'h ConsensusPoller =
  cp_cancelled :: bool
  listeners :: "('h \<Rightarrow> 'h) list"
  cp_backendState :: "bref \<rightharpoonup> backendState"
  consensusGroup :: "bref list"
  tracker :: "ConsensusTracker option"
  asyncHandler :: "ConsensusAsyncHandler option"
  minPeerCount :: uint64
  banPeriod :: duration
  maxUpdateThreshold :: duration
  maxBlockLag :: uint64
  cp_maxBlockRange :: uint64
  interval :: duration

definition GetConsensusGroup :: "'h ConsensusPoller \<Rightarrow> bref list" where
  "GetConsensusGroup cp = consensusGroup cp"

definition cp_GetLatestBlockNumber :: "'h ConsensusPoller \<Rightarrow> uint64 outcome" where
  "cp_GetLatestBlockNumber cp = (case tracker cp of None \<Rightarrow> nil_deref | Some t \<Rightarrow> Done (GetLatestBlockNumber t))"

definition cp_GetSafeBlockNumber :: "'h ConsensusPoller \<Rightarrow> uint64 outcome" where
  "cp_GetSafeBlockNumber cp = (case tracker cp of None \<Rightarrow> nil_deref | Some t \<Rightarrow> Done (GetSafeBlockNumber t))"

definition cp_GetFinalizedBlockNumber :: "'h ConsensusPoller \<Rightarrow> uint64 outcome" where
  "cp_GetFinalizedBlockNumber cp = (case tracker cp of None \<Rightarrow> nil_deref | Some t \<Rightarrow> Done (GetFinalizedBlockNumber t))"

section \<open>Construction\<close>

type_synonym 'h ConsensusOpt = "'h ConsensusPoller \<Rightarrow> 'h ConsensusPoller"

definition WithTracker :: "ConsensusTracker \<Rightarrow> 'h ConsensusOpt" where
  "WithTracker t cp = cp\<lparr>tracker := Some t\<rparr>"

definition WithAsyncHandler :: "ConsensusAsyncHandler \<Rightarrow> 'h ConsensusOpt" where
  "WithAsyncHandler a cp = cp\<lparr>asyncHandler := Some a\<rparr>"

definition AddListener :: "('h \<Rightarrow> 'h) \<Rightarrow> 'h ConsensusOpt" where
  "AddListener l cp = cp\<lparr>listeners := listeners cp @ [l]\<rparr>"

definition WithListener :: "('h \<Rightarrow> 'h) \<Rightarrow> 'h ConsensusOpt" where
  "WithListener l cp = AddListener l cp"

definition ClearListeners :: "'h ConsensusPoller \<Rightarrow> 'h ConsensusPoller" where
  "ClearListeners cp = cp\<lparr>listeners := []\<rparr>"

definition WithBanPeriod :: "duration \<Rightarrow> 'h ConsensusOpt" where
  "WithBanPeriod d cp = cp\<lparr>banPeriod := d\<rparr>"

definition WithMaxUpdateThreshold :: "duration \<Rightarrow> 'h ConsensusOpt" where
  "WithMaxUpdateThreshold d cp = cp\<lparr>maxUpdateThreshold := d\<rparr>"

definition WithMaxBlockLag :: "uint64 \<Rightarrow> 'h ConsensusOpt" where
  "WithMaxBlockLag n cp = cp\<lparr>maxBlockLag := n\<rparr>"

definition WithMaxBlockRange :: "uint64 \<Rightarrow> 'h ConsensusOpt" where
  "WithMaxBlockRange n cp = cp\<lparr>cp_maxBlockRange := n\<rparr>"

definition WithMinPeerCount :: "uint64 \<Rightarrow> 'h ConsensusOpt" where
  "WithMinPeerCount n cp = cp\<lparr>minPeerCount := n\<rparr>"

definition WithPollerInterval :: "duration \<Rightarrow> 'h ConsensusOpt" where
  "WithPollerInterval d cp = cp\<lparr>interval := d\<rparr>"

definition DefaultPollerInterval :: duration where "DefaultPollerInterval = 1 * Second"

definition Reset :: "'p BackendGroup \<Rightarrow> 'h ConsensusPoller \<Rightarrow> 'h ConsensusPoller" where
  "Reset bg cp = fold (\<lambda>be cp. cp\<lparr>cp_backendState := (cp_backendState cp)(be \<mapsto> zero_state)\<rparr>) (bg_Backends bg) cp"

definition NewConsensusPoller :: "'p BackendGroup \<Rightarrow> 'h ConsensusOpt list \<Rightarrow> 'h ConsensusPoller" where
  "NewConsensusPoller bg opts =
     (let cp = \<lparr>cp_cancelled = False, listeners = [], cp_backendState = Map.empty, consensusGroup = [], tracker = None,
            asyncHandler = None, minPeerCount = 3, banPeriod = 5 * Minute, maxUpdateThreshold = 30 * Second,
            maxBlockLag = 8, cp_maxBlockRange = 0, interval = DefaultPollerInterval\<rparr>;
          cp = fold (\<lambda>opt cp. opt cp) opts cp;
          cp = (if tracker cp = None then cp\<lparr>tracker := Some (InMemory NewInMemoryConsensusTracker)\<rparr> else cp);
          cp = (if asyncHandler cp = None then cp\<lparr>asyncHandler := Some PollerAsyncHandler\<rparr> else cp)
      in Reset bg cp)"

section \<open>States of single backends\<close>

definition GetBackendState :: "'h ConsensusPoller \<Rightarrow> bref \<Rightarrow> backendState outcome" where
  "GetBackendState cp be = (case cp_backendState cp be of None \<Rightarrow> nil_deref | Some bs \<Rightarrow> Done bs)"

definition upd_state :: "(backendState \<Rightarrow> backendState) \<Rightarrow> bref \<Rightarrow> 'h ConsensusPoller \<Rightarrow> 'h ConsensusPoller outcome" where
  "upd_state f be cp = obind (GetBackendState cp be) (\<lambda>bs.
     Done (cp\<lparr>cp_backendState := (cp_backendState cp)(be \<mapsto> f bs)\<rparr>))"

definition IsBanned :: "time \<Rightarrow> 'h ConsensusPoller \<Rightarrow> bref \<Rightarrow> bool outcome" where
  "IsBanned now cp be = obind (GetBackendState cp be) (\<lambda>bs. Done (bs_IsBanned now bs))"

definition BannedUntil :: "'h ConsensusPoller \<Rightarrow> bref \<Rightarrow> time outcome" where
  "BannedUntil cp be = obind (GetBackendState cp be) (\<lambda>bs. Done (bannedUntil bs))"

definition GetLastUpdate :: "'h ConsensusPoller \<Rightarrow> bref \<Rightarrow> time outcome" where
  "GetLastUpdate cp be = obind (GetBackendState cp be) (\<lambda>bs. Done (lastUpdate bs))"

definition Ban :: "('m, 'h) env \<Rightarrow> bref \<Rightarrow> ('m, 'h) world \<Rightarrow> 'h ConsensusPoller \<Rightarrow> 'h ConsensusPoller outcome" where
  "Ban E be w cp =
     (if forcedCandidate (w_be w be) then Done cp
      else upd_state (\<lambda>bs. bs\<lparr>bannedUntil := net_clock E (w_net w) + banPeriod cp, latestBlockNumber := 0,
             safeBlockNumber := 0, finalizedBlockNumber := 0\<rparr>) be cp)"

definition Unban :: "('m, 'h) env \<Rightarrow> bref \<Rightarrow> ('m, 'h) world \<Rightarrow> 'h ConsensusPoller \<Rightarrow> 'h ConsensusPoller outcome" where
  "Unban E be w cp = upd_state (\<lambda>bs. bs\<lparr>bannedUntil := net_clock E (w_net w) + (- 10 * Hour)\<rparr>) be cp"

definition setBackendState ::
  "time \<Rightarrow> bref \<Rightarrow> uint64 \<Rightarrow> bool \<Rightarrow> uint64 \<Rightarrow> string \<Rightarrow> uint64 \<Rightarrow> uint64 \<Rightarrow> 'h ConsensusPoller
    \<Rightarrow> ('h ConsensusPoller \<times> bool) outcome" where
  "setBackendState now be peers sync latest hash safe final cp =
     obind (GetBackendState cp be) (\<lambda>bs.
       (let changed = (latestBlockHash bs \<noteq> hash)
        in obind (upd_state (\<lambda>bs. bs\<lparr>peerCount := peers, inSync := sync, latestBlockNumber := latest,
             latestBlockHash := hash, finalizedBlockNumber := final, safeBlockNumber := safe, lastUpdate := now\<rparr>) be cp)
           (\<lambda>cp. Done (cp, changed))))"

section \<open>Calls to a backend\<close>

definition unexpected_response :: "string \<Rightarrow> string \<Rightarrow> error" where
  "unexpected_response method name = Errorf (''unexpected response to '' @ method @ '' on backend '' @ name)"

text \<open>\<open>v.(string)\<close> without a check, on the value of a map at a key.\<close>

definition must_string :: "(string \<times> gojson) list \<Rightarrow> string \<Rightarrow> string outcome" where
  "must_string kvs k = (case map_of kvs k of
       Some (JString s) \<Rightarrow> Done s
     | _ \<Rightarrow> Panic ''interface conversion'')"

definition MustDecodeUint64 :: "'a lib_scheme \<Rightarrow> string \<Rightarrow> uint64 outcome" where
  "MustDecodeUint64 L s = (case hex_DecodeUint64 L s of Inl err \<Rightarrow> Panic err | Inr n \<Rightarrow> Done n)"

definition fetchBlock ::
  "('m, 'h) env \<Rightarrow> req_ctx \<Rightarrow> bref \<Rightarrow> string \<Rightarrow> ('m, 'h) world
    \<Rightarrow> (('m, 'h) world \<times> (error + uint64 \<times> string)) outcome" where
  "fetchBlock E ctx be block w =
     obind (be_ForwardRPC E ctx be ''67'' ''eth_getBlockByNumber'' [JString block, JBool False] w) (\<lambda>(w, r).
       case r of
         Inl err \<Rightarrow> Done (w, Inl err)
       | Inr rpcRes \<Rightarrow>
           (case rs_Result rpcRes of
              Some (ResJSON (JObject jsonMap)) \<Rightarrow>
                obind (must_string jsonMap ''number'') (\<lambda>number.
                obind (MustDecodeUint64 E number) (\<lambda>blockNumber.
                obind (must_string jsonMap ''hash'') (\<lambda>blockHash.
                Done (w, Inr (blockNumber, blockHash)))))
            | _ \<Rightarrow> Done (w, Inl (unexpected_response ''eth_getBlockByNumber'' (Name (w_be w be))))))"

definition getPeerCount ::
  "('m, 'h) env \<Rightarrow> req_ctx \<Rightarrow> bref \<Rightarrow> ('m, 'h) world \<Rightarrow> (('m, 'h) world \<times> (error + uint64)) outcome" where
  "getPeerCount E ctx be w =
     obind (be_ForwardRPC E ctx be ''67'' ''net_peerCount'' [] w) (\<lambda>(w, r).
       case r of
         Inl err \<Rightarrow> Done (w, Inl err)
       | Inr rpcRes \<Rightarrow>
           (case rs_Result rpcRes of
              Some (ResJSON (JString s)) \<Rightarrow> obind (MustDecodeUint64 E s) (\<lambda>n. Done (w, Inr n))
            | _ \<Rightarrow> Done (w, Inl (unexpected_response ''net_peerCount'' (Name (w_be w be))))))"

definition strconv_ParseBool :: "string \<Rightarrow> error + bool" where
  "strconv_ParseBool s =
     (if s \<in> set [''1'', ''t'', ''T'', ''TRUE'', ''true'', ''True''] then Inr True
      else if s \<in> set [''0'', ''f'', ''F'', ''FALSE'', ''false'', ''False''] then Inr False
      else Inl (Errorf (''strconv.ParseBool: parsing '' @ enc_string s @ '': invalid syntax'')))"

definition isInSync ::
  "('m, 'h) env \<Rightarrow> req_ctx \<Rightarrow> bref \<Rightarrow> ('m, 'h) world \<Rightarrow> (('m, 'h) world \<times> (error + bool)) outcome" where
  "isInSync E ctx be w =
     obind (be_ForwardRPC E ctx be ''67'' ''eth_syncing'' [] w) (\<lambda>(w, r).
       Done (w, case r of
           Inl err \<Rightarrow> Inl err
         | Inr rpcRes \<Rightarrow>
             (case rs_Result rpcRes of
                Some (ResJSON (JBool syncing)) \<Rightarrow> Inr (\<not> syncing)
              | Some (ResJSON (JString s)) \<Rightarrow>
                  (case strconv_ParseBool s of Inl err \<Rightarrow> Inl err | Inr syncing \<Rightarrow> Inr (\<not> syncing))
              | _ \<Rightarrow> Inr False)))"

section \<open>Updating one backend\<close>

definition checkExpectedBlockTags :: "uint64 \<Rightarrow> uint64 \<Rightarrow> uint64 \<Rightarrow> uint64 \<Rightarrow> uint64 \<Rightarrow> bool" where
  "checkExpectedBlockTags currentLatest oldSafe currentSafe oldFinalized currentFinalized \<longleftrightarrow>
     currentFinalized \<ge> oldFinalized \<and> currentSafe \<ge> oldSafe \<and>
     currentFinalized \<le> currentSafe \<and> currentSafe \<le> currentLatest"

text \<open>A block height that may be missing or 0, which counts as an error of the backend; the rest of
  the update runs only with a height.\<close>

definition with_block ::
  "('m, 'h) env \<Rightarrow> req_ctx \<Rightarrow> bref \<Rightarrow> string \<Rightarrow> 'h ConsensusPoller \<Rightarrow> ('m, 'h) world
    \<Rightarrow> (uint64 \<Rightarrow> string \<Rightarrow> ('m, 'h) world \<Rightarrow> ('h ConsensusPoller \<times> ('m, 'h) world) outcome)
    \<Rightarrow> ('h ConsensusPoller \<times> ('m, 'h) world) outcome" where
  "with_block E ctx be tag cp w rest =
     obind (fetchBlock E ctx be tag w) (\<lambda>(w, r).
       case r of
         Inl err \<Rightarrow> Done (cp, w)
       | Inr (number, hash) \<Rightarrow>
           if number = 0 then Done (cp, be_error_Incr E be w) else rest number hash w)"

definition with_peers ::
  "('m, 'h) env \<Rightarrow> req_ctx \<Rightarrow> bref \<Rightarrow> 'h ConsensusPoller \<Rightarrow> ('m, 'h) world
    \<Rightarrow> (uint64 \<Rightarrow> ('m, 'h) world \<Rightarrow> ('h ConsensusPoller \<times> ('m, 'h) world) outcome)
    \<Rightarrow> ('h ConsensusPoller \<times> ('m, 'h) world) outcome" where
  "with_peers E ctx be cp w rest =
     (if \<not> skipPeerCountCheck (w_be w be) then
        obind (getPeerCount E ctx be w) (\<lambda>(w, r).
          case r of
            Inl err \<Rightarrow> Done (cp, w)
          | Inr n \<Rightarrow> if n = 0 then Done (cp, be_error_Incr E be w) else rest n w)
      else rest 0 w)"

definition UpdateBackend ::
  "('m, 'h) env \<Rightarrow> req_ctx \<Rightarrow> bref \<Rightarrow> 'h ConsensusPoller \<Rightarrow> ('m, 'h) world
    \<Rightarrow> ('h ConsensusPoller \<times> ('m, 'h) world) outcome" where
  "UpdateBackend E ctx be cp w =
     obind (GetBackendState cp be) (\<lambda>bs.
       if bs_IsBanned (net_clock E (w_net w)) bs then Done (cp, w)
       else
         (let (w, healthy) = be_IsHealthy E be w
          in if \<not> healthy \<and> \<not> forcedCandidate (w_be w be) then obind (Ban E be w cp) (\<lambda>cp. Done (cp, w))
             else
               obind (isInSync E ctx be w) (\<lambda>(w, r).
                 case r of
                   Inl err \<Rightarrow> Done (cp, w)
                 | Inr sync \<Rightarrow>
                     with_peers E ctx be cp w (\<lambda>peers w.
                     with_block E ctx be ''latest'' cp w (\<lambda>latest hash w.
                     with_block E ctx be ''safe'' cp w (\<lambda>safe _ w.
                     with_block E ctx be ''finalized'' cp w (\<lambda>final _ w.
                       obind (setBackendState (net_clock E (w_net w)) be peers sync latest hash safe final cp) (\<lambda>(cp, changed).
                         if \<not> checkExpectedBlockTags latest (safeBlockNumber bs) safe (finalizedBlockNumber bs) final \<and>
                            \<not> forcedCandidate (w_be w be)
                         then obind (Ban E be w cp) (\<lambda>cp. Done (cp, w))
                         else Done (cp, w)))))))))"

section \<open>Candidates\<close>

text \<open>The conditions on one backend; asking for its health may evict from its windows.\<close>

definition is_candidate ::
  "('m, 'h) env \<Rightarrow> 'h ConsensusPoller \<Rightarrow> bref \<Rightarrow> backendState \<Rightarrow> ('m, 'h) world \<Rightarrow> ('m, 'h) world \<times> bool" where
  "is_candidate E cp be bs w =
     (let now = net_clock E (w_net w)
      in if forcedCandidate (w_be w be) then (w, True)
         else if bs_IsBanned now bs then (w, False)
         else
           (let (w, healthy) = be_IsHealthy E be w
            in if \<not> healthy then (w, False)
               else if \<not> skipPeerCountCheck (w_be w be) \<and> peerCount bs < minPeerCount cp then (w, False)
               else if \<not> inSync bs then (w, False)
               else if lastUpdate bs + maxUpdateThreshold cp < now then (w, False)
               else (w, True)))"

fun eligible ::
  "('m, 'h) env \<Rightarrow> 'h ConsensusPoller \<Rightarrow> bref list \<Rightarrow> ('m, 'h) world
    \<Rightarrow> (('m, 'h) world \<times> (bref \<times> backendState) list) outcome" where
  "eligible E cp [] w = Done (w, [])"
| "eligible E cp (be # bes) w =
     obind (GetBackendState cp be) (\<lambda>bs.
       (let (w, ok) = is_candidate E cp be bs w
        in obind (eligible E cp bes w) (\<lambda>(w, cs). Done (w, if ok then (be, bs) # AList.delete be cs else cs))))"

definition not_lagging :: "'h ConsensusPoller \<Rightarrow> (bref \<times> backendState) list \<Rightarrow> (bref \<times> backendState) list" where
  "not_lagging cp cs =
     (let highestLatestBlock = fold (\<lambda>(_, bs) n. if latestBlockNumber bs > n then latestBlockNumber bs else n) cs 0
      in filter (\<lambda>(_, bs). \<not> highestLatestBlock - latestBlockNumber bs > maxBlockLag cp) cs)"

definition FilterCandidates ::
  "('m, 'h) env \<Rightarrow> 'h ConsensusPoller \<Rightarrow> bref list \<Rightarrow> ('m, 'h) world
    \<Rightarrow> (('m, 'h) world \<times> (bref \<times> backendState) list) outcome" where
  "FilterCandidates E cp backends w =
     obind (eligible E cp backends w) (\<lambda>(w, cs). Done (w, not_lagging cp cs))"

definition getConsensusCandidates ::
  "('m, 'h) env \<Rightarrow> 'p BackendGroup \<Rightarrow> 'h ConsensusPoller \<Rightarrow> ('m, 'h) world
    \<Rightarrow> (('m, 'h) world \<times> (bref \<times> backendState) list) outcome" where
  "getConsensusCandidates E bg cp w =
     obind (FilterCandidates E cp (Primaries w bg) w) (\<lambda>(w, healthyPrimaries).
       if length healthyPrimaries > 0 then Done (w, healthyPrimaries)
       else FilterCandidates E cp (Fallbacks w bg) w)"

section \<open>Consensus of the group\<close>

text \<open>The lowest blocks of the candidates; 0 stands for none yet.\<close>

record lowest =
  lowestLatestBlock :: uint64
  lowestLatestBlockHash :: string
  lowestFinalizedBlock :: uint64
  lowestSafeBlock :: uint64

definition lowest_step :: "backendState \<Rightarrow> lowest \<Rightarrow> lowest" where
  "lowest_step bs l =
     (let l = (if lowestLatestBlock l = 0 \<or> latestBlockNumber bs < lowestLatestBlock l
               then l\<lparr>lowestLatestBlock := latestBlockNumber bs, lowestLatestBlockHash := latestBlockHash bs\<rparr> else l);
          l = (if lowestFinalizedBlock l = 0 \<or> finalizedBlockNumber bs < lowestFinalizedBlock l
               then l\<lparr>lowestFinalizedBlock := finalizedBlockNumber bs\<rparr> else l);
          l = (if lowestSafeBlock l = 0 \<or> safeBlockNumber bs < lowestSafeBlock l
               then l\<lparr>lowestSafeBlock := safeBlockNumber bs\<rparr> else l)
      in l)"

definition find_lowest :: "backendState list \<Rightarrow> lowest" where
  "find_lowest bss = fold lowest_step bss
     \<lparr>lowestLatestBlock = 0, lowestLatestBlockHash = [], lowestFinalizedBlock = 0, lowestSafeBlock = 0\<rparr>"

text \<open>One round: every candidate is asked for the proposed block until one disagrees. The result is
  the hash, whether all agreed, and whether the consensus is broken.\<close>

fun agree_round ::
  "('m, 'h) env \<Rightarrow> req_ctx \<Rightarrow> uint64 \<Rightarrow> uint64 \<Rightarrow> bref list \<Rightarrow> string \<Rightarrow> bool \<Rightarrow> ('m, 'h) world
    \<Rightarrow> (('m, 'h) world \<times> string \<times> bool \<times> bool) outcome" where
  "agree_round E ctx current proposed [] hash broken w = Done (w, hash, True, broken)"
| "agree_round E ctx current proposed (be # bes) hash broken w =
     obind (fetchBlock E ctx be (hex_String E proposed) w) (\<lambda>(w, r).
       case r of
         Inl err \<Rightarrow> agree_round E ctx current proposed bes hash broken w
       | Inr (actualNumber, actualHash) \<Rightarrow>
           (let hash = (if hash = [] then actualHash else hash)
            in if actualNumber \<noteq> proposed \<or> actualHash \<noteq> hash
               then Done (w, hash, False, broken \<or> current \<ge> actualNumber)
               else agree_round E ctx current proposed bes hash broken w))"

text \<open>Rounds, one block further back each time, \<open>fuel\<close> at most; \<open>None\<close> if they do not suffice. Round
  \<open>i\<close> visits the candidates in the order \<open>ord i\<close>.\<close>

fun consensus_loop ::
  "(nat \<Rightarrow> bref list \<Rightarrow> bref list) \<Rightarrow> ('m, 'h) env \<Rightarrow> req_ctx \<Rightarrow> uint64 \<Rightarrow> bref list \<Rightarrow> nat \<Rightarrow> nat \<Rightarrow> uint64 \<Rightarrow> string
    \<Rightarrow> bool \<Rightarrow> ('m, 'h) world \<Rightarrow> (('m, 'h) world \<times> uint64 \<times> string \<times> bool) option outcome" where
  "consensus_loop ord E ctx current cands 0 i proposed hash broken w = Done None"
| "consensus_loop ord E ctx current cands (Suc fuel) i proposed hash broken w =
     obind (agree_round E ctx current proposed (ord i cands) hash broken w) (\<lambda>(w, hash, allAgreed, broken).
       if allAgreed then Done (Some (w, proposed, hash, broken))
       else consensus_loop ord E ctx current cands fuel (Suc i) (proposed - 1) [] broken w)"

definition set_tracker :: "uint64 \<Rightarrow> uint64 \<Rightarrow> uint64 \<Rightarrow> 'h ConsensusPoller \<Rightarrow> 'h ConsensusPoller" where
  "set_tracker latest safe final cp =
     cp\<lparr>tracker := map_option (\<lambda>t. SetFinalizedBlockNumber final (SetSafeBlockNumber safe (SetLatestBlockNumber latest t)))
          (tracker cp)\<rparr>"

text \<open>The last part: listeners, tracker and the new group, in the order of the backends.\<close>

definition finish_consensus ::
  "'p BackendGroup \<Rightarrow> bref list \<Rightarrow> lowest \<Rightarrow> uint64 \<Rightarrow> bool \<Rightarrow> 'h ConsensusPoller \<Rightarrow> ('m, 'h) world
    \<Rightarrow> 'h ConsensusPoller \<times> ('m, 'h) world" where
  "finish_consensus bg cands l proposed broken cp w =
     (let w = (if broken then w\<lparr>w_net := fold (\<lambda>f h. f h) (listeners cp) (w_net w)\<rparr> else w);
          cp = set_tracker proposed (lowestSafeBlock l) (lowestFinalizedBlock l) cp;
          group = filter (\<lambda>be. be \<in> set cands) (bg_Backends bg)
      in (cp\<lparr>consensusGroup := group\<rparr>, w))"

definition UpdateBackendGroupConsensus ::
  "(nat \<Rightarrow> bref list \<Rightarrow> bref list) \<Rightarrow> ('m, 'h) env \<Rightarrow> req_ctx \<Rightarrow> nat \<Rightarrow> 'p BackendGroup \<Rightarrow> 'h ConsensusPoller
    \<Rightarrow> ('m, 'h) world \<Rightarrow> ('h ConsensusPoller \<times> ('m, 'h) world) option outcome" where
  "UpdateBackendGroupConsensus ord E ctx fuel bg cp w =
     obind (cp_GetLatestBlockNumber cp) (\<lambda>current.
     obind (getConsensusCandidates E bg cp w) (\<lambda>(w, candidates).
       (let cands = map fst candidates;
            l = find_lowest (map (\<lambda>be. the (map_of candidates be)) (ord 0 cands));
            proposed = lowestLatestBlock l
        in if proposed > 0 then
             obind (consensus_loop ord E ctx current cands fuel 1 proposed (lowestLatestBlockHash l) False w) (\<lambda>r.
               Done (map_option (\<lambda>(w, proposed, hash, broken). finish_consensus bg cands l proposed broken cp w) r))
           else Done (Some (finish_consensus bg cands l proposed False cp w)))))"

section \<open>The asynchronous handler\<close>

text \<open>
  The goroutines of \<open>PollerAsyncHandler.Init\<close>: one for each primary, one for each fallback, which
  works only while no primary is a candidate, and one for the group. Between their steps other
  parts of the proxy use the backends and the network; they change windows and never a backend's
  configuration.
\<close>

inductive poller_step ::
  "('m, 'h) env \<Rightarrow> req_ctx \<Rightarrow> 'p BackendGroup \<Rightarrow> 'h ConsensusPoller \<times> ('m, 'h) world
    \<Rightarrow> 'h ConsensusPoller \<times> ('m, 'h) world \<Rightarrow> bool"
  for E ctx bg where
  primary: "be \<in> set (Primaries w bg) \<Longrightarrow> UpdateBackend E ctx be cp w = Done s' \<Longrightarrow> poller_step E ctx bg (cp, w) s'"
| fallback: "be \<in> set (Fallbacks w bg) \<Longrightarrow> FilterCandidates E cp (Primaries w bg) w = Done (w', []) \<Longrightarrow>
    UpdateBackend E ctx be cp w' = Done s' \<Longrightarrow> poller_step E ctx bg (cp, w) s'"
| idle: "be \<in> set (Fallbacks w bg) \<Longrightarrow> FilterCandidates E cp (Primaries w bg) w = Done (w', c # cs) \<Longrightarrow>
    poller_step E ctx bg (cp, w) (cp, w')"
| group: "(\<And>i xs. set (ord i xs) = set xs) \<Longrightarrow>
    UpdateBackendGroupConsensus ord E ctx fuel bg cp w = Done (Some s') \<Longrightarrow> poller_step E ctx bg (cp, w) s'"
| other: "(\<And>be. same_config (w_be w be) (w_be w' be)) \<Longrightarrow> poller_step E ctx bg (cp, w) (cp, w')"

definition Shutdown :: "'h ConsensusPoller \<Rightarrow> 'h ConsensusPoller" where
  "Shutdown cp = (case asyncHandler cp of
       Some PollerAsyncHandler \<Rightarrow> cp\<lparr>cp_cancelled := True\<rparr>
     | _ \<Rightarrow> cp)"

section \<open>Backends keep their configuration\<close>

definition same_world :: "('m, 'h) world \<Rightarrow> ('m, 'h) world \<Rightarrow> bool" where
  "same_world w w' \<longleftrightarrow> (\<forall>be. same_config (w_be w be) (w_be w' be))"

lemma same_world_refl [simp]: "same_world w w"
  by (simp add: same_world_def)

lemma same_world_trans: "same_world u v \<Longrightarrow> same_world v w \<Longrightarrow> same_world u w"
  unfolding same_world_def by (blast intro: same_config_trans)

lemma same_world_update: "same_config (w_be w be) b \<Longrightarrow> same_world w (be_update be b w)"
  by (simp add: same_world_def be_update_def)

lemma same_world_net [simp]: "same_world w (v\<lparr>w_net := h\<rparr>) = same_world w v"
  by (simp add: same_world_def)

lemma same_world_fields:
  assumes "same_world w w'"
  shows "forcedCandidate (w_be w' be) = forcedCandidate (w_be w be)" "Name (w_be w' be) = Name (w_be w be)"
  using assms same_config_fields [of "w_be w be" "w_be w' be"] by (auto simp: same_world_def)

lemma Primaries_cong: "same_world w w' \<Longrightarrow> Primaries w' bg = Primaries w bg"
  and Fallbacks_cong: "same_world w w' \<Longrightarrow> Fallbacks w' bg = Fallbacks w bg"
  by (simp_all add: Primaries_def Fallbacks_def same_world_fields)

lemma IsHealthy_world: "same_world w (fst (be_IsHealthy E be w))"
  using IsHealthy_config [of "w_be w be" E "w_net w"]
  by (auto simp: be_IsHealthy_def split: prod.splits intro: same_world_update)

lemma error_Incr_world: "same_world w (be_error_Incr E be w)"
  by (auto simp: be_error_Incr_def Let_def intro: same_world_update)

lemma ForwardRPC_config: "ForwardRPC E ctx b i m ps h = Done (b', h', r) \<Longrightarrow> same_config b b'"
proof -
  let ?req = "\<lparr>rq_JSONRPC = JSONRPCVersion, rq_Method = m,
     rq_Params = (if ps = [] then ''null'' else json_encode (JArray ps)), rq_ID = i\<rparr>"
  assume f: "ForwardRPC E ctx b i m ps h = Done (b', h', r)"
  then obtain b1 q1 h1 r1 where d: "doForward E ctx b [?req] False h = Done (b1, q1, h1, r1)"
    by (auto simp: ForwardRPC_def Let_def)
  have "b' = b1"
    using f d by (cases r1) (auto simp: ForwardRPC_def Let_def split: if_splits option.splits)
  then show ?thesis using doForward_config [OF d] by simp
qed

lemma be_ForwardRPC_world: "be_ForwardRPC E ctx be i m ps w = Done (w', r) \<Longrightarrow> same_world w w'"
  by (auto simp: be_ForwardRPC_def intro: same_world_update dest!: ForwardRPC_config)

lemma fetchBlock_world:
  assumes "fetchBlock E ctx be block w = Done (w', r)"
  shows "same_world w w'"
proof -
  obtain w1 r1 where f: "be_ForwardRPC E ctx be ''67'' ''eth_getBlockByNumber'' [JString block, JBool False] w = Done (w1, r1)"
    using assms by (auto simp: fetchBlock_def)
  have "w' = w1"
    using assms f by (cases r1) (auto simp: fetchBlock_def split: option.splits result_value.splits gojson.splits)
  then show ?thesis using be_ForwardRPC_world [OF f] by simp
qed

lemma getPeerCount_world:
  assumes "getPeerCount E ctx be w = Done (w', r)"
  shows "same_world w w'"
proof -
  obtain w1 r1 where f: "be_ForwardRPC E ctx be ''67'' ''net_peerCount'' [] w = Done (w1, r1)"
    using assms by (auto simp: getPeerCount_def)
  have "w' = w1"
    using assms f by (cases r1) (auto simp: getPeerCount_def split: option.splits result_value.splits gojson.splits)
  then show ?thesis using be_ForwardRPC_world [OF f] by simp
qed

lemma isInSync_world: "isInSync E ctx be w = Done (w', r) \<Longrightarrow> same_world w w'"
  by (auto simp: isInSync_def dest: be_ForwardRPC_world)

section \<open>What an update of a backend does\<close>

lemma with_block_cases:
  assumes "with_block E ctx be tag cp w rest = Done (cp', w')"
  obtains "cp' = cp" "same_world w w'"
  | n hash w1 where "rest n hash w1 = Done (cp', w')" "n \<noteq> 0" "same_world w w1"
proof -
  obtain w1 r where f: "fetchBlock E ctx be tag w = Done (w1, r)" using assms by (auto simp: with_block_def)
  note w1 = fetchBlock_world [OF f] and e1 = same_world_trans [OF fetchBlock_world [OF f] error_Incr_world [of w1 E be]]
  show thesis
  proof (cases r)
    case (Inl err)
    with assms f w1 that(1) show thesis by (simp add: with_block_def)
  next
    case (Inr nh)
    obtain n hash where "nh = (n, hash)" by (cases nh)
    with assms f w1 e1 Inr that show thesis by (cases "n = 0") (auto simp: with_block_def)
  qed
qed

lemma with_peers_cases:
  assumes "with_peers E ctx be cp w rest = Done (cp', w')"
  obtains "cp' = cp" "same_world w w'"
  | n w1 where "rest n w1 = Done (cp', w')" "same_world w w1"
proof (cases "skipPeerCountCheck (w_be w be)")
  case True
  with assms that(2) [of 0 w] show thesis by (simp add: with_peers_def)
next
  case False
  then obtain w1 r where f: "getPeerCount E ctx be w = Done (w1, r)" using assms by (auto simp: with_peers_def)
  note w1 = getPeerCount_world [OF f] and e1 = same_world_trans [OF getPeerCount_world [OF f] error_Incr_world [of w1 E be]]
  from assms f w1 e1 False that show thesis
    by (cases r) (auto simp: with_peers_def split: if_splits)
qed

definition tags_ordered :: "backendState \<Rightarrow> bool" where
  "tags_ordered bs \<longleftrightarrow> finalizedBlockNumber bs \<le> safeBlockNumber bs \<and> safeBlockNumber bs \<le> latestBlockNumber bs"

text \<open>An update replaces at most the state of its backend. The new state of a backend that is not
  forced is that of a ban, or its block numbers are in order and not below the old ones.\<close>

definition good_update :: "bool \<Rightarrow> backendState \<Rightarrow> backendState \<Rightarrow> bool" where
  "good_update forced bs bs' \<longleftrightarrow> forced \<or>
     (latestBlockNumber bs' = 0 \<and> safeBlockNumber bs' = 0 \<and> finalizedBlockNumber bs' = 0) \<or>
     (tags_ordered bs' \<and> safeBlockNumber bs \<le> safeBlockNumber bs' \<and>
      finalizedBlockNumber bs \<le> finalizedBlockNumber bs' \<and> finalizedBlockNumber bs' \<noteq> 0)"

definition updated :: "bool \<Rightarrow> bref \<Rightarrow> 'h ConsensusPoller \<Rightarrow> 'h ConsensusPoller \<Rightarrow> bool" where
  "updated forced be cp cp' \<longleftrightarrow> cp' = cp \<or>
     (\<exists>bs bs'. cp_backendState cp be = Some bs \<and> good_update forced bs bs' \<and>
        cp' = cp\<lparr>cp_backendState := (cp_backendState cp)(be \<mapsto> bs')\<rparr>)"

lemma Ban_updated:
  assumes "Ban E be w cp = Done cp'"
  shows "updated (forcedCandidate (w_be w be)) be cp cp'"
proof (cases "forcedCandidate (w_be w be) \<or> cp_backendState cp be = None")
  case True
  then show ?thesis
    using assms by (auto simp: Ban_def upd_state_def GetBackendState_def updated_def split: if_splits)
next
  case False
  then obtain bs where bs: "cp_backendState cp be = Some bs" by auto
  let ?bs = "bs\<lparr>bannedUntil := net_clock E (w_net w) + banPeriod cp, latestBlockNumber := 0,
    safeBlockNumber := 0, finalizedBlockNumber := 0\<rparr>"
  have "cp' = cp\<lparr>cp_backendState := (cp_backendState cp)(be \<mapsto> ?bs)\<rparr>"
    using assms False bs by (simp add: Ban_def upd_state_def GetBackendState_def)
  moreover have "good_update (forcedCandidate (w_be w be)) bs ?bs" by (simp add: good_update_def)
  ultimately show ?thesis using bs unfolding updated_def by blast
qed

text \<open>The end of an update, with all numbers fetched.\<close>

lemma store_updated:
  assumes "cp_backendState cp be = Some bs" and "final \<noteq> 0"
    and "obind (setBackendState now be peers sync latest hash safe final cp) (\<lambda>(cp, changed).
      if \<not> checkExpectedBlockTags latest (safeBlockNumber bs) safe (finalizedBlockNumber bs) final \<and>
         \<not> forcedCandidate (w_be w be)
      then obind (Ban E be w cp) (\<lambda>cp. Done (cp, w)) else Done (cp, w)) = Done (cp', w')"
  shows "updated (forcedCandidate (w_be w be)) be cp cp' \<and> w' = w"
proof -
  define bs1 where "bs1 = bs\<lparr>peerCount := peers, inSync := sync, latestBlockNumber := latest,
      latestBlockHash := hash, finalizedBlockNumber := final, safeBlockNumber := safe, lastUpdate := now\<rparr>"
  define cp1 where "cp1 = cp\<lparr>cp_backendState := (cp_backendState cp)(be \<mapsto> bs1)\<rparr>"
  have set: "setBackendState now be peers sync latest hash safe final cp = Done (cp1, latestBlockHash bs \<noteq> hash)"
    using assms(1) by (simp add: setBackendState_def upd_state_def GetBackendState_def cp1_def bs1_def)
  show ?thesis
  proof (cases "\<not> checkExpectedBlockTags latest (safeBlockNumber bs) safe (finalizedBlockNumber bs) final \<and>
      \<not> forcedCandidate (w_be w be)")
    case True
    define bs2 where "bs2 = bs1\<lparr>bannedUntil := net_clock E (w_net w) + banPeriod cp, latestBlockNumber := 0,
             safeBlockNumber := 0, finalizedBlockNumber := 0\<rparr>"
    have "cp' = cp\<lparr>cp_backendState := (cp_backendState cp)(be \<mapsto> bs2)\<rparr>" "w' = w"
      using True assms(3) unfolding set
      by (auto simp: Ban_def upd_state_def GetBackendState_def cp1_def bs2_def)
    moreover have "good_update (forcedCandidate (w_be w be)) bs bs2" by (simp add: good_update_def bs2_def)
    ultimately show ?thesis using assms(1) by (auto simp: updated_def)
  next
    case False
    then have "cp' = cp1" "w' = w" using assms(3) unfolding set by auto
    moreover have "good_update (forcedCandidate (w_be w be)) bs bs1"
      using False assms(2) by (auto simp: good_update_def checkExpectedBlockTags_def tags_ordered_def bs1_def)
    ultimately show ?thesis using assms(1) by (auto simp: updated_def cp1_def)
  qed
qed

lemma UpdateBackend_updated:
  assumes "UpdateBackend E ctx be cp w = Done (cp', w')"
  shows "same_world w w' \<and> updated (forcedCandidate (w_be w be)) be cp cp'"
proof -
  obtain bs where bs: "cp_backendState cp be = Some bs"
    using assms by (cases "cp_backendState cp be") (auto simp: UpdateBackend_def GetBackendState_def)
  have none: ?thesis if "cp' = cp" "same_world w w'" using that by (simp add: updated_def)
  note U = assms [unfolded UpdateBackend_def GetBackendState_def bs option.case obind.simps]
  show ?thesis
  proof (cases "bs_IsBanned (net_clock E (w_net w)) bs")
    case True
    with U show ?thesis by (intro none) auto
  next
    case False
    obtain w1 healthy where h: "be_IsHealthy E be w = (w1, healthy)" by (cases "be_IsHealthy E be w")
    have w1: "same_world w w1" using IsHealthy_world [of w E be] h by simp
    note U = U [unfolded h Let_def prod.case if_not_P [OF False]]
    show ?thesis
    proof (cases "\<not> healthy \<and> \<not> forcedCandidate (w_be w1 be)")
      case True
      with U have "Ban E be w1 cp = Done cp'" "w' = w1" by auto
      with Ban_updated [of E be w1 cp cp'] w1 show ?thesis by (simp add: same_world_fields [OF w1])
    next
      case False
      note U = U [unfolded if_not_P [OF False]]
      obtain w2 r where sy: "isInSync E ctx be w1 = Done (w2, r)" using U by auto
      have w2: "same_world w w2" using w1 isInSync_world [OF sy] by (rule same_world_trans)
      show ?thesis
      proof (cases r)
        case (Inl err)
        with U sy w2 show ?thesis by (intro none) auto
      next
        case (Inr sync)
        note U = U [unfolded sy obind.simps prod.case Inr sum.case]
        from U show ?thesis
        proof (rule with_peers_cases)
          fix peers w3 assume "same_world w2 w3"
          then have w3: "same_world w w3" by (rule same_world_trans [OF w2])
          assume "with_block E ctx be ''latest'' cp w3 (\<lambda>latest hash w.
             with_block E ctx be ''safe'' cp w (\<lambda>safe _ w.
             with_block E ctx be ''finalized'' cp w (\<lambda>final _ w.
               obind (setBackendState (net_clock E (w_net w)) be peers sync latest hash safe final cp) (\<lambda>(cp, changed).
                 if \<not> checkExpectedBlockTags latest (safeBlockNumber bs) safe (finalizedBlockNumber bs) final \<and>
                    \<not> forcedCandidate (w_be w be)
                 then obind (Ban E be w cp) (\<lambda>cp. Done (cp, w)) else Done (cp, w))))) = Done (cp', w')"
          then show ?thesis
          proof (elim with_block_cases)
            fix latest hash w4 safe h5 w5 final h6 w6
            assume "same_world w3 w4" "same_world w4 w5" "same_world w5 w6"
            then have w6: "same_world w w6" by (blast intro: same_world_trans [OF w3] same_world_trans)
            assume "final \<noteq> 0" and "obind (setBackendState (net_clock E (w_net w6)) be peers sync latest hash safe final cp)
                (\<lambda>(cp, changed).
                 if \<not> checkExpectedBlockTags latest (safeBlockNumber bs) safe (finalizedBlockNumber bs) final \<and>
                    \<not> forcedCandidate (w_be w6 be)
                 then obind (Ban E be w6 cp) (\<lambda>cp. Done (cp, w6)) else Done (cp, w6)) = Done (cp', w')"
            from store_updated [OF bs this] w6 show ?thesis by (simp add: same_world_fields [OF w6])
          qed (auto simp: updated_def intro: same_world_trans [OF w3] same_world_trans)
        qed (auto simp: updated_def intro: same_world_trans [OF w2])
      qed
    qed
  qed
qed

section \<open>What the candidates are\<close>

text \<open>The documented conditions, in the world before the filter runs.\<close>

definition cand_ok :: "('m, 'h) env \<Rightarrow> 'h ConsensusPoller \<Rightarrow> ('m, 'h) world \<Rightarrow> bref \<Rightarrow> backendState \<Rightarrow> bool" where
  "cand_ok E cp w be bs \<longleftrightarrow>
     (let now = net_clock E (w_net w); b = w_be w be
      in forcedCandidate b \<or>
         (now \<ge> bannedUntil bs \<and> snd (IsHealthy E (w_net w) b) \<and>
          (skipPeerCountCheck b \<or> minPeerCount cp \<le> peerCount bs) \<and> inSync bs \<and>
          now \<le> lastUpdate bs + maxUpdateThreshold cp))"

lemma is_candidate_value: "snd (is_candidate E cp be bs w) = cand_ok E cp w be bs"
proof -
  obtain b ok where h: "IsHealthy E (w_net w) (w_be w be) = (b, ok)" by (cases "IsHealthy E (w_net w) (w_be w be)")
  have "skipPeerCountCheck b = skipPeerCountCheck (w_be w be)"
    using same_config_fields(11) [OF IsHealthy_config [of "w_be w be" E "w_net w"]] h by simp
  then show ?thesis
    using h by (auto simp: is_candidate_def cand_ok_def be_IsHealthy_def be_update_def bs_IsBanned_def Let_def not_le not_less)
qed

lemma is_candidate_frame:
  assumes "is_candidate E cp be bs w = (w', ok)"
  shows "same_world w w'" "w_net w' = w_net w" "be' \<noteq> be \<Longrightarrow> w_be w' be' = w_be w be'"
proof -
  have "w' = w \<or> w' = fst (be_IsHealthy E be w)"
    using assms by (auto simp: is_candidate_def Let_def split: if_splits prod.splits)
  moreover have "w_net (fst (be_IsHealthy E be w)) = w_net w"
      "be' \<noteq> be \<Longrightarrow> w_be (fst (be_IsHealthy E be w)) be' = w_be w be'"
    by (simp_all add: be_IsHealthy_def be_update_def split: prod.splits)
  ultimately show "same_world w w'" "w_net w' = w_net w" "be' \<noteq> be \<Longrightarrow> w_be w' be' = w_be w be'"
    using IsHealthy_world [of w E be] by auto
qed

lemma cand_ok_cong: "w_net w' = w_net w \<Longrightarrow> w_be w' be = w_be w be \<Longrightarrow> cand_ok E cp w' be bs = cand_ok E cp w be bs"
  by (simp add: cand_ok_def)

lemma eligible_result:
  "eligible E cp bes w = Done (w', cs) \<Longrightarrow>
    same_world w w' \<and> w_net w' = w_net w \<and> distinct (map fst cs) \<and>
    (\<forall>(be, bs) \<in> set cs. be \<in> set bes \<and> cp_backendState cp be = Some bs)"
proof (induction bes arbitrary: w w' cs)
  case (Cons be bes)
  obtain bs where bs: "cp_backendState cp be = Some bs"
    using Cons.prems by (cases "cp_backendState cp be") (auto simp: GetBackendState_def)
  obtain w1 ok where c: "is_candidate E cp be bs w = (w1, ok)" by (cases "is_candidate E cp be bs w")
  obtain cs1 where e: "eligible E cp bes w1 = Done (w', cs1)"
      and cs: "cs = (if ok then (be, bs) # AList.delete be cs1 else cs1)"
    using Cons.prems bs c by (auto simp: GetBackendState_def)
  have "set (AList.delete be cs1) \<subseteq> set cs1" by (auto simp: AList.delete_eq)
  moreover have "map fst (AList.delete be cs1) = removeAll be (map fst cs1)" by (rule keys_delete)
  ultimately show ?case
    using Cons.IH [OF e] is_candidate_frame(1,2) [OF c] bs
    by (auto simp: cs distinct_removeAll intro: same_world_trans)
qed simp

lemma eligible_total:
  assumes "distinct bes" and "\<And>be. be \<in> set bes \<Longrightarrow> cp_backendState cp be \<noteq> None"
  shows "\<exists>w' cs. eligible E cp bes w = Done (w', cs) \<and>
    (\<forall>be bs. (be, bs) \<in> set cs \<longleftrightarrow> be \<in> set bes \<and> cp_backendState cp be = Some bs \<and> cand_ok E cp w be bs)"
  using assms
proof (induction bes arbitrary: w)
  case (Cons be bes)
  obtain bs where bs: "cp_backendState cp be = Some bs" using Cons.prems(2) by auto
  obtain w1 ok where c: "is_candidate E cp be bs w = (w1, ok)" by (cases "is_candidate E cp be bs w")
  have ok: "ok = cand_ok E cp w be bs" using is_candidate_value [of E cp be bs w] c by simp
  obtain w' cs where e: "eligible E cp bes w1 = Done (w', cs)"
    and cs: "\<And>b s. (b, s) \<in> set cs \<longleftrightarrow> b \<in> set bes \<and> cp_backendState cp b = Some s \<and> cand_ok E cp w1 b s"
    using Cons.IH [of w1] Cons.prems by (metis distinct.simps(2) list.set_intros(2))
  have "cand_ok E cp w1 b s = cand_ok E cp w b s" if "b \<in> set bes" for b s
  proof (rule cand_ok_cong)
    have "b \<noteq> be" using that Cons.prems(1) by auto
    then show "w_be w1 b = w_be w b" by (rule is_candidate_frame(3) [OF c])
  qed (rule is_candidate_frame(2) [OF c])
  moreover have "AList.delete be cs = cs"
    using cs Cons.prems(1) by (auto simp: AList.delete_eq intro!: filter_True)
  ultimately show ?case
    using e c bs ok cs by (auto simp: GetBackendState_def)
qed simp

definition highest :: "(bref \<times> backendState) list \<Rightarrow> uint64 \<Rightarrow> uint64" where
  "highest cs n = fold (\<lambda>(_, bs) n. if latestBlockNumber bs > n then latestBlockNumber bs else n) cs n"

lemma highest_upper: "n \<le> highest cs n \<and> (\<forall>c \<in> set cs. latestBlockNumber (snd c) \<le> highest cs n)"
proof (induction cs arbitrary: n)
  case (Cons c cs)
  obtain be bs where c: "c = (be, bs)" by (cases c)
  let ?n = "if latestBlockNumber bs > n then latestBlockNumber bs else n"
  have "n \<le> ?n" "latestBlockNumber bs \<le> ?n" by auto
  then show ?case using Cons.IH [of ?n] by (auto simp: highest_def c intro: order_trans)
qed (simp add: highest_def)

lemma highest_attained: "highest cs n = n \<or> (\<exists>c \<in> set cs. latestBlockNumber (snd c) = highest cs n)"
proof (induction cs arbitrary: n)
  case (Cons c cs)
  obtain be bs where c: "c = (be, bs)" by (cases c)
  let ?n = "if latestBlockNumber bs > n then latestBlockNumber bs else n"
  have "highest (c # cs) n = highest cs ?n" by (simp add: highest_def c)
  moreover have "\<exists>x \<in> set (c # cs). latestBlockNumber (snd x) = m" if "\<exists>x \<in> set cs. latestBlockNumber (snd x) = m" for m
    using that by auto
  ultimately show ?case using Cons.IH [of ?n] c by (cases "latestBlockNumber bs > n") (metis list.set_intros(1) snd_conv)+
qed (simp add: highest_def)

lemma not_lagging_iff:
  "(be, bs) \<in> set (not_lagging cp cs) \<longleftrightarrow> (be, bs) \<in> set cs \<and>
     (\<forall>c \<in> set cs. unat (latestBlockNumber (snd c)) \<le> unat (latestBlockNumber bs) + unat (maxBlockLag cp))"
  (is "?L \<longleftrightarrow> ?M \<and> ?R")
proof -
  have L: "?L \<longleftrightarrow> ?M \<and> highest cs 0 - latestBlockNumber bs \<le> maxBlockLag cp"
    by (auto simp: not_lagging_def highest_def Let_def not_less)
  have "highest cs 0 - latestBlockNumber bs \<le> maxBlockLag cp \<longleftrightarrow> ?R" if m: ?M
  proof -
    have up: "latestBlockNumber bs \<le> highest cs 0" using highest_upper [of 0 cs] m by force
    then have "highest cs 0 - latestBlockNumber bs \<le> maxBlockLag cp \<longleftrightarrow>
        unat (highest cs 0) \<le> unat (latestBlockNumber bs) + unat (maxBlockLag cp)"
      by (simp add: word_le_nat_alt unat_sub add.commute le_diff_conv)
    also have "\<dots> \<longleftrightarrow> ?R"
    proof
      assume "unat (highest cs 0) \<le> unat (latestBlockNumber bs) + unat (maxBlockLag cp)"
      then show ?R using highest_upper [of 0 cs] by (fastforce simp: word_le_nat_alt)
    next
      assume ?R then show "unat (highest cs 0) \<le> unat (latestBlockNumber bs) + unat (maxBlockLag cp)"
        using highest_attained [of cs 0] by (elim disjE bexE) (simp, metis)
    qed
    finally show ?thesis .
  qed
  with L show ?thesis by blast
qed

section \<open>What the group agrees on\<close>

text \<open>
  Backends that answer: from block \<open>lo\<close> on, up to \<open>hi\<close>, backend \<open>be\<close> serves block \<open>n\<close> with the hash
  \<open>chain be n\<close>, whatever is asked in between; \<open>I\<close> are the worlds in which it does.
\<close>

definition serves ::
  "('m, 'h) env \<Rightarrow> req_ctx \<Rightarrow> (('m, 'h) world \<Rightarrow> bool) \<Rightarrow> (bref \<Rightarrow> uint64 \<Rightarrow> string) \<Rightarrow> bref set \<Rightarrow> uint64 \<Rightarrow> uint64 \<Rightarrow> bool"
where
  "serves E ctx I chain bes lo hi \<longleftrightarrow>
     (\<forall>w be n. I w \<and> be \<in> bes \<and> lo \<le> n \<and> n \<le> hi \<longrightarrow> chain be n \<noteq> [] \<and>
        (\<exists>w'. fetchBlock E ctx be (hex_String E n) w = Done (w', Inr (n, chain be n)) \<and> I w'))"

lemma serves_fetch:
  assumes "serves E ctx I chain bes lo hi" and "I w" and "be \<in> bes" and "lo \<le> n" and "n \<le> hi"
  obtains w' where "fetchBlock E ctx be (hex_String E n) w = Done (w', Inr (n, chain be n))" "I w'" "chain be n \<noteq> []"
  using assms unfolding serves_def by blast

lemma agree_round_known:
  assumes "serves E ctx I chain bes lo hi" and "lo \<le> n" and "n \<le> hi"
  shows "set xs \<subseteq> bes \<Longrightarrow> hash \<noteq> [] \<Longrightarrow> I w \<Longrightarrow> \<exists>w'. I w' \<and>
    agree_round E ctx cur n xs hash br w =
      Done (w', hash, (\<forall>be \<in> set xs. chain be n = hash), br \<or> (cur \<ge> n \<and> \<not> (\<forall>be \<in> set xs. chain be n = hash)))"
proof (induction xs arbitrary: w)
  case (Cons be xs)
  obtain w1 where f: "fetchBlock E ctx be (hex_String E n) w = Done (w1, Inr (n, chain be n))" "I w1"
    using serves_fetch [OF assms(1) Cons.prems(3) _ assms(2,3), of be] Cons.prems(1) by auto
  show ?case
  proof (cases "chain be n = hash")
    case True
    have "\<exists>w'. I w' \<and> agree_round E ctx cur n xs hash br w1 =
      Done (w', hash, (\<forall>be \<in> set xs. chain be n = hash), br \<or> (cur \<ge> n \<and> \<not> (\<forall>be \<in> set xs. chain be n = hash)))"
      using Cons f by auto
    with f True Cons.prems show ?thesis by simp
  next
    case False
    with f Cons.prems show ?thesis by auto
  qed
qed simp

definition agreed :: "(bref \<Rightarrow> uint64 \<Rightarrow> string) \<Rightarrow> bref set \<Rightarrow> uint64 \<Rightarrow> bool" where
  "agreed chain bes n \<longleftrightarrow> (\<exists>hash. \<forall>be \<in> bes. chain be n = hash)"

text \<open>A round without a known hash takes the first one it sees.\<close>

lemma agree_round_fresh:
  assumes "serves E ctx I chain bes lo hi" and "lo \<le> n" and "n \<le> hi" and "set xs = bes" and "bes \<noteq> {}" and "I w"
  shows "\<exists>w' hash br'. I w' \<and> agree_round E ctx cur n xs [] br w = Done (w', hash, agreed chain bes n, br') \<and>
    (\<forall>be \<in> bes. agreed chain bes n \<longrightarrow> chain be n = hash)"
proof -
  obtain be ys where xs: "xs = be # ys" using assms(4,5) by (cases xs) auto
  obtain w1 where f: "fetchBlock E ctx be (hex_String E n) w = Done (w1, Inr (n, chain be n))" "I w1" "chain be n \<noteq> []"
    using serves_fetch [OF assms(1,6) _ assms(2,3), of be] assms(4) xs by auto
  have "set ys \<subseteq> bes" using assms(4) xs by auto
  from agree_round_known [OF assms(1-3) this f(3,2), of cur br] obtain w2 where "I w2"
    "agree_round E ctx cur n ys (chain be n) br w1 = Done (w2, chain be n, (\<forall>b \<in> set ys. chain b n = chain be n),
      br \<or> (cur \<ge> n \<and> \<not> (\<forall>b \<in> set ys. chain b n = chain be n)))" by blast
  moreover have "(\<forall>b \<in> set ys. chain b n = chain be n) = agreed chain bes n"
    using assms(4) xs by (auto simp: agreed_def)
  ultimately show ?thesis
    using f xs assms(4) by (auto simp: agreed_def)
qed

lemma consensus_loop_fresh:
  assumes "serves E ctx I chain (set cands) lo hi" and "\<And>i xs. set (ord i xs) = set xs" and "cands \<noteq> []"
    and "agreed chain (set cands) lo"
  shows "lo \<le> n \<Longrightarrow> n \<le> hi \<Longrightarrow> unat n - unat lo < fuel \<Longrightarrow> I w \<Longrightarrow>
    \<exists>w' p hash br'. consensus_loop ord E ctx cur cands fuel i n [] br w = Done (Some (w', p, hash, br')) \<and>
      lo \<le> p \<and> p \<le> n \<and> (\<forall>be \<in> set cands. chain be p = hash) \<and>
      (\<forall>q. p < q \<and> q \<le> n \<longrightarrow> \<not> agreed chain (set cands) q)"
proof (induction fuel arbitrary: n i br w)
  case (Suc fuel)
  have "set (ord i cands) = set cands" "set cands \<noteq> {}" using assms(2,3) by auto
  from agree_round_fresh [OF assms(1) Suc.prems(1,2) this Suc.prems(4), of cur br]
  obtain w1 hash br1 where r: "I w1" "agree_round E ctx cur n (ord i cands) [] br w = Done (w1, hash, agreed chain (set cands) n, br1)"
      "\<forall>be \<in> set cands. agreed chain (set cands) n \<longrightarrow> chain be n = hash" by blast
  show ?case
  proof (cases "agreed chain (set cands) n")
    case True
    with r Suc.prems show ?thesis by (intro exI [of _ w1] exI [of _ n] exI [of _ hash] exI [of _ br1]) auto
  next
    case False
    then have "lo \<noteq> n" using assms(4) by auto
    then have lt: "lo < n" using Suc.prems(1) by simp
    then have nz: "n \<noteq> 0" by auto
    have un: "unat (n - 1) = unat n - 1" using nz by (simp add: unat_minus_one)
    have le: "lo \<le> n - 1" "n - 1 \<le> n" using lt un nz by (auto simp: word_le_nat_alt word_less_nat_alt)
    have "unat (n - 1) - unat lo < fuel" using Suc.prems(3) lt un by (auto simp: word_less_nat_alt)
    from Suc.IH [OF le(1) order_trans [OF le(2) Suc.prems(2)] this r(1), of "Suc i" br1]
    obtain w' p hash' br' where IH: "consensus_loop ord E ctx cur cands fuel (Suc i) (n - 1) [] br1 w1 = Done (Some (w', p, hash', br'))"
      "lo \<le> p" "p \<le> n - 1" "\<forall>be \<in> set cands. chain be p = hash'"
      "\<forall>q. p < q \<and> q \<le> n - 1 \<longrightarrow> \<not> agreed chain (set cands) q" by blast
    have "\<not> agreed chain (set cands) q" if "p < q" "q \<le> n" for q
    proof (cases "q = n")
      case False
      then have "q < n" using that(2) by simp
      then have "q \<le> n - 1" using un by (simp add: word_less_nat_alt word_le_nat_alt)
      then show ?thesis using IH(5) that(1) by blast
    qed (use \<open>\<not> agreed chain (set cands) n\<close> in simp)
    moreover have "p \<le> n" using IH(3) le(2) by (rule order_trans)
    ultimately show ?thesis using r(2) False IH(1,2,4) by (intro exI [of _ w'] exI [of _ p] exI [of _ hash'] exI [of _ br']) auto
  qed
qed simp

lemma consensus_loop_result:
  assumes "serves E ctx I chain (set cands) lo hi" and "\<And>i xs. set (ord i xs) = set xs" and "cands \<noteq> []"
    and "agreed chain (set cands) lo" and "lo \<le> hi" and "unat hi - unat lo < fuel" and "I w" and "hash \<noteq> []"
    and "lo < hi \<or> (\<forall>be \<in> set cands. chain be hi = hash)"
  shows "\<exists>w' p hash' br'. consensus_loop ord E ctx cur cands fuel i hi hash br w = Done (Some (w', p, hash', br')) \<and>
      lo \<le> p \<and> p \<le> hi \<and> (\<forall>be \<in> set cands. chain be p = hash') \<and>
      (\<forall>q. p < q \<and> q < hi \<longrightarrow> \<not> agreed chain (set cands) q) \<and>
      (p \<noteq> hi \<longrightarrow> \<not> (\<forall>be \<in> set cands. chain be hi = hash))"
proof -
  obtain f where f: "fuel = Suc f" using assms(6) by (cases fuel) auto
  have sub: "set (ord i cands) \<subseteq> set cands" using assms(2) by auto
  from agree_round_known [OF assms(1,5) order_refl sub assms(8,7), of cur br]
  obtain w1 br1 where r: "I w1" "agree_round E ctx cur hi (ord i cands) hash br w =
      Done (w1, hash, (\<forall>be \<in> set cands. chain be hi = hash), br1)"
    unfolding assms(2) by blast
  show ?thesis
  proof (cases "\<forall>be \<in> set cands. chain be hi = hash")
    case True
    then show ?thesis
      using r(2) assms(5) f by (intro exI [of _ w1] exI [of _ hi] exI [of _ hash] exI [of _ br1]) auto
  next
    case False
    then have lt: "lo < hi" using assms(9) by blast
    have nz: "hi \<noteq> 0" using lt by auto
    have un: "unat (hi - 1) = unat hi - 1" using nz by (simp add: unat_minus_one)
    have le: "lo \<le> hi - 1" "hi - 1 \<le> hi" using lt un by (auto simp: word_le_nat_alt word_less_nat_alt)
    have "unat (hi - 1) - unat lo < f" using lt assms(6) un f by (auto simp: word_less_nat_alt)
    from consensus_loop_fresh [where ord = ord, OF assms(1-4) le this r(1), of cur "Suc i" br1]
    obtain w' p hash' br' where L: "consensus_loop ord E ctx cur cands f (Suc i) (hi - 1) [] br1 w1 = Done (Some (w', p, hash', br'))"
      "lo \<le> p" "p \<le> hi - 1" "\<forall>be \<in> set cands. chain be p = hash'"
      "\<forall>q. p < q \<and> q \<le> hi - 1 \<longrightarrow> \<not> agreed chain (set cands) q" by blast
    have "\<forall>q. p < q \<and> q < hi \<longrightarrow> \<not> agreed chain (set cands) q"
    proof (intro allI impI)
      fix q assume q: "p < q \<and> q < hi"
      then have "q < hi" by blast
      then have "q \<le> hi - 1" using un by (simp add: word_less_nat_alt word_le_nat_alt)
      then show "\<not> agreed chain (set cands) q" using L(5) q by blast
    qed
    moreover have "p \<le> hi" using L(3) le(2) by (rule order_trans)
    ultimately show ?thesis
      using r(2) False f L(1,2,4) by (intro exI [of _ w'] exI [of _ p] exI [of _ hash'] exI [of _ br']) auto
  qed
qed

text \<open>The lowest block numbers, when every candidate has some.\<close>

lemma lowest_step_latest:
  "latestBlockNumber bs \<noteq> 0 \<Longrightarrow> lowestLatestBlock (lowest_step bs l) =
    (if lowestLatestBlock l = 0 then latestBlockNumber bs else min (latestBlockNumber bs) (lowestLatestBlock l))"
  by (auto simp: lowest_step_def Let_def min_def)

lemma lowest_step_hash: "lowestLatestBlockHash (lowest_step bs l) \<in> {latestBlockHash bs, lowestLatestBlockHash l} \<and>
    (lowestLatestBlock l = 0 \<longrightarrow> lowestLatestBlockHash (lowest_step bs l) = latestBlockHash bs)"
  by (auto simp: lowest_step_def Let_def)

lemma fold_lowest:
  assumes "\<forall>bs \<in> set bss. latestBlockNumber bs \<noteq> 0 \<and> latestBlockHash bs \<noteq> []"
    and "lowestLatestBlock l \<noteq> 0" and "lowestLatestBlockHash l \<noteq> []"
  shows "let r = fold lowest_step bss l in lowestLatestBlock r \<noteq> 0 \<and> lowestLatestBlockHash r \<noteq> [] \<and>
    lowestLatestBlock r \<le> lowestLatestBlock l \<and> (\<forall>bs \<in> set bss. lowestLatestBlock r \<le> latestBlockNumber bs) \<and>
    (\<exists>n \<in> insert (lowestLatestBlock l) (latestBlockNumber ` set bss). lowestLatestBlock r = n)"
  using assms
proof (induction bss arbitrary: l)
  case (Cons bs bss)
  let ?l = "lowest_step bs l"
  have low: "lowestLatestBlock ?l = min (latestBlockNumber bs) (lowestLatestBlock l)"
    using Cons.prems by (simp add: lowest_step_latest)
  have "lowestLatestBlock ?l \<noteq> 0" using low Cons.prems by (auto simp: min_def)
  moreover have "lowestLatestBlockHash ?l \<noteq> []" using lowest_step_hash [of bs l] Cons.prems by auto
  ultimately show ?case
    using Cons.IH [of ?l] Cons.prems(1) low by (auto simp: Let_def min_def split: if_splits)
qed simp

lemma find_lowest_latest:
  assumes "\<forall>bs \<in> set bss. latestBlockNumber bs \<noteq> 0 \<and> latestBlockHash bs \<noteq> []" and "bss \<noteq> []"
  shows "lowestLatestBlock (find_lowest bss) \<noteq> 0 \<and> lowestLatestBlockHash (find_lowest bss) \<noteq> [] \<and>
    (\<forall>bs \<in> set bss. lowestLatestBlock (find_lowest bss) \<le> latestBlockNumber bs) \<and>
    (\<exists>bs \<in> set bss. lowestLatestBlock (find_lowest bss) = latestBlockNumber bs)"
proof -
  obtain b bs where bss: "bss = b # bs" using assms(2) by (cases bss) auto
  let ?z = "\<lparr>lowestLatestBlock = 0, lowestLatestBlockHash = [], lowestFinalizedBlock = 0, lowestSafeBlock = 0\<rparr>"
  let ?l = "lowest_step b ?z"
  have l: "lowestLatestBlock ?l = latestBlockNumber b" "lowestLatestBlockHash ?l = latestBlockHash b"
    by (simp_all add: lowest_step_def Let_def)
  have "find_lowest bss = fold lowest_step bs ?l" by (simp add: find_lowest_def bss)
  then show ?thesis
    using fold_lowest [of bs ?l] assms(1) l bss by (auto simp: Let_def)
qed

lemma candidates_result:
  assumes "getConsensusCandidates E bg cp w = Done (w', cs)"
  shows "same_world w w'" "distinct (map fst cs)" "fst ` set cs \<subseteq> set (bg_Backends bg)"
    and "fst ` set cs \<subseteq> set (Primaries w bg) \<or> fst ` set cs \<subseteq> set (Fallbacks w bg)"
    and "(be, bs) \<in> set cs \<Longrightarrow> cp_backendState cp be = Some bs"
proof -
  have filt: "same_world u u' \<and> distinct (map fst ds) \<and> (\<forall>(be, bs) \<in> set ds. be \<in> set bes \<and> cp_backendState cp be = Some bs)"
    if f: "FilterCandidates E cp bes u = Done (u', ds)" for bes u u' ds
  proof -
    obtain es where e: "eligible E cp bes u = Done (u', es)" and ds: "ds = not_lagging cp es"
      using f by (auto simp: FilterCandidates_def)
    have "distinct (map fst ds)" using eligible_result [OF e] by (simp add: ds not_lagging_def distinct_map_filter Let_def)
    moreover have "set ds \<subseteq> set es" by (auto simp: ds not_lagging_def Let_def)
    ultimately show ?thesis using eligible_result [OF e] by blast
  qed
  obtain w1 ps where p: "FilterCandidates E cp (Primaries w bg) w = Done (w1, ps)"
    using assms by (auto simp: getConsensusCandidates_def)
  note P = filt [OF p]
  have "same_world w w' \<and> distinct (map fst cs) \<and>
      ((\<forall>(be, bs) \<in> set cs. be \<in> set (Primaries w bg) \<and> cp_backendState cp be = Some bs) \<or>
       (\<forall>(be, bs) \<in> set cs. be \<in> set (Fallbacks w bg) \<and> cp_backendState cp be = Some bs))"
  proof (cases "ps = []")
    case True
    with assms p have f: "FilterCandidates E cp (Fallbacks w1 bg) w1 = Done (w', cs)"
      by (simp add: getConsensusCandidates_def)
    from filt [OF f] P show ?thesis by (auto simp: Fallbacks_cong intro: same_world_trans)
  next
    case False
    with assms p P show ?thesis by (simp add: getConsensusCandidates_def)
  qed
  moreover have "set (Primaries w bg) \<subseteq> set (bg_Backends bg)" "set (Fallbacks w bg) \<subseteq> set (bg_Backends bg)"
    by (auto simp: Primaries_def Fallbacks_def)
  ultimately show "same_world w w'" "distinct (map fst cs)" "fst ` set cs \<subseteq> set (bg_Backends bg)"
    and "fst ` set cs \<subseteq> set (Primaries w bg) \<or> fst ` set cs \<subseteq> set (Fallbacks w bg)"
    and "(be, bs) \<in> set cs \<Longrightarrow> cp_backendState cp be = Some bs"
    by fastforce+
qed

lemma agree_round_world:
  "agree_round E ctx cur n xs hash br w = Done (w', hash', all, br') \<Longrightarrow> same_world w w'"
proof (induction xs arbitrary: hash br w)
  case (Cons be xs)
  then obtain w1 r where f: "fetchBlock E ctx be (hex_String E n) w = Done (w1, r)" by auto
  note w1 = fetchBlock_world [OF f]
  from Cons.prems f consider "w' = w1" | hash1 where "agree_round E ctx cur n xs hash1 br w1 = Done (w', hash', all, br')"
    by (cases r) (auto simp: Let_def split: if_splits)
  then show ?case
  proof cases
    case 2
    show ?thesis by (rule same_world_trans [OF w1 Cons.IH [OF 2]])
  qed (use w1 in simp)
qed simp

lemma consensus_loop_world:
  "consensus_loop ord E ctx cur cands fuel i n hash br w = Done (Some (w', p, hash', br')) \<Longrightarrow> same_world w w'"
proof (induction fuel arbitrary: i n hash br w)
  case (Suc fuel)
  then obtain w1 hash1 all br1 where r: "agree_round E ctx cur n (ord i cands) hash br w = Done (w1, hash1, all, br1)"
    by auto
  note w1 = agree_round_world [OF r]
  show ?case
  proof (cases all)
    case False
    with Suc.prems r have "consensus_loop ord E ctx cur cands fuel (Suc i) (n - 1) [] br1 w1 = Done (Some (w', p, hash', br'))"
      by simp
    from same_world_trans [OF w1 Suc.IH [OF this]] show ?thesis .
  qed (use Suc.prems r w1 in auto)
qed simp

text \<open>What an update of the group changes: the tracker, and the group to the candidates.\<close>

lemma UpdateBackendGroupConsensus_result:
  assumes "UpdateBackendGroupConsensus ord E ctx fuel bg cp w = Done (Some (cp', w'))"
  shows "\<exists>w1 cs (l :: lowest) p. getConsensusCandidates E bg cp w = Done (w1, cs) \<and> same_world w w' \<and>
    cp' = (set_tracker p (lowestSafeBlock l) (lowestFinalizedBlock l) cp)
      \<lparr>consensusGroup := filter (\<lambda>be. be \<in> fst ` set cs) (bg_Backends bg)\<rparr>"
proof -
  obtain cur w1 cs where c: "cp_GetLatestBlockNumber cp = Done cur" "getConsensusCandidates E bg cp w = Done (w1, cs)"
    using assms by (auto simp: UpdateBackendGroupConsensus_def)
  let ?cands = "map fst cs" let ?l = "find_lowest (map (\<lambda>be. the (map_of cs be)) (ord 0 ?cands))"
  have fin: "same_world v (snd (finish_consensus bg ?cands ?l p b cp v)) \<and>
      fst (finish_consensus bg ?cands ?l p b cp v) = (set_tracker p (lowestSafeBlock ?l) (lowestFinalizedBlock ?l) cp)
      \<lparr>consensusGroup := filter (\<lambda>be. be \<in> fst ` set cs) (bg_Backends bg)\<rparr>" for v p b
    by (simp add: finish_consensus_def Let_def)
  have finished: ?thesis if w2: "same_world w w2" and f: "(cp', w') = finish_consensus bg ?cands ?l p b cp w2" for w2 p b
  proof -
    have e: "snd (finish_consensus bg ?cands ?l p b cp w2) = w'" "fst (finish_consensus bg ?cands ?l p b cp w2) = cp'"
      by (simp_all add: f [symmetric])
    have "same_world w w'" using same_world_trans [OF w2] fin [of w2 p b] unfolding e by blast
    moreover have "cp' = (set_tracker p (lowestSafeBlock ?l) (lowestFinalizedBlock ?l) cp)
      \<lparr>consensusGroup := filter (\<lambda>be. be \<in> fst ` set cs) (bg_Backends bg)\<rparr>"
      using fin [of w2 p b] unfolding e by blast
    ultimately show ?thesis
      using c(2) by blast
  qed
  note U = assms [unfolded UpdateBackendGroupConsensus_def c obind.simps prod.case Let_def]
  show ?thesis
  proof (cases "lowestLatestBlock ?l > 0")
    case True
    with U obtain w2 p hash b where
      l: "consensus_loop ord E ctx cur ?cands fuel 1 (lowestLatestBlock ?l) (lowestLatestBlockHash ?l) False w1 = Done (Some (w2, p, hash, b))"
      and f: "(cp', w') = finish_consensus bg ?cands ?l p b cp w2"
      by auto
    have "same_world w w2" using candidates_result(1) [OF c(2)] consensus_loop_world [OF l] by (rule same_world_trans)
    from this f show ?thesis by (rule finished)
  next
    case False
    with U have f: "(cp', w') = finish_consensus bg ?cands ?l (lowestLatestBlock ?l) False cp w1" by auto
    from candidates_result(1) [OF c(2)] f show ?thesis by (rule finished)
  qed
qed

section \<open>The candidates exactly\<close>

text \<open>The backends among \<open>bes\<close> that meet the conditions and do not lag behind another that does.\<close>

definition passing :: "('m, 'h) env \<Rightarrow> 'h ConsensusPoller \<Rightarrow> ('m, 'h) world \<Rightarrow> bref list \<Rightarrow> bref set" where
  "passing E cp w bes = {be \<in> set bes. \<exists>bs. cp_backendState cp be = Some bs \<and> cand_ok E cp w be bs \<and>
     (\<forall>be' \<in> set bes. \<forall>bs'. cp_backendState cp be' = Some bs' \<and> cand_ok E cp w be' bs' \<longrightarrow>
        unat (latestBlockNumber bs') \<le> unat (latestBlockNumber bs) + unat (maxBlockLag cp))}"

lemma passing_cong:
  assumes "\<And>be bs. be \<in> set bes \<Longrightarrow> cand_ok E cp w be bs = cand_ok E cp w' be bs"
  shows "passing E cp w bes = passing E cp w' bes"
  using assms unfolding passing_def by (intro Collect_cong) blast

lemma FilterCandidates_exact:
  assumes "distinct bes" and "\<And>be. be \<in> set bes \<Longrightarrow> cp_backendState cp be \<noteq> None"
  shows "\<exists>w' cs. FilterCandidates E cp bes w = Done (w', cs) \<and> fst ` set cs = passing E cp w bes"
proof -
  obtain w' es where e: "eligible E cp bes w = Done (w', es)"
    and es: "\<And>be bs. (be, bs) \<in> set es \<longleftrightarrow> be \<in> set bes \<and> cp_backendState cp be = Some bs \<and> cand_ok E cp w be bs"
    using eligible_total [OF assms, of E w] by blast
  have "fst ` set (not_lagging cp es) = {be. \<exists>bs. (be, bs) \<in> set (not_lagging cp es)}" by force
  also have "\<dots> = passing E cp w bes"
    unfolding not_lagging_iff passing_def
  proof (intro Collect_cong iffI)
    fix be assume "\<exists>bs. (be, bs) \<in> set es \<and> (\<forall>c \<in> set es. unat (latestBlockNumber (snd c)) \<le>
      unat (latestBlockNumber bs) + unat (maxBlockLag cp))"
    then obtain bs where bs: "(be, bs) \<in> set es" "\<And>c. c \<in> set es \<Longrightarrow> unat (latestBlockNumber (snd c)) \<le>
      unat (latestBlockNumber bs) + unat (maxBlockLag cp)" by blast
    have "unat (latestBlockNumber bs') \<le> unat (latestBlockNumber bs) + unat (maxBlockLag cp)"
      if "be' \<in> set bes" "cp_backendState cp be' = Some bs'" "cand_ok E cp w be' bs'" for be' bs'
      using bs(2) [of "(be', bs')"] that es by simp
    with bs(1) es show "be \<in> set bes \<and> (\<exists>bs. cp_backendState cp be = Some bs \<and> cand_ok E cp w be bs \<and>
     (\<forall>be' \<in> set bes. \<forall>bs'. cp_backendState cp be' = Some bs' \<and> cand_ok E cp w be' bs' \<longrightarrow>
        unat (latestBlockNumber bs') \<le> unat (latestBlockNumber bs) + unat (maxBlockLag cp)))" by blast
  next
    fix be assume "be \<in> set bes \<and> (\<exists>bs. cp_backendState cp be = Some bs \<and> cand_ok E cp w be bs \<and>
     (\<forall>be' \<in> set bes. \<forall>bs'. cp_backendState cp be' = Some bs' \<and> cand_ok E cp w be' bs' \<longrightarrow>
        unat (latestBlockNumber bs') \<le> unat (latestBlockNumber bs) + unat (maxBlockLag cp)))"
    then obtain bs where bs: "(be, bs) \<in> set es" "\<And>be' bs'. (be', bs') \<in> set es \<Longrightarrow>
        unat (latestBlockNumber bs') \<le> unat (latestBlockNumber bs) + unat (maxBlockLag cp)"
      using es by blast
    then show "\<exists>bs. (be, bs) \<in> set es \<and> (\<forall>c \<in> set es. unat (latestBlockNumber (snd c)) \<le>
      unat (latestBlockNumber bs) + unat (maxBlockLag cp))" by (metis prod.collapse)
  qed
  finally show ?thesis using e by (simp add: FilterCandidates_def)
qed

lemma eligible_frame:
  "eligible E cp bes w = Done (w', cs) \<Longrightarrow> be' \<notin> set bes \<Longrightarrow> w_be w' be' = w_be w be'"
proof (induction bes arbitrary: w w' cs)
  case (Cons be bes)
  obtain bs where bs: "cp_backendState cp be = Some bs"
    using Cons.prems by (cases "cp_backendState cp be") (auto simp: GetBackendState_def)
  obtain w1 ok where c: "is_candidate E cp be bs w = (w1, ok)" by (cases "is_candidate E cp be bs w")
  obtain cs1 where e: "eligible E cp bes w1 = Done (w', cs1)"
    using Cons.prems(1) bs c by (auto simp: GetBackendState_def)
  show ?case using Cons.IH [OF e] is_candidate_frame(3) [OF c, of be'] Cons.prems(2) by simp
qed simp

lemma candidates_exact:
  assumes "distinct (bg_Backends bg)" and "\<And>be. be \<in> set (bg_Backends bg) \<Longrightarrow> cp_backendState cp be \<noteq> None"
  shows "\<exists>w' cs. getConsensusCandidates E bg cp w = Done (w', cs) \<and>
    fst ` set cs = (if passing E cp w (Primaries w bg) \<noteq> {} then passing E cp w (Primaries w bg)
                    else passing E cp w (Fallbacks w bg))"
proof -
  have sub: "be \<in> set (Primaries w bg) \<or> be \<in> set (Fallbacks w bg) \<Longrightarrow> cp_backendState cp be \<noteq> None" for be
    using assms(2) by (auto simp: Primaries_def Fallbacks_def)
  have dist: "distinct (Primaries w bg)" "distinct (Fallbacks w bg)" using assms(1) by (simp_all add: Primaries_def Fallbacks_def)
  obtain w1 ps where p: "FilterCandidates E cp (Primaries w bg) w = Done (w1, ps)"
      "fst ` set ps = passing E cp w (Primaries w bg)"
    using FilterCandidates_exact [OF dist(1), of cp E w] sub by blast
  show ?thesis
  proof (cases "ps = []")
    case True
    obtain es where e: "eligible E cp (Primaries w bg) w = Done (w1, es)" using p(1) by (auto simp: FilterCandidates_def)
    note E1 = eligible_result [OF e]
    have fb: "Fallbacks w1 bg = Fallbacks w bg" using E1 by (simp add: Fallbacks_cong)
    have "be \<notin> set (Primaries w bg)" if "be \<in> set (Fallbacks w bg)" for be
      using that by (auto simp: Primaries_def Fallbacks_def)
    then have "passing E cp w1 (Fallbacks w bg) = passing E cp w (Fallbacks w bg)"
      using E1 eligible_frame [OF e] by (intro passing_cong cand_ok_cong) auto
    moreover obtain w2 cs where "FilterCandidates E cp (Fallbacks w bg) w1 = Done (w2, cs)"
        "fst ` set cs = passing E cp w1 (Fallbacks w bg)"
      using FilterCandidates_exact [OF dist(2), of cp E w1] sub by blast
    ultimately show ?thesis using p True by (auto simp: getConsensusCandidates_def fb)
  next
    case False
    then have "passing E cp w (Primaries w bg) \<noteq> {}" using p(2) by force
    with p False show ?thesis by (auto simp: getConsensusCandidates_def)
  qed
qed

section \<open>The invariant of the poller\<close>

definition poller_inv :: "'p BackendGroup \<Rightarrow> 'h ConsensusPoller \<Rightarrow> ('m, 'h) world \<Rightarrow> bool" where
  "poller_inv bg cp w \<longleftrightarrow>
     (\<forall>be bs. cp_backendState cp be = Some bs \<and> \<not> forcedCandidate (w_be w be) \<longrightarrow> tags_ordered bs) \<and>
     (\<forall>be \<in> set (bg_Backends bg). cp_backendState cp be \<noteq> None) \<and>
     set (consensusGroup cp) \<subseteq> set (bg_Backends bg) \<and> tracker cp \<noteq> None"

lemma good_update_ordered: "good_update forced bs bs' \<Longrightarrow> \<not> forced \<Longrightarrow> tags_ordered bs'"
  by (auto simp: good_update_def tags_ordered_def)

lemma poller_inv_updated:
  assumes "poller_inv bg cp w" and "updated (forcedCandidate (w_be w be)) be cp cp'"
  shows "poller_inv bg cp' w"
proof (cases "cp' = cp")
  case False
  then obtain bs bs' where bs: "cp_backendState cp be = Some bs" "good_update (forcedCandidate (w_be w be)) bs bs'"
      "cp' = cp\<lparr>cp_backendState := (cp_backendState cp)(be \<mapsto> bs')\<rparr>"
    using assms(2) unfolding updated_def by blast
  have "\<not> forcedCandidate (w_be w be) \<Longrightarrow> tags_ordered bs'" using good_update_ordered [OF bs(2)] .
  with assms(1) bs(3) show ?thesis by (auto simp: poller_inv_def split: if_splits)
qed (use assms in simp)

lemma poller_inv_world: "poller_inv bg cp w \<Longrightarrow> same_world w w' \<Longrightarrow> poller_inv bg cp w'"
  by (simp add: poller_inv_def same_world_fields)

lemma poller_inv_UpdateBackend:
  assumes "poller_inv bg cp w" and "UpdateBackend E ctx be cp w = Done (cp', w')"
  shows "poller_inv bg cp' w'"
  using UpdateBackend_updated [OF assms(2)] poller_inv_updated [OF assms(1)] poller_inv_world by blast

lemma FilterCandidates_world: "FilterCandidates E cp bes w = Done (w', cs) \<Longrightarrow> same_world w w'"
  by (auto simp: FilterCandidates_def dest: eligible_result)

lemma poller_inv_step:
  assumes "poller_step E ctx bg s s'" and "poller_inv bg (fst s) (snd s)"
  shows "poller_inv bg (fst s') (snd s')"
  using assms
proof cases
  case (primary be w cp)
  then show ?thesis using assms(2) poller_inv_UpdateBackend by (metis fst_conv snd_conv prod.collapse)
next
  case (fallback be w cp w')
  have "poller_inv bg cp w'"
    using assms(2) fallback FilterCandidates_world [OF fallback(3)] by (auto intro: poller_inv_world)
  then show ?thesis using fallback(4) poller_inv_UpdateBackend by (metis prod.collapse)
next
  case (idle be w cp w' c cs)
  then show ?thesis using assms(2) FilterCandidates_world [OF idle(4)] by (auto intro: poller_inv_world)
next
  case (group ord fuel cp w)
  obtain cp' w' where s': "s' = (cp', w')" by (cases s')
  obtain w1 cs p and l :: lowest where u: "same_world w w'" "getConsensusCandidates E bg cp w = Done (w1, cs)" "cp' = (set_tracker p (lowestSafeBlock l) (lowestFinalizedBlock l) cp)
      \<lparr>consensusGroup := filter (\<lambda>be. be \<in> fst ` set cs) (bg_Backends bg)\<rparr>"
    using UpdateBackendGroupConsensus_result [OF group(3) [unfolded s']] by blast
  have "poller_inv bg cp' w"
    using assms(2) group(1) u(3) by (auto simp: poller_inv_def set_tracker_def)
  then show ?thesis using u(1) s' by (auto intro: poller_inv_world)
next
  case (other w w' cp)
  then show ?thesis using assms(2) by (auto intro!: poller_inv_world [of bg cp w w'] simp: same_world_def)
qed

text \<open>The options of the poller leave the states of the backends and the group alone.\<close>

definition plain_opt :: "'h ConsensusOpt \<Rightarrow> bool" where
  "plain_opt opt \<longleftrightarrow> (\<forall>cp. cp_backendState (opt cp) = cp_backendState cp \<and> consensusGroup (opt cp) = consensusGroup cp)"

lemma plain_opts: "plain_opt (WithTracker t)" "plain_opt (WithAsyncHandler a)" "plain_opt (WithListener f)"
  "plain_opt (WithBanPeriod d)" "plain_opt (WithMaxUpdateThreshold d)" "plain_opt (WithMaxBlockLag n)"
  "plain_opt (WithMaxBlockRange n)" "plain_opt (WithMinPeerCount n)" "plain_opt (WithPollerInterval d)"
  by (simp_all add: plain_opt_def WithTracker_def WithAsyncHandler_def WithListener_def AddListener_def
      WithBanPeriod_def WithMaxUpdateThreshold_def WithMaxBlockLag_def WithMaxBlockRange_def WithMinPeerCount_def
      WithPollerInterval_def)

lemma fold_plain: "\<forall>opt \<in> set opts. plain_opt opt \<Longrightarrow>
    cp_backendState (fold (\<lambda>opt cp. opt cp) opts cp) = cp_backendState cp \<and>
    consensusGroup (fold (\<lambda>opt cp. opt cp) opts cp) = consensusGroup cp"
  by (induction opts arbitrary: cp) (auto simp: plain_opt_def)

lemma fold_reset:
  "(fold (\<lambda>be cp. cp\<lparr>cp_backendState := (cp_backendState cp)(be \<mapsto> zero_state)\<rparr>) bes cp) =
    cp\<lparr>cp_backendState := (\<lambda>be. if be \<in> set bes then Some zero_state else cp_backendState cp be)\<rparr>"
  by (induction bes arbitrary: cp) (auto simp: fun_eq_iff)

lemma poller_inv_New:
  fixes opts :: "'h ConsensusOpt list"
  assumes "\<forall>opt \<in> set opts. plain_opt opt"
  shows "poller_inv bg (NewConsensusPoller bg opts) w"
proof -
  define cp :: "'h ConsensusPoller" where "cp = \<lparr>cp_cancelled = False, listeners = [], cp_backendState = Map.empty, consensusGroup = [],
    tracker = None, asyncHandler = None, minPeerCount = 3, banPeriod = 5 * Minute, maxUpdateThreshold = 30 * Second,
    maxBlockLag = 8, cp_maxBlockRange = 0, interval = DefaultPollerInterval\<rparr>"
  define cp1 where "cp1 = fold (\<lambda>opt cp. opt cp) opts cp"
  define cp2 where "cp2 = (if tracker cp1 = None then cp1\<lparr>tracker := Some (InMemory NewInMemoryConsensusTracker)\<rparr> else cp1)"
  define cp3 where "cp3 = (if asyncHandler cp2 = None then cp2\<lparr>asyncHandler := Some PollerAsyncHandler\<rparr> else cp2)"
  have new: "NewConsensusPoller bg opts = cp3\<lparr>cp_backendState :=
      (\<lambda>be. if be \<in> set (bg_Backends bg) then Some zero_state else cp_backendState cp3 be)\<rparr>"
    unfolding NewConsensusPoller_def Let_def Reset_def fold_reset cp3_def cp2_def cp1_def cp_def ..
  have "cp_backendState cp1 = Map.empty" "consensusGroup cp1 = []"
    using fold_plain [OF assms, of cp] by (simp_all add: cp1_def cp_def)
  then have cp3: "cp_backendState cp3 = Map.empty" "consensusGroup cp3 = []" "tracker cp3 \<noteq> None"
    by (auto simp: cp2_def cp3_def)
  have "tags_ordered zero_state" by (simp add: tags_ordered_def zero_state_def)
  with cp3 show ?thesis by (auto simp: poller_inv_def new split: if_splits)
qed

section \<open>A network that always returns the same block\<close>

definition block_json :: gojson where
  "block_json = JObject [(''hash'', JString ''0xaa''), (''number'', JString (hex_String geth 1))]"

definition block_body :: bytes where
  "block_body = enc_fields [(''jsonrpc'', enc_string ''2.0''), (''result'', json_encode block_json), (''id'', ''67'')]"

definition block_net :: "((time \<times> bucket) list, script) env" where
  "block_net = scripted\<lparr>http_Do := (\<lambda>req h. (h, Inr \<lparr>hp_StatusCode = 200, hp_Body = [(block_body, Some EOF)]\<rparr>))\<rparr>"

lemma block_net_simps [simp]:
  "sem_Acquire block_net h = (h, None)" "sem_Release block_net h = h" "newRequest_err block_net u = None"
  "http_Do block_net req h = (h, Inr \<lparr>hp_StatusCode = 200, hp_Body = [(block_body, Some EOF)]\<rparr>)"
  "fnum block_net = fnum geth" "hex_String block_net = hex_String geth" "hex_DecodeUint64 block_net = hex_DecodeUint64 geth"
  by (simp_all add: block_net_def)

lemma eq_char_of: "c = char_of n \<longleftrightarrow> take_bit 8 n = (of_char c :: nat)"
  by (metis char_of_eq_iff)

lemma block_decoded: "Unmarshal_RPCRes (fnum geth) block_body =
    Some \<lparr>rs_JSONRPC = ''2.0'', rs_Result = Some (ResJSON block_json), rs_Error = None, rs_ID = ''67''\<rparr>"
proof -
  let ?fs = "[(''jsonrpc'', enc_string ''2.0''), (''result'', json_encode block_json), (''id'', ''67'')]"
  have canon: "canon block_json" by (simp add: block_json_def)
  have "num_ok ''67''" by (simp add: num_ok_def p_number_def p_frac_def p_exp_def is_digit_def)
  then have texts: "list_all2 (\<lambda>f. json_text (snd f)) ?fs [JString ''2.0'', block_json, JNum ''67'']"
    by (simp add: json_text_string json_text_num json_text_encode [OF canon])
  have parse: "json_parse (enc_string ''2.0'') = Some (JString ''2.0'')" "json_parse (json_encode block_json) = Some block_json"
    using json_text_parse [OF json_text_string] json_text_parse [OF json_text_encode [OF canon]] by auto
  have "field_raws ''JSONRPC'' ?fs = [enc_string ''2.0'']" "field_raws ''Result'' ?fs = [json_encode block_json]"
      "field_raws ''Error'' ?fs = []" "field_raws ''ID'' ?fs = [''67'']"
    by (simp_all add: field_raws_def to_lower_def eq_char_of)
  moreover have "any_of (fnum geth) block_json = Some block_json"
    by (simp add: block_json_def dedup_def)
  moreover have "block_json \<noteq> JNull" by (simp add: block_json_def)
  ultimately show ?thesis
    using raw_members_text [OF texts] json_text_parse [OF json_text_members [OF texts]] parse
    by (simp add: Unmarshal_RPCRes_def block_body_def raw_field_def split: gojson.split)
qed

text \<open>The worlds in which every backend accepts responses of that size.\<close>

definition roomy :: "((time \<times> bucket) list, script) world \<Rightarrow> bool" where
  "roomy w \<longleftrightarrow> (\<forall>be. int (length block_body) < maxResponseSize (w_be w be))"

lemma roomy_world: "roomy w \<Longrightarrow> same_world w w' \<Longrightarrow> roomy w'"
  unfolding roomy_def same_world_def using same_config_fields(4) by metis

text \<open>A request with ID 67 and any parameters can be sent.\<close>

lemma sendable:
  fixes m :: string
  assumes "list_all canon ps"
  defines "req \<equiv> \<lparr>rq_JSONRPC = JSONRPCVersion, rq_Method = m,
      rq_Params = (if ps = [] then ''null'' else json_encode (JArray ps)), rq_ID = ''67''\<rparr>"
  shows "\<exists>body. request_body [req] = Done body"
    and "m \<noteq> ConsensusGetReceiptsMethod \<Longrightarrow> translate L t False [req] = Done ([req], [], None)"
proof -
  have "canon (JArray ps)" using assms(1) by simp
  then have "json_parse (rq_Params req) \<noteq> None"
    using json_text_parse [OF json_text_encode] json_text_parse [OF json_text_literal(1)] by (auto simp: req_def simp del: json_encode.simps)
  moreover have "num_ok ''67''" by (simp add: num_ok_def p_number_def p_frac_def p_exp_def is_digit_def)
  then have "json_parse ''67'' \<noteq> None" using json_text_parse [OF json_text_num] by fastforce
  moreover have "rq_ID req = ''67''" by (simp add: req_def)
  ultimately have "compact (rq_Params req) \<noteq> None" "compact (rq_ID req) \<noteq> None" by (auto simp: compact_def)
  then show "\<exists>body. request_body [req] = Done body" by (auto simp: request_body_def marshal_RPCReq_def must_def)
  show "m \<noteq> ConsensusGetReceiptsMethod \<Longrightarrow> translate L t False [req] = Done ([req], [], None)"
    by (simp add: translate_def req_def)
qed

lemma block_ForwardRPC:
  assumes "int (length block_body) < maxResponseSize b" and "m \<noteq> ConsensusGetReceiptsMethod" and "list_all canon ps"
  shows "\<exists>b' h'. ForwardRPC block_net ctx b ''67'' m ps h =
    Done (b', h', Inr \<lparr>rs_JSONRPC = ''2.0'', rs_Result = Some (ResJSON block_json), rs_Error = None, rs_ID = ''67''\<rparr>)"
proof -
  define req where "req = \<lparr>rq_JSONRPC = JSONRPCVersion, rq_Method = m,
      rq_Params = (if ps = [] then ''null'' else json_encode (JArray ps)), rq_ID = ''67''\<rparr>"
  note snd = sendable [OF assms(3), of m, folded req_def]
  obtain body where body: "request_body [req] = Done body" using snd(1) by blast
  have tr: "translate block_net t False [req] = Done ([req], [], None)" for t by (rule snd(2) [OF assms(2)])
  have dec: "decode_responses block_net 1 block_body =
      Inr [Some \<lparr>rs_JSONRPC = ''2.0'', rs_Result = Some (ResJSON block_json), rs_Error = None, rs_ID = ''67''\<rparr>]"
    by (simp add: decode_responses_def block_decoded)
  have rd: "read_limited [(block_body, Some EOF)] (maxResponseSize b) = (block_body, None)"
    using assms(1) by (intro read_limited_whole) auto
  have sz: "maxResponseSize (network_request block_net h b) = maxResponseSize b" for h
    by (simp add: network_request_def)
  have "\<exists>b' h'. doForward block_net ctx b [req] False h = Done (b', [req], h',
      Inr [Some \<lparr>rs_JSONRPC = ''2.0'', rs_Result = Some (ResJSON block_json), rs_Error = None, rs_ID = ''67''\<rparr>])"
    using tr body dec rd by (simp add: doForward_def Let_def DoLimited_def handle_body_def sz sortBatchRPCResponse_def)
  then show ?thesis by (auto simp: ForwardRPC_def Let_def req_def [symmetric])
qed

lemma block_fetched:
  assumes "roomy w"
  shows "\<exists>w'. fetchBlock block_net ctx be block w = Done (w', Inr (1, ''0xaa'')) \<and> roomy w'"
proof -
  have "''eth_getBlockByNumber'' \<noteq> ConsensusGetReceiptsMethod" by (simp add: ConsensusGetReceiptsMethod_def)
  then obtain b' h' where "ForwardRPC block_net ctx (w_be w be) ''67'' ''eth_getBlockByNumber'' [JString block, JBool False] (w_net w) =
      Done (b', h', Inr \<lparr>rs_JSONRPC = ''2.0'', rs_Result = Some (ResJSON block_json), rs_Error = None, rs_ID = ''67''\<rparr>)"
    using block_ForwardRPC [of "w_be w be" "''eth_getBlockByNumber''" "[JString block, JBool False]"] assms
    unfolding roomy_def by fastforce
  then have f: "fetchBlock block_net ctx be block w = Done ((be_update be b' w)\<lparr>w_net := h'\<rparr>, Inr (1, ''0xaa''))"
    using gl.decode_String [of 1]
    by (simp add: fetchBlock_def be_ForwardRPC_def block_json_def must_string_def MustDecodeUint64_def)
  then show ?thesis using roomy_world [OF assms fetchBlock_world [OF f]] by blast
qed

lemma block_net_serves: "serves block_net ctx roomy (\<lambda>be n. ''0xaa'') bes 1 1"
  unfolding serves_def using block_fetched by (metis block_net_simps(6) list.discI order_antisym)

text \<open>A group of one forced backend that has reported block 1.\<close>

definition lone_group :: "script ConsensusPoller BackendGroup" where
  "lone_group = \<lparr>bg_Name = ''main'', bg_Backends = [0], WeightedRouting = False, Consensus = None,
     FallbackBackends = [(''a'', False)], routingStrategy = ''consensus_aware'', multicallRPCErrorCheck = False\<rparr>"

definition lone_world :: "((time \<times> bucket) list, script) world" where
  "lone_world = \<lparr>w_be = (\<lambda>_. NewBackend scripted ''a'' ''u'' []
      [WithConsensusForcedCandidate True, WithMaxResponseSize (int (length block_body) + 1)]),
     w_net = quiet []\<rparr>"

definition lone_state :: backendState where
  "lone_state = zero_state\<lparr>latestBlockNumber := 1, latestBlockHash := ''0xaa'', safeBlockNumber := 1, finalizedBlockNumber := 1\<rparr>"

definition lone_poller :: "script ConsensusPoller" where
  "lone_poller = (NewConsensusPoller lone_group [])\<lparr>cp_backendState := [0 \<mapsto> lone_state]\<rparr>"

lemma lone_candidates: "getConsensusCandidates E lone_group lone_poller lone_world = Done (lone_world, [(0, lone_state)])"
  by (simp add: getConsensusCandidates_def FilterCandidates_def Primaries_def lone_group_def lone_world_def NewBackend_def
      Override_def WithConsensusForcedCandidate_def WithMaxResponseSize_def GetBackendState_def lone_poller_def
      is_candidate_def not_lagging_def lone_state_def)

lemma lone_roomy: "roomy lone_world"
  by (simp add: roomy_def lone_world_def NewBackend_def Override_def WithConsensusForcedCandidate_def WithMaxResponseSize_def)

section \<open>Properties\<close>



text \<open>
  C33: a backend's safe and finalized blocks never go back, except by a ban, which resets them. An
  update that is not of a forced backend either leaves the poller as it was, or resets the
  numbers of that backend, or stores numbers that are ordered and not below the previous ones.
\<close>

theorem update_backend_monotone:
  assumes "UpdateBackend E ctx be cp w = Done (cp', w')" and "\<not> forcedCandidate (w_be w be)"
  shows "cp' = cp \<or> (\<exists>bs bs'. cp_backendState cp be = Some bs \<and>
      cp' = cp\<lparr>cp_backendState := (cp_backendState cp)(be \<mapsto> bs')\<rparr> \<and>
      (latestBlockNumber bs' = 0 \<and> safeBlockNumber bs' = 0 \<and> finalizedBlockNumber bs' = 0 \<or>
       finalizedBlockNumber bs \<le> finalizedBlockNumber bs' \<and> safeBlockNumber bs \<le> safeBlockNumber bs' \<and>
       finalizedBlockNumber bs' \<le> safeBlockNumber bs' \<and> safeBlockNumber bs' \<le> latestBlockNumber bs'))"
  using UpdateBackend_updated [OF assms(1)] assms(2)
  unfolding updated_def good_update_def tags_ordered_def by blast


text \<open>
  C5: the proposed block is the highest block the group agrees on. If the candidates serve a chain
  each and agree on some block \<open>lo\<close>, the update ends, after at most as many rounds as blocks lie
  between \<open>lo\<close> and their lowest latest block, with a block \<open>p\<close> that all candidates have with the same
  hash, that is not above the latest block of any of them, and above which, below their lowest
  latest block, they disagree everywhere. (At the lowest latest block itself the hash is compared with
  the one reported before.)
\<close>

theorem consensus_highest_common_block:
  assumes "tracker cp = Some t" and "getConsensusCandidates E bg cp w = Done (w1, cs)" and "cs \<noteq> []"
    and "\<forall>c \<in> set cs. latestBlockNumber (snd c) \<noteq> 0 \<and> latestBlockHash (snd c) \<noteq> []"
    and "\<forall>i xs. set (ord i xs) = set xs"
    and "l = find_lowest (map (\<lambda>be. the (map_of cs be)) (ord 0 (map fst cs)))"
    and "serves E ctx I chain (fst ` set cs) lo (lowestLatestBlock l)" and "I w1"
    and "agreed chain (fst ` set cs) lo" and "lo \<le> lowestLatestBlock l"
    and "lo < lowestLatestBlock l \<or> (\<forall>be \<in> fst ` set cs. chain be (lowestLatestBlock l) = lowestLatestBlockHash l)"
    and "unat (lowestLatestBlock l) - unat lo < fuel"
  shows "\<exists>p hash cp' w'. UpdateBackendGroupConsensus ord E ctx fuel bg cp w = Done (Some (cp', w')) \<and>
    tracker cp' = Some (SetFinalizedBlockNumber (lowestFinalizedBlock l)
      (SetSafeBlockNumber (lowestSafeBlock l) (SetLatestBlockNumber p t))) \<and>
    lo \<le> p \<and> (\<forall>c \<in> set cs. p \<le> latestBlockNumber (snd c)) \<and> (\<forall>be \<in> fst ` set cs. chain be p = hash) \<and>
    (\<forall>q. p < q \<and> (\<forall>c \<in> set cs. q < latestBlockNumber (snd c)) \<longrightarrow> \<not> agreed chain (fst ` set cs) q)"
proof -
  let ?cands = "map fst cs" let ?bss = "map (\<lambda>be. the (map_of cs be)) (ord 0 ?cands)"
  have "the (map_of cs (fst c)) = snd c" if "c \<in> set cs" for c
    using that candidates_result(2) [OF assms(2)] by (metis map_of_is_SomeI option.sel prod.collapse)
  then have "(\<lambda>c. the (map_of cs (fst c))) ` set cs = snd ` set cs" by (auto simp: image_def)
  then have bss: "set ?bss = snd ` set cs" using assms(5) by (simp add: image_image)
  then have ne: "?bss \<noteq> []" using assms(3) by (metis image_is_empty set_empty)
  have nz: "\<forall>bs \<in> set ?bss. latestBlockNumber bs \<noteq> 0 \<and> latestBlockHash bs \<noteq> []" unfolding bss using assms(4) by blast
  have low: "lowestLatestBlock l \<noteq> 0" "lowestLatestBlockHash l \<noteq> []"
      "\<And>c. c \<in> set cs \<Longrightarrow> lowestLatestBlock l \<le> latestBlockNumber (snd c)"
      "\<exists>c \<in> set cs. lowestLatestBlock l = latestBlockNumber (snd c)"
    using find_lowest_latest [OF nz ne, folded assms(6), unfolded bss] by blast+
  have "serves E ctx I chain (set ?cands) lo (lowestLatestBlock l)" "agreed chain (set ?cands) lo" "?cands \<noteq> []"
      "lo < lowestLatestBlock l \<or> (\<forall>be \<in> set ?cands. chain be (lowestLatestBlock l) = lowestLatestBlockHash l)"
    using assms(3,7,9,11) by simp_all
  from consensus_loop_result [where ord = ord and I = I, OF this(1) _ this(3,2) assms(10,12,8) low(2) this(4), of "GetLatestBlockNumber t" 1 False]
  obtain w2 p hash br where L: "consensus_loop ord E ctx (GetLatestBlockNumber t) ?cands fuel 1 (lowestLatestBlock l)
      (lowestLatestBlockHash l) False w1 = Done (Some (w2, p, hash, br))" "lo \<le> p" "p \<le> lowestLatestBlock l"
      "\<forall>be \<in> set ?cands. chain be p = hash" "\<forall>q. p < q \<and> q < lowestLatestBlock l \<longrightarrow> \<not> agreed chain (set ?cands) q"
    using assms(5) by blast
  obtain cp' w' where fin: "finish_consensus bg ?cands l p br cp w2 = (cp', w')"
    by (cases "finish_consensus bg ?cands l p br cp w2")
  have "UpdateBackendGroupConsensus ord E ctx fuel bg cp w = Done (Some (cp', w'))"
    using assms(1,2) L(1) low(1) fin
    by (simp add: UpdateBackendGroupConsensus_def cp_GetLatestBlockNumber_def Let_def assms(6) [symmetric] word_gt_0)
  moreover have "tracker cp' = Some (SetFinalizedBlockNumber (lowestFinalizedBlock l)
      (SetSafeBlockNumber (lowestSafeBlock l) (SetLatestBlockNumber p t)))"
    using fin assms(1) by (auto simp: finish_consensus_def set_tracker_def Let_def)
  ultimately show ?thesis
    using L low(3,4) by (intro exI [of _ p] exI [of _ hash] exI [of _ cp'] exI [of _ w']) (auto intro: order_trans)
qed

lemma consensus_highest_common_block_witness:
  "\<exists>p hash cp' w'. UpdateBackendGroupConsensus (\<lambda>i xs. xs) block_net no_ctx 1 lone_group lone_poller lone_world =
       Done (Some (cp', w')) \<and> 1 \<le> p \<and>
     tracker cp' = Some (InMemory \<lparr>ts_Latest = p, ts_Safe = 1, ts_Finalized = 1\<rparr>) \<and> hash = ''0xaa''"
proof -
  let ?l = "\<lparr>lowestLatestBlock = 1, lowestLatestBlockHash = ''0xaa'', lowestFinalizedBlock = 1, lowestSafeBlock = 1\<rparr>"
  have l: "?l = find_lowest (map (\<lambda>be. the (map_of [(0 :: bref, lone_state)] be)) [0])"
    by (simp add: find_lowest_def lowest_step_def lone_state_def)
  have t: "tracker lone_poller = Some (InMemory NewInMemoryConsensusTracker)"
    by (simp add: lone_poller_def NewConsensusPoller_def Reset_def fold_reset Let_def)
  have "\<exists>p hash cp' w'. UpdateBackendGroupConsensus (\<lambda>i xs. xs) block_net no_ctx 1 lone_group lone_poller lone_world = Done (Some (cp', w')) \<and>
    tracker cp' = Some (SetFinalizedBlockNumber (lowestFinalizedBlock ?l)
      (SetSafeBlockNumber (lowestSafeBlock ?l) (SetLatestBlockNumber p (InMemory NewInMemoryConsensusTracker)))) \<and>
    1 \<le> p \<and> (\<forall>c \<in> set [(0 :: bref, lone_state)]. p \<le> latestBlockNumber (snd c)) \<and> (\<forall>be \<in> fst ` set [(0 :: bref, lone_state)]. ''0xaa'' = hash) \<and>
    (\<forall>q. p < q \<and> (\<forall>c \<in> set [(0 :: bref, lone_state)]. q < latestBlockNumber (snd c)) \<longrightarrow>
       \<not> agreed (\<lambda>be n. ''0xaa'') (fst ` set [(0 :: bref, lone_state)]) q)"
    by (rule consensus_highest_common_block [OF t lone_candidates, where chain = "\<lambda>be n. ''0xaa''" and I = roomy and l = ?l and lo = 1
          and ord = "\<lambda>i xs. xs"])
      (use l [symmetric] lone_roomy block_net_serves [of no_ctx "{0}"] in \<open>simp_all add: lone_state_def agreed_def\<close>)
  then show ?thesis by (fastforce simp: NewInMemoryConsensusTracker_def)
qed


text \<open>
  C34: backends that do not answer count as agreeing. If no candidate serves the proposed block, the
  round ends in agreement, so the lowest reported block becomes the consensus although no backend
  confirmed it.
\<close>

theorem unreachable_backends_agree:
  assumes "\<forall>w be. \<exists>w' err. fetchBlock E ctx be (hex_String E n) w = Done (w', Inl err)"
  shows "\<exists>w'. consensus_loop ord E ctx cur cands (Suc fuel) i n hash br w = Done (Some (w', n, hash, br))"
proof -
  have "\<exists>w'. agree_round E ctx cur n xs hash br w = Done (w', hash, True, br)" for xs w
  proof (induction xs arbitrary: w)
    case (Cons be xs)
    obtain w1 err where "fetchBlock E ctx be (hex_String E n) w = Done (w1, Inl err)" using assms by blast
    with Cons.IH [of w1] show ?case by simp
  qed simp
  then obtain w' where "agree_round E ctx cur n (ord i cands) hash br w = Done (w', hash, True, br)" by blast
  then show ?thesis by (simp del: agree_round.simps)
qed

definition dead_net :: "((time \<times> bucket) list, script) env" where
  "dead_net = scripted\<lparr>http_Do := (\<lambda>req h. (h, Inl (Errorf ''connection refused'')))\<rparr>"

lemma dead_net_fetch: "\<exists>w' err. fetchBlock dead_net ctx be block w = Done (w', Inl err)"
proof -
  define req where "req = \<lparr>rq_JSONRPC = JSONRPCVersion, rq_Method = ''eth_getBlockByNumber'',
      rq_Params = (if [JString block, JBool False] = [] then ''null'' else json_encode (JArray [JString block, JBool False])), rq_ID = ''67''\<rparr>"
  have ps: "list_all canon [JString block, JBool False]" by simp
  note snd = sendable [OF ps, of "''eth_getBlockByNumber''", folded req_def]
  obtain body where body: "request_body [req] = Done body" using snd(1) by blast
  have tr: "translate dead_net t False [req] = Done ([req], [], None)" for t
    by (rule snd(2)) (simp add: ConsensusGetReceiptsMethod_def)
  have "\<exists>b' h' err. doForward dead_net ctx b [req] False h = Done (b', [req], h', Inl err)" for b h
    using tr body by (simp add: doForward_def Let_def DoLimited_def dead_net_def)
  then obtain b' h' err where "doForward dead_net ctx (w_be w be) [req] False (w_net w) = Done (b', [req], h', Inl err)" by blast
  then have "ForwardRPC dead_net ctx (w_be w be) ''67'' ''eth_getBlockByNumber'' [JString block, JBool False] (w_net w) = Done (b', h', Inl err)"
    unfolding ForwardRPC_def Let_def req_def [symmetric] by simp
  then show ?thesis by (simp add: fetchBlock_def be_ForwardRPC_def)
qed

lemma unreachable_backends_agree_witness:
  "\<exists>w'. consensus_loop (\<lambda>i xs. xs) dead_net no_ctx 0 [0] 1 1 100 ''0xaa'' False lone_world = Done (Some (w', 100, ''0xaa'', False))"
proof -
  have "\<forall>w be. \<exists>w' err. fetchBlock dead_net no_ctx be (hex_String dead_net 100) w = Done (w', Inl err)"
    using dead_net_fetch by blast
  from unreachable_backends_agree [OF this, of "\<lambda>i xs. xs" 0 "[0]" 0 1 "''0xaa''" False lone_world] show ?thesis by simp
qed

text \<open>A backend of its own kind for updates: not forced, its peers not counted.\<close>

definition plain_world :: "((time \<times> bucket) list, script) world" where
  "plain_world = \<lparr>w_be = (\<lambda>_. NewBackend scripted ''a'' ''u'' []
      [WithConsensusSkipPeerCountCheck True, WithMaxResponseSize (int (length block_body) + 1)]),
     w_net = quiet []\<rparr>"

lemma block_with_block:
  assumes "roomy w" and "\<And>w'. roomy w' \<Longrightarrow> \<exists>r. rest 1 ''0xaa'' w' = Done r"
  shows "\<exists>r. with_block block_net ctx be tag cp w rest = Done r"
proof -
  obtain w1 where "fetchBlock block_net ctx be tag w = Done (w1, Inr (1, ''0xaa''))" "roomy w1"
    using block_fetched [OF assms(1)] by blast
  with assms(2) show ?thesis by (simp add: with_block_def)
qed

lemma block_UpdateBackend:
  assumes "roomy w" and "\<And>b. skipPeerCountCheck (w_be w b)" and "cp_backendState cp be = Some bs"
  shows "\<exists>r. UpdateBackend block_net ctx be cp w = Done r"
proof -
  obtain w1 ok where h: "be_IsHealthy block_net be w = (w1, ok)" by (cases "be_IsHealthy block_net be w")
  have w1: "same_world w w1" using IsHealthy_world [of w block_net be] h by simp
  have ban: "\<exists>cp'. Ban block_net be v cp2 = Done cp'" if "cp_backendState cp2 be \<noteq> None" for v cp2
    using that by (auto simp: Ban_def upd_state_def GetBackendState_def)
  have "''eth_syncing'' \<noteq> ConsensusGetReceiptsMethod" by (simp add: ConsensusGetReceiptsMethod_def)
  then obtain b' h' where f: "ForwardRPC block_net ctx (w_be w1 be) ''67'' ''eth_syncing'' [] (w_net w1) =
      Done (b', h', Inr \<lparr>rs_JSONRPC = ''2.0'', rs_Result = Some (ResJSON block_json), rs_Error = None, rs_ID = ''67''\<rparr>)"
    using block_ForwardRPC [of "w_be w1 be" "''eth_syncing''" "[]"] roomy_world [OF assms(1) w1] unfolding roomy_def by fastforce
  let ?w2 = "(be_update be b' w1)\<lparr>w_net := h'\<rparr>"
  have s: "isInSync block_net ctx be w1 = Done (?w2, Inr False)"
    using f by (simp add: isInSync_def be_ForwardRPC_def block_json_def)
  have w2: "same_world w ?w2" using w1 isInSync_world [OF s] by (rule same_world_trans)
  have skip: "skipPeerCountCheck (w_be ?w2 be)"
    using assms(2) w2 same_config_fields(11) unfolding same_world_def by metis
  have tail: "\<exists>r. obind (setBackendState t be p y l hash sf fn cp) (\<lambda>(cp, changed).
      if c \<and> d then obind (Ban block_net be v cp) (\<lambda>cp. Done (cp, v)) else Done (cp, v)) = Done r" for t p y l hash sf fn c d v
  proof -
    obtain cp2 ch where "setBackendState t be p y l hash sf fn cp = Done (cp2, ch)" "cp_backendState cp2 be \<noteq> None"
      using assms(3) by (simp add: setBackendState_def upd_state_def GetBackendState_def)
    with ban [of cp2 v] show ?thesis by auto
  qed
  have wp: "with_peers block_net ctx be cp ?w2 rest = rest 0 ?w2" for rest using skip by (simp add: with_peers_def)
  have body: "\<exists>r. with_peers block_net ctx be cp ?w2 (\<lambda>peers w.
                     with_block block_net ctx be ''latest'' cp w (\<lambda>latest hash w.
                     with_block block_net ctx be ''safe'' cp w (\<lambda>safe _ w.
                     with_block block_net ctx be ''finalized'' cp w (\<lambda>final _ w.
                       obind (setBackendState (net_clock block_net (w_net w)) be peers False latest hash safe final cp) (\<lambda>(cp, changed).
                         if \<not> checkExpectedBlockTags latest (safeBlockNumber bs) safe (finalizedBlockNumber bs) final \<and>
                            \<not> forcedCandidate (w_be w be)
                         then obind (Ban block_net be w cp) (\<lambda>cp. Done (cp, w))
                         else Done (cp, w)))))) = Done r"
    unfolding wp
    by (rule block_with_block [OF roomy_world [OF assms(1) w2]], (erule block_with_block)+, rule tail)
  show ?thesis
    using h s body ban [of cp w1] assms(3)
    by (auto simp: UpdateBackend_def GetBackendState_def simp del: obind_Done_iff)
qed

lemma update_backend_monotone_witness:
  "\<exists>cp' w'. UpdateBackend block_net no_ctx 0 lone_poller plain_world = Done (cp', w') \<and>
     (cp' = lone_poller \<or> (\<exists>bs'. cp_backendState cp' 0 = Some bs' \<and>
       (latestBlockNumber bs' = 0 \<or> 1 \<le> finalizedBlockNumber bs')))"
proof -
  have r: "roomy plain_world" "\<And>b. skipPeerCountCheck (w_be plain_world b)" "\<not> forcedCandidate (w_be plain_world 0)"
    by (simp_all add: plain_world_def roomy_def NewBackend_def Override_def WithConsensusSkipPeerCountCheck_def WithMaxResponseSize_def)
  have st: "cp_backendState lone_poller 0 = Some lone_state" by (simp add: lone_poller_def)
  obtain cp' w' where u: "UpdateBackend block_net no_ctx 0 lone_poller plain_world = Done (cp', w')"
    using block_UpdateBackend [OF r(1,2) st] by fast
  from update_backend_monotone [OF u r(3)] st u show ?thesis by (auto simp: lone_state_def)
qed

end
