(* ===== verification/Backend_Group.thy ===== *)
theory Backend_Group
  imports Consensus_Poller Rewriter
begin

text \<open>
  Backend groups (\<open>BackendGroup\<close> of \<open>proxyd/backend.go\<close>): the order in which backends are tried,
  failover, multicall, and the consensus-aware rewriting of requests and responses.

  The weighted shuffle is a library and an argument \<open>ShuffleInplace\<close>. A multicall asks all backends
  at once; here they run one after the other, in the order \<open>arrival\<close> in which their responses reach
  the channel. Requests are pointers that the callees modify, so every operation returns them.
\<close>

section \<open>Order of backends\<close>

type_synonym 'h weighted_shuffle = "(bref \<Rightarrow> int) \<Rightarrow> bref list \<Rightarrow> 'h \<Rightarrow> 'h \<times> bref list"

definition swap :: "nat \<Rightarrow> nat \<Rightarrow> 'a list \<Rightarrow> 'a list" where
  "swap i j xs = xs[i := xs ! j, j := xs ! i]"

text \<open>\<open>rand.Shuffle\<close> from index \<open>i\<close> down.\<close>

fun shuffle_from :: "('m, 'h) env \<Rightarrow> nat \<Rightarrow> 'a list \<Rightarrow> 'h \<Rightarrow> 'h \<times> 'a list" where
  "shuffle_from E 0 xs h = (h, xs)"
| "shuffle_from E (Suc i) xs h =
     (let (h, j) = rand_Int63n E (int (Suc i) + 1) h
      in shuffle_from E i (swap (Suc i) (nat j) xs) h)"

definition rand_Shuffle :: "('m, 'h) env \<Rightarrow> 'a list \<Rightarrow> 'h \<Rightarrow> 'h \<times> 'a list" where
  "rand_Shuffle E xs h = shuffle_from E (length xs - 1) xs h"

definition weightedShuffle :: "'h weighted_shuffle \<Rightarrow> bref list \<Rightarrow> ('m, 'h) world \<Rightarrow> ('m, 'h) world \<times> bref list" where
  "weightedShuffle ShuffleInplace backends w =
     (let (h, backends) = ShuffleInplace (\<lambda>be. weight (w_be w be)) backends (w_net w)
      in (w\<lparr>w_net := h\<rparr>, backends))"

fun split_health ::
  "('m, 'h) env \<Rightarrow> bref list \<Rightarrow> ('m, 'h) world \<Rightarrow> ('m, 'h) world \<times> bref list \<times> bref list" where
  "split_health E [] w = (w, [], [])"
| "split_health E (be # bes) w =
     (let (w, ok) = be_IsHealthy E be w;
          (w, healthy, unhealthy) = split_health E bes w
      in if ok then (w, be # healthy, unhealthy) else (w, healthy, be # unhealthy))"

fun split_degraded ::
  "('m, 'h) env \<Rightarrow> bref list \<Rightarrow> ('m, 'h) world \<Rightarrow> ('m, 'h) world \<times> bref list \<times> bref list" where
  "split_degraded E [] w = (w, [], [])"
| "split_degraded E (be # bes) w =
     (let (w, ok) = be_IsHealthy E be w
      in if \<not> ok then split_degraded E bes w
         else
           (let (w, deg) = be_IsDegraded E be w;
                (w, healthy, degraded) = split_degraded E bes w
            in if deg then (w, healthy, be # degraded) else (w, be # healthy, degraded)))"

definition loadBalancedConsensusGroup ::
  "('m, 'h) env \<Rightarrow> 'h weighted_shuffle \<Rightarrow> 'p BackendGroup \<Rightarrow> 'h ConsensusPoller \<Rightarrow> ('m, 'h) world
    \<Rightarrow> ('m, 'h) world \<times> bref list" where
  "loadBalancedConsensusGroup E S bg cp w =
     (let cg = GetConsensusGroup cp;
          (w, backendsHealthy, backendsDegraded) = split_degraded E cg w;
          (h, backendsHealthy) = rand_Shuffle E backendsHealthy (w_net w);
          (h, backendsDegraded) = rand_Shuffle E backendsDegraded h;
          w = w\<lparr>w_net := h\<rparr>;
          (w, backendsHealthy) = (if WeightedRouting bg then weightedShuffle S backendsHealthy w else (w, backendsHealthy))
      in (w, backendsHealthy @ backendsDegraded))"

definition orderedBackendsForRequest ::
  "('m, 'h) env \<Rightarrow> 'h weighted_shuffle \<Rightarrow> 'h ConsensusPoller BackendGroup \<Rightarrow> ('m, 'h) world
    \<Rightarrow> ('m, 'h) world \<times> bref list" where
  "orderedBackendsForRequest E S bg w =
     (case Consensus bg of
        Some cp \<Rightarrow> loadBalancedConsensusGroup E S bg cp w
      | None \<Rightarrow>
          (let (w, healthy, unhealthy) = split_health E (bg_Backends bg) w
           in if WeightedRouting bg then
                (let (w, healthy) = weightedShuffle S healthy w;
                     (w, unhealthy) = weightedShuffle S unhealthy w
                 in (w, healthy @ unhealthy))
              else (w, healthy @ unhealthy)))"

section \<open>Failover\<close>

record BackendGroupRPCResponse =
  br_RPCRes :: "RPCRes option list"
  br_ServedBy :: string
  br_error :: "error option"

definition be_Forward ::
  "('m, 'h) env \<Rightarrow> req_ctx \<Rightarrow> bref \<Rightarrow> RPCReq list \<Rightarrow> bool \<Rightarrow> ('m, 'h) world
    \<Rightarrow> (('m, 'h) world \<times> RPCReq list \<times> (error + RPCRes option list)) outcome" where
  "be_Forward E ctx be reqs isBatch w =
     obind (Forward E ctx (w_be w be) reqs isBatch (w_net w)) (\<lambda>(b, reqs, h, r).
       Done ((be_update be b w)\<lparr>w_net := h\<rparr>, reqs, r))"

text \<open>The errors after which no other backend is tried.\<close>

definition final_error :: "error \<Rightarrow> bool" where
  "final_error err \<longleftrightarrow>
     errors_Is (Some err) (Std ErrConsensusGetReceiptsCantBeBatched) \<or>
     errors_Is (Some err) (Std ErrConsensusGetReceiptsInvalidTarget) \<or>
     errors_Is (Some err) (RPCE (Global ErrMethodNotWhitelisted)) \<or>
     errors_Is (Some err) (RPCE (Global ErrBackendResponseTooLarge))"

fun ForwardRequestToBackendGroup ::
  "('m, 'h) env \<Rightarrow> req_ctx \<Rightarrow> string \<Rightarrow> RPCReq list \<Rightarrow> bref list \<Rightarrow> bool \<Rightarrow> ('m, 'h) world
    \<Rightarrow> (('m, 'h) world \<times> RPCReq list \<times> BackendGroupRPCResponse) outcome" where
  "ForwardRequestToBackendGroup E ctx name rpcReqs [] isBatch w =
     Done (w, rpcReqs, \<lparr>br_RPCRes = [], br_ServedBy = [], br_error = Some (RPCE (Global ErrNoBackends))\<rparr>)"
| "ForwardRequestToBackendGroup E ctx name rpcReqs (back # backends) isBatch w =
     (let servedBy = name @ ''/'' @ Name (w_be w back)
      in if rpcReqs = [] then Done (w, rpcReqs, \<lparr>br_RPCRes = [], br_ServedBy = servedBy, br_error = None\<rparr>)
         else
           obind (be_Forward E ctx back rpcReqs isBatch w) (\<lambda>(w, rpcReqs, r).
             case r of
               Inr res \<Rightarrow> Done (w, rpcReqs, \<lparr>br_RPCRes = res, br_ServedBy = servedBy, br_error = None\<rparr>)
             | Inl err \<Rightarrow>
                 if final_error err then
                   Done (w, rpcReqs, \<lparr>br_RPCRes = [], br_ServedBy = [], br_error = Some err\<rparr>)
                 else ForwardRequestToBackendGroup E ctx name rpcReqs backends isBatch w))"

section \<open>Multicall\<close>

definition isValidMulticallTx :: "RPCReq list \<Rightarrow> bool" where
  "isValidMulticallTx rpcReqs =
     (case rpcReqs of [req] \<Rightarrow> rq_Method req = ''eth_sendRawTransaction'' | _ \<Rightarrow> False)"

record multicallTuple =
  mt_response :: BackendGroupRPCResponse
  mt_backendName :: string

definition MulticallRequest ::
  "('m, 'h) env \<Rightarrow> req_ctx \<Rightarrow> string \<Rightarrow> bref \<Rightarrow> RPCReq list \<Rightarrow> ('m, 'h) world
    \<Rightarrow> (('m, 'h) world \<times> RPCReq list \<times> multicallTuple) outcome" where
  "MulticallRequest E ctx name backend rpcReqs w =
     obind (ForwardRequestToBackendGroup E ctx name rpcReqs [backend] False w) (\<lambda>(w, rpcReqs, backendResp).
       Done (w, rpcReqs, \<lparr>mt_response = backendResp, mt_backendName = Name (w_be w backend)\<rparr>))"

fun MulticallRequests ::
  "('m, 'h) env \<Rightarrow> req_ctx \<Rightarrow> string \<Rightarrow> bref list \<Rightarrow> RPCReq list \<Rightarrow> ('m, 'h) world
    \<Rightarrow> (('m, 'h) world \<times> RPCReq list \<times> multicallTuple list) outcome" where
  "MulticallRequests E ctx name [] rpcReqs w = Done (w, rpcReqs, [])"
| "MulticallRequests E ctx name (be # bes) rpcReqs w =
     obind (MulticallRequest E ctx name be rpcReqs w) (\<lambda>(w, rpcReqs, t).
     obind (MulticallRequests E ctx name bes rpcReqs w) (\<lambda>(w, rpcReqs, ts). Done (w, rpcReqs, t # ts)))"

text \<open>The loop over the channel; \<open>finalResp\<close> is the last response that was not a success, if any.\<close>

fun ProcessMulticallResponses ::
  "bool \<Rightarrow> BackendGroupRPCResponse option \<Rightarrow> multicallTuple list \<Rightarrow> BackendGroupRPCResponse outcome" where
  "ProcessMulticallResponses check finalResp [] =
     (case finalResp of
        Some resp \<Rightarrow> Done resp
      | None \<Rightarrow> Done \<lparr>br_RPCRes = [], br_ServedBy = [], br_error = Some (Errorf ''no multicall response received'')\<rparr>)"
| "ProcessMulticallResponses check finalResp (t # ts) =
     (let resp = mt_response t
      in if br_error resp \<noteq> None then ProcessMulticallResponses check (Some resp) ts
         else if check then
           (case br_RPCRes resp of
              [] \<Rightarrow> out_of_range
            | None # _ \<Rightarrow> nil_deref
            | Some r # _ \<Rightarrow> if IsError r then ProcessMulticallResponses check (Some resp) ts else Done resp)
         else Done resp)"

definition ExecuteMulticall ::
  "('m, 'h) env \<Rightarrow> (bref list \<Rightarrow> bref list) \<Rightarrow> req_ctx \<Rightarrow> 'p BackendGroup \<Rightarrow> RPCReq list \<Rightarrow> ('m, 'h) world
    \<Rightarrow> (('m, 'h) world \<times> RPCReq list \<times> BackendGroupRPCResponse) outcome" where
  "ExecuteMulticall E arrival ctx bg rpcReqs w =
     obind (MulticallRequests E ctx (bg_Name bg) (arrival (bg_Backends bg)) rpcReqs w) (\<lambda>(w, rpcReqs, ts).
     obind (ProcessMulticallResponses (multicallRPCErrorCheck bg) None ts) (\<lambda>resp.
     Done (w, rpcReqs, resp)))"

section \<open>Consensus-aware requests\<close>

record indexedReqRes =
  ir_index :: nat
  ir_req :: RPCReq
  ir_res :: "RPCRes option"

text \<open>The requests from index \<open>i\<close> on: all of them after rewriting, the ones to forward, and the ones
  answered here.\<close>

fun overwrite_reqs ::
  "'a lib_scheme \<Rightarrow> RewriteContext \<Rightarrow> nat \<Rightarrow> RPCReq list
    \<Rightarrow> (RPCReq list \<times> RPCReq list \<times> indexedReqRes list) outcome" where
  "overwrite_reqs L rctx i [] = Done ([], [], [])"
| "overwrite_reqs L rctx i (req # reqs) =
     (let res = \<lparr>rs_JSONRPC = JSONRPCVersion, rs_Result = None, rs_Error = None, rs_ID = rq_ID req\<rparr>
      in obind (RewriteTags L rctx req res) (\<lambda>(req, res, result, err).
         obind (overwrite_reqs L rctx (Suc i) reqs) (\<lambda>(allReqs, rewrittenReqs, overridden).
           case result of
             RewriteOverrideError \<Rightarrow>
               (let e = (if errors_Is err (Std ErrRewriteBlockOutOfRange) then Global ErrBlockOutOfRange
                         else if errors_Is err (Std ErrRewriteRangeTooLarge) then
                           ErrInvalidParams (''block range greater than '' @ int_text (uint (maxBlockRange rctx)) @ '' max'')
                         else Global ErrParseErr);
                    res = res\<lparr>rs_Error := Some e\<rparr>
                in Done (req # allReqs, rewrittenReqs, \<lparr>ir_index = i, ir_req = req, ir_res = Some res\<rparr> # overridden))
           | RewriteOverrideResponse \<Rightarrow>
               Done (req # allReqs, rewrittenReqs, \<lparr>ir_index = i, ir_req = req, ir_res = Some res\<rparr> # overridden)
           | _ \<Rightarrow> Done (req # allReqs, req # rewrittenReqs, overridden))))"

definition group_rctx :: "'h ConsensusPoller \<Rightarrow> RewriteContext outcome" where
  "group_rctx cp =
     obind (cp_GetLatestBlockNumber cp) (\<lambda>lat.
     obind (cp_GetSafeBlockNumber cp) (\<lambda>saf.
     obind (cp_GetFinalizedBlockNumber cp) (\<lambda>fin.
       Done \<lparr>latest = lat, safe = saf, finalized = fin, maxBlockRange = cp_maxBlockRange cp\<rparr>)))"

definition OverwriteConsensusResponses ::
  "'a lib_scheme \<Rightarrow> 'h ConsensusPoller \<Rightarrow> RPCReq list \<Rightarrow> (RPCReq list \<times> RPCReq list \<times> indexedReqRes list) outcome" where
  "OverwriteConsensusResponses L cp rpcReqs = obind (group_rctx cp) (\<lambda>rctx. overwrite_reqs L rctx 0 rpcReqs)"

text \<open>Inserting the responses that were not forwarded. Go allows the slice expression up to the
  capacity of the slice; an index beyond its length does not occur (\<open>group_forward_complete\<close>).\<close>

fun OverrideResponses :: "RPCRes option list \<Rightarrow> indexedReqRes list \<Rightarrow> RPCRes option list outcome" where
  "OverrideResponses res [] = Done res"
| "OverrideResponses res (ov # ovs) =
     (if length res > 0 then
        (if ir_index ov > length res then Panic ''slice bounds out of range''
         else OverrideResponses (insert_at (ir_index ov) (ir_res ov) res) ovs)
      else OverrideResponses (res @ [ir_res ov]) ovs)"

text \<open>The requests of the caller after forwarding: a forwarded request may have been changed again.\<close>

fun merge_reqs :: "nat \<Rightarrow> nat set \<Rightarrow> RPCReq list \<Rightarrow> RPCReq list \<Rightarrow> RPCReq list" where
  "merge_reqs i here [] fwd = []"
| "merge_reqs i here (req # reqs) fwd =
     (if i \<in> here then req # merge_reqs (Suc i) here reqs fwd
      else case fwd of
             [] \<Rightarrow> req # merge_reqs (Suc i) here reqs []
           | f # fs \<Rightarrow> f # merge_reqs (Suc i) here reqs fs)"

definition MulticallRoutingStrategy :: string where "MulticallRoutingStrategy = ''multicall''"

definition GetRoutingStrategy :: "'p BackendGroup \<Rightarrow> string" where
  "GetRoutingStrategy bg = routingStrategy bg"

definition group_Forward ::
  "('m, 'h) env \<Rightarrow> 'h weighted_shuffle \<Rightarrow> (bref list \<Rightarrow> bref list) \<Rightarrow> req_ctx \<Rightarrow> 'h ConsensusPoller BackendGroup
    \<Rightarrow> RPCReq list \<Rightarrow> bool \<Rightarrow> ('m, 'h) world
    \<Rightarrow> (('m, 'h) world \<times> RPCReq list \<times> BackendGroupRPCResponse) outcome" where
  "group_Forward E S arrival ctx bg rpcReqs isBatch w =
     (if length rpcReqs = 0 then Done (w, rpcReqs, \<lparr>br_RPCRes = [], br_ServedBy = [], br_error = None\<rparr>)
      else
        (let (w, backends) = orderedBackendsForRequest E S bg w
         in obind (case Consensus bg of
                     None \<Rightarrow> Done (rpcReqs, rpcReqs, [])
                   | Some cp \<Rightarrow> OverwriteConsensusResponses E cp rpcReqs)
              (\<lambda>(allReqs, rpcReqs, overriddenResponses).
               (let merged = merge_reqs 0 (ir_index ` set overriddenResponses) allReqs
                in if GetRoutingStrategy bg = MulticallRoutingStrategy \<and> isValidMulticallTx rpcReqs \<and> \<not> isBatch then
                     obind (ExecuteMulticall E arrival ctx bg rpcReqs w) (\<lambda>(w, rpcReqs, backendResp).
                       Done (w, merged rpcReqs, backendResp))
                   else
                     obind (ForwardRequestToBackendGroup E ctx (bg_Name bg) rpcReqs backends isBatch w)
                       (\<lambda>(w, rpcReqs, backendResp).
                        if br_error backendResp \<noteq> None then Done (w, merged rpcReqs, backendResp)
                        else obind (OverrideResponses (br_RPCRes backendResp) overriddenResponses) (\<lambda>res.
                             Done (w, merged rpcReqs, backendResp\<lparr>br_RPCRes := res\<rparr>)))))))"

definition group_Shutdown :: "'h ConsensusPoller BackendGroup \<Rightarrow> 'h ConsensusPoller BackendGroup" where
  "group_Shutdown bg = bg\<lparr>Consensus := map_option Shutdown (Consensus bg)\<rparr>"

section \<open>Responses and their requests\<close>

lemma Forward_loop_IDs:
  "Forward_loop E ctx isBatch n i lastError b reqs h = Done (b', reqs', h', r) \<Longrightarrow> map rq_ID reqs' = map rq_ID reqs"
proof (induction n arbitrary: i lastError b reqs h)
  case (Suc n)
  then obtain b1 reqs1 h1 r1 where d: "doForward E ctx b reqs isBatch h = Done (b1, reqs1, h1, r1)"
    by (auto split: if_splits)
  note ids = doForward_IDs [OF d]
  show ?case
  proof (cases r1)
    case (Inr res)
    with Suc.prems d ids show ?thesis by (auto split: if_splits)
  next
    case (Inl err)
    show ?thesis
    proof (cases "not_retried err")
      case True
      with Suc.prems d Inl ids show ?thesis by (auto split: if_splits)
    next
      case False
      obtain h2 dd where "calcBackoff E i h1 = (h2, dd)" by fastforce
      with Suc.prems d Inl False have
        "Forward_loop E ctx isBatch n (Suc i) (Some err) b1 reqs1 (sleepContext E dd h2) = Done (b', reqs', h', r)"
        by (auto split: if_splits)
      from Suc.IH [OF this] ids show ?thesis by simp
    qed
  qed
qed simp

lemma be_Forward_result:
  assumes "be_Forward E ctx be reqs isBatch w = Done (w', reqs', r)"
  shows "map rq_ID reqs' = map rq_ID reqs" and "r = Inr res \<Longrightarrow> answers reqs res"
proof -
  from assms obtain b h where f: "Forward E ctx (w_be w be) reqs isBatch (w_net w) = Done (b, reqs', h, r)"
    by (auto simp: be_Forward_def)
  from Forward_loop_IDs [OF this [unfolded Forward_def]] show "map rq_ID reqs' = map rq_ID reqs" .
  show "answers reqs res" if "r = Inr res"
    using Forward_loop_answers [OF f [unfolded Forward_def that]] .
qed

text \<open>The responses of a group for the requests that are forwarded; nothing is sent for no request.\<close>

definition served :: "RPCReq list \<Rightarrow> BackendGroupRPCResponse \<Rightarrow> bool" where
  "served reqs resp \<longleftrightarrow> br_error resp = None \<longrightarrow>
     (if reqs = [] then br_RPCRes resp = [] else answers reqs (br_RPCRes resp))"

lemma served_cong: "map rq_ID reqs = map rq_ID reqs' \<Longrightarrow> served reqs resp = served reqs' resp"
  unfolding served_def by (metis answers_cong map_is_Nil_conv)

lemma ForwardRequest_result:
  "ForwardRequestToBackendGroup E ctx name reqs backends isBatch w = Done (w', reqs', resp) \<Longrightarrow>
     map rq_ID reqs' = map rq_ID reqs \<and> served reqs resp"
proof (induction backends arbitrary: reqs w)
  case (Cons be backends)
  show ?case
  proof (cases "reqs = []")
    case False
    with Cons.prems obtain w1 reqs1 r where f: "be_Forward E ctx be reqs isBatch w = Done (w1, reqs1, r)"
      by (auto simp: Let_def)
    note ids = be_Forward_result(1) [OF f]
    show ?thesis
    proof (cases r)
      case (Inr res)
      with f False Cons.prems have "reqs' = reqs1" "resp = \<lparr>br_RPCRes = res, br_ServedBy = name @ ''/'' @ Name (w_be w be), br_error = None\<rparr>"
        by (auto simp: Let_def)
      with ids be_Forward_result(2) [OF f Inr] False show ?thesis by (simp add: served_def)
    next
      case (Inl err)
      show ?thesis
      proof (cases "final_error err")
        case True
        with Inl f False Cons.prems ids show ?thesis by (auto simp: Let_def served_def)
      next
        case nf: False
        with Inl f False Cons.prems
        have "ForwardRequestToBackendGroup E ctx name reqs1 backends isBatch w1 = Done (w', reqs', resp)"
          by (simp add: Let_def)
        from Cons.IH [OF this] ids served_cong [OF ids] show ?thesis by simp
      qed
    qed
  qed (use Cons.prems in \<open>auto simp: served_def Let_def\<close>)
qed (auto simp: served_def)

lemma MulticallRequests_result:
  "MulticallRequests E ctx name bes reqs w = Done (w', reqs', ts) \<Longrightarrow>
     map rq_ID reqs' = map rq_ID reqs \<and> (\<forall>t \<in> set ts. served reqs (mt_response t)) \<and> length ts = length bes"
proof (induction bes arbitrary: reqs w ts)
  case (Cons be bes)
  then obtain w1 reqs1 t ts1 where t: "MulticallRequest E ctx name be reqs w = Done (w1, reqs1, t)"
      and ts: "MulticallRequests E ctx name bes reqs1 w1 = Done (w', reqs', ts1)" and "ts = t # ts1"
    by auto
  from t obtain resp where "ForwardRequestToBackendGroup E ctx name reqs [be] False w = Done (w1, reqs1, resp)"
      and "mt_response t = resp"
    by (auto simp: MulticallRequest_def)
  with ForwardRequest_result have f: "map rq_ID reqs1 = map rq_ID reqs" "served reqs (mt_response t)" by blast+
  with Cons.IH [OF ts] served_cong [OF f(1)] \<open>ts = t # ts1\<close> show ?case by simp
qed simp

text \<open>The response of a multicall: the first success, and otherwise the last response.\<close>

definition success :: "bool \<Rightarrow> multicallTuple \<Rightarrow> bool" where
  "success check t \<longleftrightarrow> br_error (mt_response t) = None \<and>
     (check \<longrightarrow> \<not> IsError (the (hd (br_RPCRes (mt_response t)))))"

definition first_success :: "bool \<Rightarrow> BackendGroupRPCResponse \<Rightarrow> multicallTuple list \<Rightarrow> BackendGroupRPCResponse" where
  "first_success check dflt ts =
     (case List.find (success check) ts of
        Some t \<Rightarrow> mt_response t
      | None \<Rightarrow> if ts = [] then dflt else mt_response (last ts))"

definition no_multicall_response :: BackendGroupRPCResponse where
  "no_multicall_response =
     \<lparr>br_RPCRes = [], br_ServedBy = [], br_error = Some (Errorf ''no multicall response received'')\<rparr>"

lemma ProcessMulticallResponses_first:
  assumes "reqs \<noteq> []" and "\<forall>t \<in> set ts. served reqs (mt_response t)"
  shows "ProcessMulticallResponses check f ts =
    Done (first_success check (case f of Some r \<Rightarrow> r | None \<Rightarrow> no_multicall_response) ts)"
  using assms(2)
proof (induction ts arbitrary: f)
  case Nil
  then show ?case by (simp add: first_success_def no_multicall_response_def split: option.split)
next
  case (Cons t ts)
  note IH = Cons.IH [of "Some (mt_response t)"]
  show ?case
  proof (cases "br_error (mt_response t)")
    case (Some e)
    with IH Cons.prems show ?thesis by (simp add: first_success_def success_def split: option.split)
  next
    case None
    with Cons.prems assms(1) have "answers reqs (br_RPCRes (mt_response t))" by (simp add: served_def)
    then have "length (br_RPCRes (mt_response t)) = length reqs" "None \<notin> set (br_RPCRes (mt_response t))"
      by (simp_all add: answers_def)
    with assms(1) obtain r rs where "br_RPCRes (mt_response t) = Some r # rs"
      by (cases "br_RPCRes (mt_response t)"; cases "hd (br_RPCRes (mt_response t))") auto
    with None IH Cons.prems show ?thesis
      by (cases check; cases "IsError r") (simp_all add: Let_def first_success_def success_def split: option.split)
  qed
qed

section \<open>Splicing in the local answers\<close>

text \<open>The answer given here to a request, if it is not forwarded.\<close>

definition local_answer :: "'a lib_scheme \<Rightarrow> RewriteContext \<Rightarrow> RPCReq \<Rightarrow> RPCRes option" where
  "local_answer L rctx req =
     (case overwrite_reqs L rctx 0 [req] of Done (_, _, ov # _) \<Rightarrow> ir_res ov | _ \<Rightarrow> None)"

text \<open>The reference for \<open>OverrideResponses\<close>: walk over the requests, taking the local answer where there
  is one and the next forwarded response otherwise.\<close>

fun weave :: "'a option list \<Rightarrow> 'a option list \<Rightarrow> 'a option list" where
  "weave [] fs = []"
| "weave (Some r # ls) fs = Some r # weave ls fs"
| "weave (None # ls) (f # fs) = f # weave ls fs"
| "weave (None # ls) [] = None # weave ls []"

lemma weave_length [simp]: "length (weave ls fs) = length ls"
  by (induction ls fs rule: weave.induct) simp_all

lemma weave_local: "i < length ls \<Longrightarrow> ls ! i \<noteq> None \<Longrightarrow> weave ls fs ! i = ls ! i"
  by (induction ls fs arbitrary: i rule: weave.induct) (auto simp: nth_Cons')

lemma weave_set:
  "length fs = length (filter (\<lambda>l. l = None) ls) \<Longrightarrow> set (weave ls fs) = set fs \<union> (set ls - {None})"
  by (induction ls fs rule: weave.induct) auto

lemma weave_IDs:
  assumes "\<And>req r. l req = Some r \<Longrightarrow> rs_ID r = rq_ID req"
    and "map (rs_ID \<circ> the) fs = map rq_ID (filter (\<lambda>req. l req = None) reqs)"
  shows "map (rs_ID \<circ> the) (weave (map l reqs) fs) = map rq_ID reqs"
  using assms(2)
proof (induction reqs arbitrary: fs)
  case (Cons req reqs)
  then show ?case
  proof (cases "l req")
    case None
    with Cons.prems obtain f fs1 where "fs = f # fs1" by (cases fs) auto
    with None Cons show ?thesis by simp
  qed (simp add: assms(1))
qed simp

text \<open>Rewriting keeps the IDs of the request and of the prepared response.\<close>

abbreviation (input) keeps_IDs :: "RPCReq \<Rightarrow> RPCRes \<Rightarrow> rewrite_ret \<Rightarrow> bool" where
  "keeps_IDs req res ret \<equiv> rq_ID (fst ret) = rq_ID req \<and> rs_ID (fst (snd ret)) = rs_ID res"

lemma rewriteParam_ID: "keeps_IDs req res (rewriteParam L rctx req res pos required f)"
  by (simp add: rewriteParam_def Let_def split: option.splits sum.splits)

lemma rewriteRange_ID: "rewriteRange L rctx req res pos = Done ret \<Longrightarrow> keeps_IDs req res ret"
  by (auto simp: rewriteRange_def Let_def split: option.splits sum.splits if_splits prod.splits)

lemma RewriteRequest_ID:
  assumes "RewriteRequest L rctx req res = Done ret"
  shows "keeps_IDs req res ret"
proof -
  have P: "keeps_IDs req res ret" if "Done (rewriteParam L rctx req res pos required f) = Done ret" for pos required f
    using that rewriteParam_ID [of L rctx req res pos required f] by simp
  have "(if b then x else y) = Done ret \<Longrightarrow> x = Done ret \<or> y = Done ret"
    for b and x y :: "rewrite_ret outcome" by (cases b) simp_all
  note split = this [THEN disjE]
  from assms show ?thesis unfolding RewriteRequest_def Let_def
    by (elim split) (erule rewriteRange_ID | erule P | force)+
qed

lemma RewriteTags_ID: "RewriteTags L rctx req res = Done ret \<Longrightarrow> keeps_IDs req res ret"
  by (auto simp: RewriteTags_def RewriteResponse_def split: prod.splits if_splits dest: RewriteRequest_ID)

text \<open>One request, by the kind of its rewriting.\<close>

lemma overwrite_Cons:
  assumes "overwrite_reqs L rctx i (req # reqs) = Done (allr, fwd, ovs)"
  obtains (fwd) req1 allr1 fwd1 where "local_answer L rctx req = None" "allr = req1 # allr1" "fwd = req1 # fwd1"
      "overwrite_reqs L rctx (Suc i) reqs = Done (allr1, fwd1, ovs)" "rq_ID req1 = rq_ID req"
  | (here) req1 allr1 r ovs1 where "local_answer L rctx req = Some r" "allr = req1 # allr1"
      "ovs = \<lparr>ir_index = i, ir_req = req1, ir_res = Some r\<rparr> # ovs1"
      "overwrite_reqs L rctx (Suc i) reqs = Done (allr1, fwd, ovs1)" "rq_ID req1 = rq_ID req"
      "rs_ID r = rq_ID req"
proof -
  let ?res = "\<lparr>rs_JSONRPC = JSONRPCVersion, rs_Result = None, rs_Error = None, rs_ID = rq_ID req\<rparr>"
  from assms obtain req1 res1 result err where t: "RewriteTags L rctx req ?res = Done (req1, res1, result, err)"
    by (auto simp: Let_def)
  with assms obtain allr1 fwd1 ovs1 where r: "overwrite_reqs L rctx (Suc i) reqs = Done (allr1, fwd1, ovs1)"
    by (auto simp: Let_def)
  note I = assms [unfolded overwrite_reqs.simps Let_def t obind.simps prod.case r]
  note T = RewriteTags_ID [OF t] t r
  show thesis
  proof (cases result)
    case RewriteNone
    with I T show thesis by (intro fwd [of req1 allr1 fwd1]) (simp_all add: local_answer_def Let_def)
  next
    case RewriteOverrideRequest
    with I T show thesis by (intro fwd [of req1 allr1 fwd1]) (simp_all add: local_answer_def Let_def)
  next
    case RewriteOverrideResponse
    with I T show thesis by (intro here [of _ req1 allr1 ovs1]) (auto simp: local_answer_def Let_def)
  next
    case RewriteOverrideError
    with I T show thesis by (intro here [of _ req1 allr1 ovs1]) (auto simp: local_answer_def Let_def)
  qed
qed

abbreviation (input) local_answers :: "'a lib_scheme \<Rightarrow> RewriteContext \<Rightarrow> RPCReq list \<Rightarrow> RPCRes option list" where
  "local_answers L rctx reqs \<equiv> map (local_answer L rctx) reqs"

lemma overwrite_IDs:
  "overwrite_reqs L rctx i reqs = Done (allr, fwd, ovs) \<Longrightarrow>
     map rq_ID allr = map rq_ID reqs \<and>
     map rq_ID fwd = map rq_ID (filter (\<lambda>req. local_answer L rctx req = None) reqs) \<and>
     (\<forall>ov \<in> set ovs. i \<le> ir_index ov) \<and>
     length ovs = length (filter (\<lambda>req. local_answer L rctx req \<noteq> None) reqs)"
proof (induction reqs arbitrary: i allr fwd ovs)
  case (Cons req reqs)
  from Cons.prems show ?case
  proof (cases rule: overwrite_Cons)
    case (fwd req1 allr1 fwd1)
    with Cons.IH [OF fwd(4)] show ?thesis by auto
  next
    case (here req1 allr1 r ovs1)
    with Cons.IH [OF here(4)] show ?thesis by auto
  qed
qed simp

text \<open>Inserting at the recorded indices gives the same list as walking over the requests.\<close>

lemma OverrideResponses_weave:
  assumes "overwrite_reqs L rctx (length pre) reqs = Done (allr, fwd, ovs)" and "length fs = length fwd"
  shows "OverrideResponses (pre @ fs) ovs = Done (pre @ weave (local_answers L rctx reqs) fs)"
  using assms
proof (induction reqs arbitrary: pre allr fwd ovs fs)
  case (Cons req reqs)
  from Cons.prems(1) show ?case
  proof (cases rule: overwrite_Cons)
    case (fwd req1 allr1 fwd1)
    with Cons.prems(2) obtain f fs1 where fs: "fs = f # fs1" by (cases fs) auto
    with fwd Cons.IH [of "pre @ [f]" allr1 fwd1 ovs fs1] Cons.prems(2) show ?thesis by simp
  next
    case (here req1 allr1 r ovs1)
    note IH = Cons.IH [of "pre @ [Some r]" allr1 fwd ovs1 fs, OF _ Cons.prems(2)]
    show ?thesis
    proof (cases "pre @ fs = []")
      case True
      with here IH show ?thesis by simp
    next
      case False
      with here IH show ?thesis by (simp add: insert_at_append)
    qed
  qed
qed simp

lemma merge_reqs_IDs:
  assumes "overwrite_reqs L rctx i reqs = Done (allr, fwd, ovs)" and "map rq_ID fwd' = map rq_ID fwd"
    and "\<forall>j \<in> earlier. j < i"
  shows "map rq_ID (merge_reqs i (earlier \<union> ir_index ` set ovs) allr fwd') = map rq_ID reqs"
  using assms
proof (induction reqs arbitrary: i allr fwd ovs fwd' earlier)
  case (Cons req reqs)
  have earlier: "\<forall>j \<in> earlier. j < Suc i" "\<forall>j \<in> insert i earlier. j < Suc i"
    using Cons.prems(3) by auto
  from Cons.prems(1) show ?case
  proof (cases rule: overwrite_Cons)
    case (fwd req1 allr1 fwd1)
    with Cons.prems(2) obtain f fs where f: "fwd' = f # fs" "rq_ID f = rq_ID req" "map rq_ID fs = map rq_ID fwd1"
      by (cases fwd') auto
    have "i \<notin> earlier \<union> ir_index ` set ovs" using overwrite_IDs [OF fwd(4)] Cons.prems(3) by auto
    with f fwd Cons.IH [OF fwd(4) f(3) earlier(1)] show ?thesis by simp
  next
    case (here req1 allr1 r ovs1)
    with Cons.IH [OF here(4) Cons.prems(2) earlier(2)] show ?thesis by simp
  qed
qed simp

lemma local_answer_ID: "local_answer L rctx req = Some r \<Longrightarrow> rs_ID r = rq_ID req"
proof -
  assume r: "local_answer L rctx req = Some r"
  then obtain allr fwd ovs where o: "overwrite_reqs L rctx 0 [req] = Done (allr, fwd, ovs)"
    unfolding local_answer_def by (auto split: outcome.splits)
  from o r show ?thesis by (cases rule: overwrite_Cons) simp_all
qed

section \<open>A group's answers\<close>

definition group_local :: "'a lib_scheme \<Rightarrow> 'h ConsensusPoller BackendGroup \<Rightarrow> RPCReq \<Rightarrow> RPCRes option" where
  "group_local L bg req =
     (case Consensus bg of
        None \<Rightarrow> None
      | Some cp \<Rightarrow> (case group_rctx cp of Done rctx \<Rightarrow> local_answer L rctx req | Panic _ \<Rightarrow> None))"

lemma weave_None: "length fs = length xs \<Longrightarrow> weave (map (\<lambda>_. None) xs) fs = fs"
proof (induction xs arbitrary: fs)
  case (Cons x xs)
  then show ?case by (cases fs) auto
qed simp

lemma ExecuteMulticall_result:
  assumes "ExecuteMulticall E arrival ctx bg reqs w = Done (w', reqs', resp)" and "reqs \<noteq> []"
  shows "map rq_ID reqs' = map rq_ID reqs \<and> served reqs resp"
proof -
  from assms(1) obtain ts where m: "MulticallRequests E ctx (bg_Name bg) (arrival (bg_Backends bg)) reqs w = Done (w', reqs', ts)"
    and p: "ProcessMulticallResponses (multicallRPCErrorCheck bg) None ts = Done resp"
    by (auto simp: ExecuteMulticall_def)
  note r = MulticallRequests_result [OF m]
  have "resp = first_success (multicallRPCErrorCheck bg) no_multicall_response ts"
    using p ProcessMulticallResponses_first [OF assms(2), of ts "multicallRPCErrorCheck bg" None] r by simp
  then have "resp = no_multicall_response \<or> (\<exists>t \<in> set ts. resp = mt_response t)"
    by (auto simp: first_success_def find_Some_iff split: option.splits)
  with r show ?thesis by (auto simp: no_multicall_response_def served_def)
qed

lemma group_Forward_result:
  assumes run: "group_Forward E S arrival ctx bg reqs isBatch w = Done (w', reqs', resp)"
    and ok: "br_error resp = None" and "reqs \<noteq> []" and shape: "isBatch \<or> length reqs = 1"
  obtains fwd fs where "map rq_ID fwd = map rq_ID (filter (\<lambda>req. group_local E bg req = None) reqs)"
    "length fs = length fwd" "fwd = [] \<or> answers fwd fs"
    "br_RPCRes resp = weave (map (group_local E bg) reqs) fs" "map rq_ID reqs' = map rq_ID reqs"
proof -
  obtain w1 backends where ord: "orderedBackendsForRequest E S bg w = (w1, backends)" by fastforce
  let ?over = "case Consensus bg of None \<Rightarrow> Done (reqs, reqs, []) | Some cp \<Rightarrow> OverwriteConsensusResponses E cp reqs"
  from run \<open>reqs \<noteq> []\<close> ord obtain allr fwd ovs where o: "?over = Done (allr, fwd, ovs)"
    by (auto simp: group_Forward_def Let_def)
  have O: "map rq_ID fwd = map rq_ID (filter (\<lambda>req. group_local E bg req = None) reqs) \<and>
      length ovs + length fwd = length reqs \<and>
      (\<forall>fs. length fs = length fwd \<longrightarrow> OverrideResponses fs ovs = Done (weave (map (group_local E bg) reqs) fs)) \<and>
      (\<forall>fwd'. map rq_ID fwd' = map rq_ID fwd \<longrightarrow> map rq_ID (merge_reqs 0 (ir_index ` set ovs) allr fwd') = map rq_ID reqs)"
  proof (cases "Consensus bg")
    case None
    have m: "map rq_ID fwd' = map rq_ID rs \<Longrightarrow> map rq_ID (merge_reqs i {} rs fwd') = map rq_ID rs" for fwd' rs i
      by (induction rs arbitrary: fwd' i) (auto simp: Cons_eq_map_conv)
    have "group_local E bg = (\<lambda>_. None)" using None by (auto simp: group_local_def)
    with None o show ?thesis by (auto simp: weave_None m)
  next
    case (Some cp)
    with o obtain rctx where c: "group_rctx cp = Done rctx" and r: "overwrite_reqs E rctx 0 reqs = Done (allr, fwd, ovs)"
      by (auto simp: OverwriteConsensusResponses_def)
    have gl: "group_local E bg = local_answer E rctx" using Some c by (auto simp: group_local_def)
    have n: "length fwd = length (filter (\<lambda>req. local_answer E rctx req = None) reqs)"
      using overwrite_IDs [OF r] by (metis length_map)
    with sum_length_filter_compl [of "\<lambda>req. local_answer E rctx req = None" reqs] overwrite_IDs [OF r]
      OverrideResponses_weave [of E rctx "[]" reqs allr fwd ovs] merge_reqs_IDs [OF r, of _ "{}"] r
    show ?thesis unfolding gl by auto
  qed
  show thesis
  proof (cases "GetRoutingStrategy bg = MulticallRoutingStrategy \<and> isValidMulticallTx fwd \<and> \<not> isBatch")
    case True
    with run o ord \<open>reqs \<noteq> []\<close> obtain fwd' where m: "ExecuteMulticall E arrival ctx bg fwd w1 = Done (w', fwd', resp)"
      and reqs': "reqs' = merge_reqs 0 (ir_index ` set ovs) allr fwd'"
      by (auto simp: group_Forward_def Let_def)
    from True have "length fwd = 1" by (auto simp: isValidMulticallTx_def split: list.splits)
    then have ne: "fwd \<noteq> []" by auto
    from \<open>length fwd = 1\<close> O shape True have "ovs = []" by auto
    note r = ExecuteMulticall_result [OF m ne]
    from r ok ne have a: "answers fwd (br_RPCRes resp)" by (simp add: served_def)
    then have "length (br_RPCRes resp) = length fwd" by (simp add: answers_def)
    moreover from this O \<open>ovs = []\<close> have "br_RPCRes resp = weave (map (group_local E bg) reqs) (br_RPCRes resp)"
      by (metis OverrideResponses.simps(1) outcome.inject(1))
    ultimately show thesis using that [of fwd "br_RPCRes resp"] O a r reqs' by auto
  next
    case False
    with run o ord \<open>reqs \<noteq> []\<close> obtain w2 fwd' r1 where
        f: "ForwardRequestToBackendGroup E ctx (bg_Name bg) fwd backends isBatch w1 = Done (w2, fwd', r1)"
      by (auto simp: group_Forward_def Let_def)
    note r = ForwardRequest_result [OF f]
    have e: "br_error r1 = None" using run o ord \<open>reqs \<noteq> []\<close> False f ok
      by (auto simp: group_Forward_def Let_def split: if_splits)
    with r have "length (br_RPCRes r1) = length fwd" "fwd \<noteq> [] \<Longrightarrow> answers fwd (br_RPCRes r1)"
      by (auto simp: served_def answers_def split: if_splits)
    moreover from run o ord \<open>reqs \<noteq> []\<close> False f e this(1) O
    have "br_RPCRes resp = weave (map (group_local E bg) reqs) (br_RPCRes r1)"
        "reqs' = merge_reqs 0 (ir_index ` set ovs) allr fwd'"
      by (auto simp: group_Forward_def Let_def)
    ultimately show thesis using that [of fwd "br_RPCRes r1"] O r by auto
  qed
qed

lemma group_local_ID: "group_local L bg req = Some r \<Longrightarrow> rs_ID r = rq_ID req"
  by (auto simp: group_local_def local_answer_ID split: option.splits outcome.splits)

lemma group_local_blockNumber:
  assumes "Consensus bg = Some cp" and "tracker cp \<noteq> None" and "rq_Method req = ''eth_blockNumber''"
  shows "group_local L bg req = Some \<lparr>rs_JSONRPC = JSONRPCVersion,
    rs_Result = Some (ResUint64 (GetLatestBlockNumber (the (tracker cp)))), rs_Error = None, rs_ID = rq_ID req\<rparr>"
  using assms by (auto simp: group_local_def group_rctx_def cp_GetLatestBlockNumber_def cp_GetSafeBlockNumber_def
      cp_GetFinalizedBlockNumber_def local_answer_def RewriteTags_def RewriteResponse_def Let_def)

section \<open>Routing\<close>

lemma mset_swap: "i < length xs \<Longrightarrow> j < length xs \<Longrightarrow> mset (swap i j xs) = mset xs"
  by (simp add: swap_def mset_update nth_list_update)

lemma length_swap [simp]: "length (swap i j xs) = length xs"
  by (simp add: swap_def)

text \<open>What routing relies on: the weighted shuffle permutes, and random numbers are in range.\<close>

locale routing =
  fixes E :: "('m, 'h) env" and ShuffleInplace :: "'h weighted_shuffle"
  assumes ShuffleInplace_mset: "mset (snd (ShuffleInplace wt bes h)) = mset bes"
    and rand_range: "0 < n \<Longrightarrow> 0 \<le> snd (rand_Int63n E n h) \<and> snd (rand_Int63n E n h) < n"
begin

lemma shuffle_from_mset: "i < length xs \<Longrightarrow> mset (snd (shuffle_from E i xs h)) = mset xs"
proof (induction i arbitrary: xs h)
  case (Suc i)
  obtain h1 j where r: "rand_Int63n E (2 + int i) h = (h1, j)" by fastforce
  with rand_range [of "2 + int i" h] Suc.prems have "nat j < length xs" by auto
  with Suc mset_swap [of "Suc i" xs "nat j"] show ?case by (simp add: r)
qed simp

lemma rand_Shuffle_mset: "mset (snd (rand_Shuffle E xs h)) = mset xs"
  using shuffle_from_mset [of "length xs - 1" xs h] by (cases xs) (simp_all add: rand_Shuffle_def)

lemma weightedShuffle_mset: "mset (snd (weightedShuffle ShuffleInplace xs w)) = mset xs"
  by (simp add: weightedShuffle_def case_prod_unfold Let_def ShuffleInplace_mset)

end

text \<open>The health of a backend when a request comes in.\<close>

definition healthy :: "('m, 'h) env \<Rightarrow> ('m, 'h) world \<Rightarrow> bref \<Rightarrow> bool" where
  "healthy E w be = snd (IsHealthy E (w_net w) (w_be w be))"

definition degraded :: "('m, 'h) env \<Rightarrow> ('m, 'h) world \<Rightarrow> bref \<Rightarrow> bool" where
  "degraded E w be = snd (IsDegraded E (w_net w) (fst (IsHealthy E (w_net w) (w_be w be))))"

lemma health_cong: "w_net w = w_net w' \<Longrightarrow> w_be w be = w_be w' be \<Longrightarrow> healthy E w be = healthy E w' be"
  "w_net w = w_net w' \<Longrightarrow> w_be w be = w_be w' be \<Longrightarrow> degraded E w be = degraded E w' be"
  by (simp_all add: healthy_def degraded_def)

lemma be_IsHealthy_result:
  "snd (be_IsHealthy E be w) = healthy E w be"
  "w_net (fst (be_IsHealthy E be w)) = w_net w"
  "w_be (fst (be_IsHealthy E be w)) = (w_be w)(be := fst (IsHealthy E (w_net w) (w_be w be)))"
  by (simp_all add: be_IsHealthy_def healthy_def be_update_def case_prod_unfold Let_def)

lemma be_IsDegraded_result:
  "snd (be_IsDegraded E be w) = snd (IsDegraded E (w_net w) (w_be w be))"
  "w_net (fst (be_IsDegraded E be w)) = w_net w"
  "be' \<noteq> be \<Longrightarrow> w_be (fst (be_IsDegraded E be w)) be' = w_be w be'"
  by (simp_all add: be_IsDegraded_def be_update_def case_prod_unfold Let_def)

lemma split_health_filter:
  "distinct bes \<Longrightarrow> snd (split_health E bes w) = (filter (healthy E w) bes, filter (\<lambda>be. \<not> healthy E w be) bes)"
proof (induction bes arbitrary: w)
  case (Cons be bes)
  let ?w = "fst (be_IsHealthy E be w)"
  have "healthy E ?w b = healthy E w b" if "b \<in> set bes" for b
    using Cons.prems that by (intro health_cong) (auto simp: be_IsHealthy_result)
  then have "filter (healthy E ?w) bes = filter (healthy E w) bes"
      "filter (\<lambda>be. \<not> healthy E ?w be) bes = filter (\<lambda>be. \<not> healthy E w be) bes"
    by (auto intro: filter_cong)
  with Cons be_IsHealthy_result(1) [of E be w] show ?case by (simp add: case_prod_unfold Let_def)
qed simp

lemma split_degraded_filter:
  "distinct bes \<Longrightarrow> snd (split_degraded E bes w) =
     (filter (\<lambda>be. healthy E w be \<and> \<not> degraded E w be) bes, filter (\<lambda>be. healthy E w be \<and> degraded E w be) bes)"
proof (induction bes arbitrary: w)
  case (Cons be bes)
  let ?w = "fst (be_IsHealthy E be w)" let ?w2 = "fst (be_IsDegraded E be ?w)"
  have nb: "b \<noteq> be" if "b \<in> set bes" for b using Cons.prems that by auto
  have "healthy E ?w b = healthy E w b" "degraded E ?w b = degraded E w b"
      "healthy E ?w2 b = healthy E w b" "degraded E ?w2 b = degraded E w b" if "b \<in> set bes" for b
    using nb [OF that] by (auto intro!: health_cong simp: be_IsHealthy_result be_IsDegraded_result)
  then have f: "filter (\<lambda>be. healthy E v be \<and> \<not> degraded E v be) bes = filter (\<lambda>be. healthy E w be \<and> \<not> degraded E w be) bes"
      "filter (\<lambda>be. healthy E v be \<and> degraded E v be) bes = filter (\<lambda>be. healthy E w be \<and> degraded E w be) bes"
    if "v = ?w \<or> v = ?w2" for v
    using that by (auto intro: filter_cong)
  have d: "snd (be_IsDegraded E be ?w) = degraded E w be"
    by (simp add: be_IsDegraded_result(1) be_IsHealthy_result(2,3) degraded_def)
  from Cons f [of ?w] f [of ?w2] be_IsHealthy_result(1) [of E be w] d show ?case
    by (simp add: case_prod_unfold Let_def)
qed simp

context routing begin

lemma routing_order_healthy_first:
  assumes "Consensus bg = None" and "distinct (bg_Backends bg)"
  obtains hs us where "snd (orderedBackendsForRequest E ShuffleInplace bg w) = hs @ us"
    "mset hs = mset (filter (healthy E w) (bg_Backends bg))"
    "mset us = mset (filter (\<lambda>be. \<not> healthy E w be) (bg_Backends bg))"
proof -
  obtain w1 hs us where s: "split_health E (bg_Backends bg) w = (w1, hs, us)" by (cases "split_health E (bg_Backends bg) w")
  with split_health_filter [OF assms(2), of E w]
  have f: "hs = filter (healthy E w) (bg_Backends bg)" "us = filter (\<lambda>be. \<not> healthy E w be) (bg_Backends bg)" by simp_all
  show thesis
  proof (cases "WeightedRouting bg")
    case True
    have "snd (orderedBackendsForRequest E ShuffleInplace bg w) =
        snd (weightedShuffle ShuffleInplace hs w1) @
        snd (weightedShuffle ShuffleInplace us (fst (weightedShuffle ShuffleInplace hs w1)))"
      by (simp add: orderedBackendsForRequest_def assms(1) s True case_prod_unfold Let_def)
    then show thesis by (rule that) (simp_all add: weightedShuffle_mset f)
  next
    case False
    then show thesis by (intro that [of hs us]) (simp_all add: orderedBackendsForRequest_def assms(1) s f)
  qed
qed

lemma routing_order_consensus:
  assumes "Consensus bg = Some cp" and "distinct (GetConsensusGroup cp)"
  obtains hs ds where "snd (orderedBackendsForRequest E ShuffleInplace bg w) = hs @ ds"
    "mset hs = mset (filter (\<lambda>be. healthy E w be \<and> \<not> degraded E w be) (GetConsensusGroup cp))"
    "mset ds = mset (filter (\<lambda>be. healthy E w be \<and> degraded E w be) (GetConsensusGroup cp))"
proof -
  obtain w1 hs ds where s: "split_degraded E (GetConsensusGroup cp) w = (w1, hs, ds)"
    by (cases "split_degraded E (GetConsensusGroup cp) w")
  with split_degraded_filter [OF assms(2), of E w]
  have f: "hs = filter (\<lambda>be. healthy E w be \<and> \<not> degraded E w be) (GetConsensusGroup cp)"
      "ds = filter (\<lambda>be. healthy E w be \<and> degraded E w be) (GetConsensusGroup cp)" by simp_all
  obtain h1 hs1 where r1: "rand_Shuffle E hs (w_net w1) = (h1, hs1)" by fastforce
  obtain h2 ds1 where r2: "rand_Shuffle E ds h1 = (h2, ds1)" by fastforce
  have m: "mset hs1 = mset hs" "mset ds1 = mset ds"
    using rand_Shuffle_mset [of hs "w_net w1"] rand_Shuffle_mset [of ds h1] by (simp_all add: r1 r2)
  have "snd (orderedBackendsForRequest E ShuffleInplace bg w) =
      (if WeightedRouting bg then snd (weightedShuffle ShuffleInplace hs1 (w1\<lparr>w_net := h2\<rparr>)) else hs1) @ ds1"
    by (simp add: orderedBackendsForRequest_def loadBalancedConsensusGroup_def assms(1) s r1 r2 case_prod_unfold Let_def)
  then show thesis by (rule that) (simp_all add: weightedShuffle_mset m f)
qed

end

lemma Forward_config: "Forward E ctx b reqs isBatch h = Done (b', reqs', h', r) \<Longrightarrow> same_config b b'"
proof -
  have "Forward_loop E ctx isBatch n i e b reqs h = Done (b', reqs', h', r) \<Longrightarrow> same_config b b'" for n i e b reqs h
  proof (induction n arbitrary: i e b reqs h)
    case (Suc n)
    then obtain b1 reqs1 h1 r1 where d: "doForward E ctx b reqs isBatch h = Done (b1, reqs1, h1, r1)"
      by (auto split: if_splits)
    note cfg = doForward_config [OF d]
    show ?case
    proof (cases "\<exists>err. r1 = Inl err \<and> \<not> not_retried err")
      case True
      then obtain err where r1: "r1 = Inl err" "\<not> not_retried err" by blast
      obtain h2 dd where "calcBackoff E i h1 = (h2, dd)" by fastforce
      with Suc.prems d r1 have
        "Forward_loop E ctx isBatch n (Suc i) (Some err) b1 reqs1 (sleepContext E dd h2) = Done (b', reqs', h', r)"
        by (auto split: if_splits)
      from same_config_trans [OF cfg Suc.IH [OF this]] show ?thesis .
    next
      case False
      with Suc.prems d have "b' = b1" by (cases r1) (auto split: if_splits)
      with cfg show ?thesis by simp
    qed
  qed simp
  then show "Forward E ctx b reqs isBatch h = Done (b', reqs', h', r) \<Longrightarrow> same_config b b'" unfolding Forward_def .
qed

lemma be_Forward_world: "be_Forward E ctx be reqs isBatch w = Done (w', reqs', r) \<Longrightarrow> same_world w w'"
  by (auto simp: be_Forward_def intro: same_world_update dest!: Forward_config)

lemma ForwardRequest_world:
  "ForwardRequestToBackendGroup E ctx name reqs backends isBatch w = Done (w', reqs', resp) \<Longrightarrow> same_world w w'"
proof (induction backends arbitrary: reqs w)
  case (Cons be backends)
  show ?case
  proof (cases "reqs = []")
    case False
    with Cons.prems obtain w1 reqs1 r where f: "be_Forward E ctx be reqs isBatch w = Done (w1, reqs1, r)"
      by (auto simp: Let_def)
    note w1 = be_Forward_world [OF f]
    show ?thesis
    proof (cases "\<exists>err. r = Inl err \<and> \<not> final_error err")
      case True
      with f False Cons.prems
      have "ForwardRequestToBackendGroup E ctx name reqs1 backends isBatch w1 = Done (w', reqs', resp)"
        by (auto simp: Let_def)
      from same_world_trans [OF w1 Cons.IH [OF this]] show ?thesis .
    next
      case nr: False
      with f False Cons.prems have "w' = w1" by (cases r) (auto simp: Let_def)
      with w1 show ?thesis by simp
    qed
  qed (use Cons.prems in \<open>auto simp: Let_def\<close>)
qed simp

lemma MulticallRequests_names:
  "MulticallRequests E ctx name bes reqs w = Done (w', reqs', ts) \<Longrightarrow>
     map mt_backendName ts = map (\<lambda>be. Name (w_be w be)) bes"
proof (induction bes arbitrary: reqs w ts)
  case (Cons be bes)
  then obtain w1 reqs1 t ts1 where t: "MulticallRequest E ctx name be reqs w = Done (w1, reqs1, t)"
      and ts: "MulticallRequests E ctx name bes reqs1 w1 = Done (w', reqs', ts1)" and "ts = t # ts1"
    by auto
  from t have "same_world w w1" "mt_backendName t = Name (w_be w1 be)"
    by (auto simp: MulticallRequest_def simp del: ForwardRequestToBackendGroup.simps dest: ForwardRequest_world)
  then have "mt_backendName t = Name (w_be w be)" "\<And>b. Name (w_be w1 b) = Name (w_be w b)"
    using same_config_fields(7) by (auto simp: same_world_def)
  with Cons.IH [OF ts] \<open>ts = t # ts1\<close> show ?case by simp
qed simp

text \<open>A consensus group of one backend, which answers null to whatever it is asked.\<close>

definition demo_group :: "script ConsensusPoller BackendGroup" where
  "demo_group = lone_group\<lparr>Consensus := Some (lone_poller\<lparr>consensusGroup := [0]\<rparr>)\<rparr>"

definition demo_world :: "((time \<times> bucket) list, script) world" where
  "demo_world = \<lparr>w_be = (\<lambda>_. new_backend), w_net = quiet [(7, Inr (null_reply 200))]\<rparr>"

abbreviation (input) keep_order :: "script weighted_shuffle" where
  "keep_order \<equiv> (\<lambda>wt bes h. (h, bes))"

interpretation sr: routing scripted keep_order
  by unfold_locales simp_all

lemma demo_healthy: "healthy scripted demo_world 0"
  using new_backend_healthy by (simp add: healthy_def demo_world_def)

lemma demo_order: "\<exists>w. orderedBackendsForRequest scripted keep_order demo_group demo_world = (w, [0]) \<and>
    same_world demo_world w \<and> w_net w = w_net demo_world"
proof -
  obtain w1 where w1: "be_IsHealthy scripted 0 demo_world = (w1, True)" "same_world demo_world w1" "w_net w1 = w_net demo_world"
    using demo_healthy be_IsHealthy_result [of scripted 0 demo_world] IsHealthy_world [of demo_world scripted 0]
    by (cases "be_IsHealthy scripted 0 demo_world") auto
  obtain w2 deg where w2: "be_IsDegraded scripted 0 w1 = (w2, deg)" by fastforce
  have "same_world w1 w2" "w_net w2 = w_net w1"
    using w2 be_IsDegraded_result(2) [of scripted 0 w1] IsDegraded_config [of "w_be w1 0" scripted "w_net w1"]
    by (auto simp: be_IsDegraded_def split: prod.splits intro: same_world_update)
  with w1 have "same_world demo_world w2" "w_net w2 = w_net demo_world" by (auto intro: same_world_trans)
  moreover have "orderedBackendsForRequest scripted keep_order demo_group demo_world = (w2, [0])"
    by (cases deg) (simp_all add: orderedBackendsForRequest_def loadBalancedConsensusGroup_def demo_group_def GetConsensusGroup_def
        w1(1) w2 rand_Shuffle_def lone_group_def)
  ultimately show ?thesis by blast
qed

lemma demo_forward:
  assumes "same_world demo_world w" and "w_net w = w_net demo_world" and "m \<noteq> ConsensusGetReceiptsMethod"
  shows "\<exists>w'. ForwardRequestToBackendGroup scripted no_ctx name [empty_req m] [0] isBatch w =
    Done (w', [empty_req m], \<lparr>br_RPCRes = [Some zero_RPCRes], br_ServedBy = name @ ''/a'', br_error = None\<rparr>)"
proof -
  have cfg: "same_config new_backend (w_be w 0)" using assms(1) by (simp add: same_world_def demo_world_def)
  have b: "maxResponseSize (w_be w 0) = maxResponseSize new_backend" "maxRetries (w_be w 0) = 0" "Name (w_be w 0) = ''a''"
    using same_config_fields(3,4,7) [OF cfg] by (simp_all add: NewBackend_def Override_def)
  obtain b' h' where d: "doForward scripted no_ctx (w_be w 0) [empty_req m] isBatch (quiet [(7, Inr (null_reply 200))]) =
      Done (b', [empty_req m], h', Inr [Some zero_RPCRes])"
    using doForward_null [OF assms(3) b(1), of no_ctx isBatch] by blast
  have "Forward scripted no_ctx (w_be w 0) [empty_req m] isBatch (w_net w) = Done (b', [empty_req m], h', Inr [Some zero_RPCRes])"
    using d by (simp add: Forward_def b(2) assms(2) demo_world_def)
  then show ?thesis by (simp add: be_Forward_def b(3) Let_def)
qed

abbreviation (input) block_number_req :: RPCReq where
  "block_number_req \<equiv> \<lparr>rq_JSONRPC = ''2.0'', rq_Method = ''eth_blockNumber'', rq_Params = [], rq_ID = ''1''\<rparr>"

lemma demo_group_consensus: "Consensus demo_group = Some (lone_poller\<lparr>consensusGroup := [0]\<rparr>)"
  by (simp add: demo_group_def)

lemma demo_rctx: "group_rctx (lone_poller\<lparr>consensusGroup := [0]\<rparr>) =
    Done \<lparr>latest = 0, safe = 0, finalized = 0, maxBlockRange = cp_maxBlockRange lone_poller\<rparr>"
proof -
  have t: "tracker lone_poller = Some (InMemory NewInMemoryConsensusTracker)"
    by (simp add: lone_poller_def NewConsensusPoller_def Reset_def fold_reset Let_def)
  show ?thesis
    by (simp add: group_rctx_def cp_GetLatestBlockNumber_def cp_GetSafeBlockNumber_def cp_GetFinalizedBlockNumber_def t
        NewInMemoryConsensusTracker_def)
qed

lemma demo_group_run:
  "\<exists>w'. group_Forward scripted keep_order (\<lambda>bes. bes) no_ctx demo_group [block_number_req, empty_req ''eth_chainId''] True demo_world =
     Done (w', [block_number_req, empty_req ''eth_chainId''],
       \<lparr>br_RPCRes = [Some \<lparr>rs_JSONRPC = JSONRPCVersion, rs_Result = Some (ResUint64 0), rs_Error = None, rs_ID = ''1''\<rparr>,
          Some zero_RPCRes], br_ServedBy = ''main/a'', br_error = None\<rparr>)"
proof -
  obtain w where w: "orderedBackendsForRequest scripted keep_order demo_group demo_world = (w, [0])"
      "same_world demo_world w" "w_net w = w_net demo_world"
    using demo_order by blast
  have m: "''eth_chainId'' \<noteq> ConsensusGetReceiptsMethod" by (simp add: ConsensusGetReceiptsMethod_def)
  obtain w' where f: "ForwardRequestToBackendGroup scripted no_ctx ''main'' [empty_req ''eth_chainId''] [0] True w =
      Done (w', [empty_req ''eth_chainId''], \<lparr>br_RPCRes = [Some zero_RPCRes], br_ServedBy = ''main/a'', br_error = None\<rparr>)"
    using demo_forward [OF w(2,3) m, of "''main''" True] by auto
  have c: "bg_Name demo_group = ''main''" by (simp add: demo_group_def lone_group_def)
  have o: "overwrite_reqs scripted rctx 0 [block_number_req, empty_req ''eth_chainId''] =
      Done ([block_number_req, empty_req ''eth_chainId''], [empty_req ''eth_chainId''],
        [\<lparr>ir_index = 0, ir_req = block_number_req, ir_res = Some \<lparr>rs_JSONRPC = JSONRPCVersion,
            rs_Result = Some (ResUint64 (latest rctx)), rs_Error = None, rs_ID = ''1''\<rparr>\<rparr>])" for rctx
    by (simp add: RewriteTags_def RewriteResponse_def RewriteRequest_def empty_req_def Let_def)
  show ?thesis
    by (simp add: group_Forward_def w(1) c demo_group_consensus OverwriteConsensusResponses_def demo_rctx o f Let_def insert_at_def
        del: overwrite_reqs.simps ForwardRequestToBackendGroup.simps)
qed

section \<open>Properties\<close>

text \<open>
  C2: a group answers every request at its own position. Whenever a group succeeds, there is one
  response for each request and none is nil; a request answered by the proxy itself (an error of
  the rewriter, or \<open>eth_blockNumber\<close>, which gets the latest block of the consensus) has that answer
  at its index; and if every request has a response with its ID, the IDs agree position by position.
\<close>

theorem group_forward_complete:
  assumes "group_Forward E S arrival ctx bg reqs isBatch w = Done (w', reqs', resp)"
    and "br_error resp = None" and "reqs \<noteq> []" and "isBatch \<or> length reqs = 1" and "distinct (map rq_ID reqs)"
  shows "map rq_ID reqs' = map rq_ID reqs \<and>
    length (br_RPCRes resp) = length reqs \<and> None \<notin> set (br_RPCRes resp) \<and>
    (\<forall>i < length reqs. group_local E bg (reqs ! i) \<noteq> None \<longrightarrow> br_RPCRes resp ! i = group_local E bg (reqs ! i)) \<and>
    (\<forall>i < length reqs. \<forall>cp t. Consensus bg = Some cp \<longrightarrow> tracker cp = Some t \<longrightarrow> rq_Method (reqs ! i) = ''eth_blockNumber'' \<longrightarrow>
       br_RPCRes resp ! i = Some \<lparr>rs_JSONRPC = JSONRPCVersion, rs_Result = Some (ResUint64 (GetLatestBlockNumber t)),
         rs_Error = None, rs_ID = rq_ID (reqs ! i)\<rparr>) \<and>
    (rq_ID ` set reqs \<subseteq> (rs_ID \<circ> the) ` set (br_RPCRes resp) \<longrightarrow> map (rs_ID \<circ> the) (br_RPCRes resp) = map rq_ID reqs)"
proof -
  let ?l = "group_local E bg" and ?res = "br_RPCRes resp"
  obtain fwd fs where fwd: "map rq_ID fwd = map rq_ID (filter (\<lambda>req. ?l req = None) reqs)"
      and len: "length fs = length fwd" and ans: "fwd = [] \<or> answers fwd fs"
      and res: "?res = weave (map ?l reqs) fs" and ids: "map rq_ID reqs' = map rq_ID reqs"
    by (rule group_Forward_result [OF assms(1-4)])
  have nth: "?res ! i = ?l (reqs ! i)" if "i < length reqs" "?l (reqs ! i) \<noteq> None" for i
    using weave_local [of i "map ?l reqs" fs] that by (simp add: res)
  have "length fs = length (filter (\<lambda>l. l = None) (map ?l reqs))"
    using arg_cong [OF fwd, of length] len by (simp add: filter_map comp_def)
  note sets = weave_set [OF this, folded res]
  have none: "None \<notin> set fs" using ans len by (elim disjE) (simp_all add: answers_def)
  have "map (rs_ID \<circ> the) ?res = map rq_ID reqs" if sub: "rq_ID ` set reqs \<subseteq> (rs_ID \<circ> the) ` set ?res"
  proof -
    have "rq_ID req \<in> (rs_ID \<circ> the) ` set fs" if req: "req \<in> set reqs" "?l req = None" for req
    proof -
      from req sub obtain r where r: "r \<in> set ?res" "rs_ID (the r) = rq_ID req" by force
      have "r \<in> set fs"
      proof (rule ccontr)
        assume "r \<notin> set fs"
        with r(1) sets obtain req1 where q: "req1 \<in> set reqs" "?l req1 = r" "r \<noteq> None" by auto
        then obtain r1 where "?l req1 = Some r1" "r = Some r1" by (cases r) auto
        with r(2) group_local_ID [of E bg req1 r1] have "rq_ID req1 = rq_ID req" by simp
        then have "req1 = req" using assms(5) q(1) req(1) by (auto simp: distinct_map inj_on_def)
        with q req(2) show False by simp
      qed
      with r(2) show ?thesis by force
    qed
    then have "rq_ID ` set fwd \<subseteq> (rs_ID \<circ> the) ` set fs"
      using arg_cong [OF fwd, of set] by auto
    with ans len have "map (rs_ID \<circ> the) fs = map rq_ID fwd"
      by (elim disjE) (simp_all add: answers_def image_image comp_def)
    then have "map (rs_ID \<circ> the) fs = map rq_ID (filter (\<lambda>req. ?l req = None) reqs)" unfolding fwd .
    from weave_IDs [OF group_local_ID this] show ?thesis unfolding res .
  qed
  moreover have "length ?res = length reqs" "None \<notin> set ?res" using none sets by (auto simp: res)
  moreover have "?res ! i = Some \<lparr>rs_JSONRPC = JSONRPCVersion, rs_Result = Some (ResUint64 (GetLatestBlockNumber t)),
      rs_Error = None, rs_ID = rq_ID (reqs ! i)\<rparr>"
    if "i < length reqs" "Consensus bg = Some cp" "tracker cp = Some t" "rq_Method (reqs ! i) = ''eth_blockNumber''" for i cp t
    using group_local_blockNumber [of bg cp "reqs ! i" E] nth [of i] that by simp
  ultimately show ?thesis using nth ids by blast
qed

lemma group_forward_complete_witness:
  "\<exists>w' resp. group_Forward scripted keep_order (\<lambda>bes. bes) no_ctx demo_group [block_number_req, empty_req ''eth_chainId''] True demo_world =
     Done (w', [block_number_req, empty_req ''eth_chainId''], resp) \<and> br_error resp = None \<and>
     length (br_RPCRes resp) = 2 \<and> map (rs_ID \<circ> the) (br_RPCRes resp) = [''1'', []]"
proof -
  obtain w' where r: "group_Forward scripted keep_order (\<lambda>bes. bes) no_ctx demo_group [block_number_req, empty_req ''eth_chainId''] True demo_world =
     Done (w', [block_number_req, empty_req ''eth_chainId''],
       \<lparr>br_RPCRes = [Some \<lparr>rs_JSONRPC = JSONRPCVersion, rs_Result = Some (ResUint64 0), rs_Error = None, rs_ID = ''1''\<rparr>,
          Some zero_RPCRes], br_ServedBy = ''main/a'', br_error = None\<rparr>)"
    using demo_group_run by blast
  have d: "distinct (map rq_ID [block_number_req, empty_req ''eth_chainId''])" by (simp add: empty_req_def)
  note c = group_forward_complete [OF r _ _ _ d, simplified BackendGroupRPCResponse.simps, OF refl]
  from c have "map (rs_ID \<circ> the) [Some \<lparr>rs_JSONRPC = JSONRPCVersion, rs_Result = Some (ResUint64 0), rs_Error = None, rs_ID = ''1''\<rparr>,
          Some zero_RPCRes] = map rq_ID [block_number_req, empty_req ''eth_chainId'']"
    by (simp add: empty_req_def zero_RPCRes_def)
  with r show ?thesis by (simp add: empty_req_def)
qed

text \<open>
  C13: the order in which backends are tried. Without consensus every backend of the group is tried,
  the healthy ones first. With consensus exactly the healthy members of the consensus group are
  tried, the degraded ones last. Shuffling, weighted or not, does not add, lose or repeat any.
\<close>

theorem routing_order:
  assumes "routing E S" and "orderedBackendsForRequest E S bg w = (w', bes)"
    and "distinct (bg_Backends bg)" and "\<And>cp. Consensus bg = Some cp \<Longrightarrow> distinct (GetConsensusGroup cp)"
  shows "\<exists>hs rest. bes = hs @ rest \<and>
    (case Consensus bg of
       None \<Rightarrow> mset hs = mset (filter (healthy E w) (bg_Backends bg)) \<and>
               mset rest = mset (filter (\<lambda>be. \<not> healthy E w be) (bg_Backends bg))
     | Some cp \<Rightarrow> mset hs = mset (filter (\<lambda>be. healthy E w be \<and> \<not> degraded E w be) (GetConsensusGroup cp)) \<and>
                  mset rest = mset (filter (\<lambda>be. healthy E w be \<and> degraded E w be) (GetConsensusGroup cp)))"
proof (cases "Consensus bg")
  case None
  from routing.routing_order_healthy_first [OF assms(1) None assms(3), of w] obtain hs us where
    "snd (orderedBackendsForRequest E S bg w) = hs @ us" "mset hs = mset (filter (healthy E w) (bg_Backends bg))"
    "mset us = mset (filter (\<lambda>be. \<not> healthy E w be) (bg_Backends bg))" .
  with assms(2) None show ?thesis by auto
next
  case (Some cp)
  from routing.routing_order_consensus [OF assms(1) Some assms(4) [OF Some], of w] obtain hs ds where
    "snd (orderedBackendsForRequest E S bg w) = hs @ ds"
    "mset hs = mset (filter (\<lambda>be. healthy E w be \<and> \<not> degraded E w be) (GetConsensusGroup cp))"
    "mset ds = mset (filter (\<lambda>be. healthy E w be \<and> degraded E w be) (GetConsensusGroup cp))" .
  with assms(2) Some show ?thesis by auto
qed

lemma routing_order_witness:
  "\<exists>w' hs rest. orderedBackendsForRequest scripted keep_order demo_group demo_world = (w', hs @ rest) \<and>
     mset hs + mset rest = {#0#} \<and> (\<forall>be \<in> set hs. \<not> degraded scripted demo_world be)"
proof -
  obtain w' where o: "orderedBackendsForRequest scripted keep_order demo_group demo_world = (w', [0])"
    using demo_order by blast
  have d: "distinct (bg_Backends demo_group)" by (simp add: demo_group_def lone_group_def)
  have c: "Consensus demo_group = Some cp \<Longrightarrow> distinct (GetConsensusGroup cp)" for cp
    by (auto simp: demo_group_def GetConsensusGroup_def)
  have cs: "Consensus demo_group = Some (lone_poller\<lparr>consensusGroup := [0]\<rparr>)"
    by (simp add: demo_group_def)
  from routing_order [OF sr.routing_axioms o d c, unfolded cs option.case] obtain hs rest where h: "[0] = hs @ rest"
      "mset hs = mset (filter (\<lambda>be. healthy scripted demo_world be \<and> \<not> degraded scripted demo_world be)
         (GetConsensusGroup (lone_poller\<lparr>consensusGroup := [0]\<rparr>)))"
    by blast
  from h(1) have "mset hs + mset rest = {#0#}" by (metis mset_append mset_single_iff)
  moreover from mset_eq_setD [OF h(2)] have "\<forall>be \<in> set hs. \<not> degraded scripted demo_world be"
    unfolding set_filter by blast
  moreover from o have "orderedBackendsForRequest scripted keep_order demo_group demo_world = (w', hs @ rest)"
    unfolding h(1) .
  ultimately show ?thesis by blast
qed

text \<open>
  C37: a multicall asks every backend of the group exactly once and returns the first success, in the
  order in which the responses arrive, and otherwise the last response; it does not panic on any
  response the backends give.
\<close>

theorem multicall_first_success:
  assumes "mset (arrival (bg_Backends bg)) = mset (bg_Backends bg)" and "reqs \<noteq> []"
    and "MulticallRequests E ctx (bg_Name bg) (arrival (bg_Backends bg)) reqs w = Done (w', reqs', ts)"
  shows "ExecuteMulticall E arrival ctx bg reqs w =
      Done (w', reqs', first_success (multicallRPCErrorCheck bg) no_multicall_response ts) \<and>
    mset (map mt_backendName ts) = mset (map (\<lambda>be. Name (w_be w be)) (bg_Backends bg)) \<and>
    (\<forall>t \<in> set ts. br_error (mt_response t) = None \<longrightarrow> length (br_RPCRes (mt_response t)) = length reqs)"
proof -
  have "mset (map mt_backendName ts) = mset (map (\<lambda>be. Name (w_be w be)) (bg_Backends bg))"
    unfolding MulticallRequests_names [OF assms(3)] using assms(1) by (metis mset_map)
  moreover have "\<forall>t \<in> set ts. br_error (mt_response t) = None \<longrightarrow> length (br_RPCRes (mt_response t)) = length reqs"
    using MulticallRequests_result [OF assms(3)] assms(2) by (auto simp: served_def answers_def)
  moreover have "ExecuteMulticall E arrival ctx bg reqs w =
      Done (w', reqs', first_success (multicallRPCErrorCheck bg) no_multicall_response ts)"
    using MulticallRequests_result [OF assms(3)] ProcessMulticallResponses_first [OF assms(2), of ts]
    by (simp add: ExecuteMulticall_def assms(3))
  ultimately show ?thesis by blast
qed

lemma multicall_first_success_witness:
  "\<exists>w'. ExecuteMulticall scripted (\<lambda>bes. bes) no_ctx lone_group [empty_req ''eth_sendRawTransaction''] demo_world =
     Done (w', [empty_req ''eth_sendRawTransaction''],
       \<lparr>br_RPCRes = [Some zero_RPCRes], br_ServedBy = ''main/a'', br_error = None\<rparr>)"
proof -
  have m: "''eth_sendRawTransaction'' \<noteq> ConsensusGetReceiptsMethod" by (simp add: ConsensusGetReceiptsMethod_def)
  have g: "bg_Backends lone_group = [0]" "bg_Name lone_group = ''main''" by (simp_all add: lone_group_def)
  obtain w' where f: "ForwardRequestToBackendGroup scripted no_ctx ''main'' [empty_req ''eth_sendRawTransaction''] [0] False demo_world =
      Done (w', [empty_req ''eth_sendRawTransaction''], \<lparr>br_RPCRes = [Some zero_RPCRes], br_ServedBy = ''main/a'', br_error = None\<rparr>)"
    using demo_forward [OF _ _ m, of demo_world "''main''" False] by auto
  then have r: "MulticallRequests scripted no_ctx (bg_Name lone_group) ((\<lambda>bes. bes) (bg_Backends lone_group)) [empty_req ''eth_sendRawTransaction''] demo_world =
      Done (w', [empty_req ''eth_sendRawTransaction''],
        [\<lparr>mt_response = \<lparr>br_RPCRes = [Some zero_RPCRes], br_ServedBy = ''main/a'', br_error = None\<rparr>, mt_backendName = Name (w_be w' 0)\<rparr>])"
    by (simp add: g MulticallRequest_def del: ForwardRequestToBackendGroup.simps)
  from multicall_first_success [where arrival = "\<lambda>bes. bes" and bg = lone_group, OF refl _ r]
  have "ExecuteMulticall scripted (\<lambda>bes. bes) no_ctx lone_group [empty_req ''eth_sendRawTransaction''] demo_world =
      Done (w', [empty_req ''eth_sendRawTransaction''], first_success (multicallRPCErrorCheck lone_group) no_multicall_response
        [\<lparr>mt_response = \<lparr>br_RPCRes = [Some zero_RPCRes], br_ServedBy = ''main/a'', br_error = None\<rparr>, mt_backendName = Name (w_be w' 0)\<rparr>])"
    by simp
  then show ?thesis by (simp add: first_success_def)
qed

end
