(* ===== verification/Server.thy ===== *)
theory Server
  imports Backend_Group Rate_Limiter Cache
begin

text \<open>
  The RPC server (\<open>proxyd/server.go\<close>): construction with its defaults, request contexts, rate
  limits, batches and the HTTP handlers.

  The state that a request changes is the server (its limiters and its cache), the world of the
  backends and the Redis servers, of any type \<open>'r\<close>. \<open>SV\<close> has what the server uses of libraries: the
  Redis counter, regular expressions, transactions, random bytes and the error texts of their decoders.
  Go iterates over maps in any order: \<open>ord\<close> orders the batches and \<open>sord\<close> the names of the backends.
  Logs and metrics have no effect on responses and are left out.
\<close>

section \<open>Server\<close>

record ('r, 't) srv_lib =
  sl_redis_incr :: "'r redis_incr"
  sl_regexp :: "string \<Rightarrow> error + (string \<Rightarrow> bool)"
  sl_hex_Bytes :: "string \<Rightarrow> string + bytes"
  sl_tx_Unmarshal :: "bytes \<Rightarrow> string + 't"
  sl_ChainId :: "'t \<Rightarrow> int"
  sl_Nonce :: "'t \<Rightarrow> uint64"
  sl_Sender :: "int \<Rightarrow> 't \<Rightarrow> string + string"
  sl_ErrInvalidSender :: string

text \<open>The handlers a path can lead to, with the HTTP methods it accepts (none means any).\<close>

datatype handler = HealthzHandler | RPCHandler | WSHandler

record http_Server =
  hs_Addr :: string
  hs_Handler :: "(string \<times> string list \<times> handler) list"
  hs_closed :: bool

datatype 'l RPCCache = NoopRPCCache | rpcCache "'l Cache option"

record ('h, 'l) Server =
  sv_BackendGroups :: "(string \<times> 'h ConsensusPoller BackendGroup) list"
  sv_wsBackendGroup :: "'h ConsensusPoller BackendGroup option"
  sv_wsMethodWhitelist :: "StringSet"
  sv_rpcMethodMappings :: "string \<Rightarrow> string option"
  sv_maxBodySize :: int
  sv_enableRequestLog :: bool
  sv_maxRequestBodyLogLen :: int
  sv_authenticatedPaths :: "(string \<times> string) list"
  sv_timeout :: duration
  sv_maxUpstreamBatchSize :: int
  sv_maxBatchSize :: int
  sv_enableServedByHeader :: bool
  sv_mainLim :: FrontendRateLimiter
  sv_overrideLims :: "string \<Rightarrow> FrontendRateLimiter option"
  sv_senderLim :: "FrontendRateLimiter option"
  sv_allowedChainIds :: "int list"
  sv_limExemptOrigins :: "(string \<Rightarrow> bool) list"
  sv_limExemptUserAgents :: "(string \<Rightarrow> bool) list"
  sv_globallyLimitedMethods :: "string \<Rightarrow> bool"
  sv_rpcServer :: "http_Server option"
  sv_wsServer :: "http_Server option"
  sv_cache :: "'l RPCCache"
  sv_rateLimitHeader :: string

definition DefaultMaxBatchRPCCallsLimit :: int where "DefaultMaxBatchRPCCallsLimit = 100"
definition MaxBatchRPCCallsHardLimit :: int where "MaxBatchRPCCallsHardLimit = 1000"
definition cacheStatusHdr :: string where "cacheStatusHdr = ''X-Proxyd-Cache-Status''"
definition defaultRPCTimeout :: duration where "defaultRPCTimeout = 10 * Second"
definition defaultBodySizeLimit :: int where "defaultBodySizeLimit = 256 * 1024"
definition maxRequestBodyLogLen :: int where "maxRequestBodyLogLen = 2000"
definition defaultMaxUpstreamBatchSize :: int where "defaultMaxUpstreamBatchSize = 10"
definition defaultRateLimitHeader :: string where "defaultRateLimitHeader = ''X-Forwarded-For''"

record RateLimitMethodOverride =
  mo_Limit :: int
  mo_Interval :: duration
  mo_Global :: bool

record RateLimitConfig =
  rlc_UseRedis :: bool
  rlc_BaseRate :: int
  rlc_BaseInterval :: duration
  rlc_ExemptOrigins :: "string list"
  rlc_ExemptUserAgents :: "string list"
  rlc_ErrorMessage :: string
  rlc_MethodOverrides :: "(string \<times> RateLimitMethodOverride) list"
  rlc_IPHeaderOverride :: string

record SenderRateLimitConfig =
  sr_Enabled :: bool
  sr_Interval :: duration
  sr_Limit :: int
  sr_AllowedChainIds :: "int list"

type_synonym limiterFactoryFunc = "duration \<Rightarrow> int \<Rightarrow> string \<Rightarrow> FrontendRateLimiter"

fun compile_patterns :: "(string \<Rightarrow> error + (string \<Rightarrow> bool)) \<Rightarrow> string list \<Rightarrow> error + (string \<Rightarrow> bool) list" where
  "compile_patterns compile [] = Inr []"
| "compile_patterns compile (p # ps) =
     (case compile p of
        Inl err \<Rightarrow> Inl err
      | Inr pat \<Rightarrow> (case compile_patterns compile ps of Inl err \<Rightarrow> Inl err | Inr pats \<Rightarrow> Inr (pat # pats)))"

definition NewServer ::
  "('r, 't) srv_lib \<Rightarrow> (string \<times> 'h ConsensusPoller BackendGroup) list \<Rightarrow> 'h ConsensusPoller BackendGroup option
    \<Rightarrow> StringSet \<Rightarrow> (string \<Rightarrow> string option) \<Rightarrow> int \<Rightarrow> (string \<times> string) list \<Rightarrow> duration \<Rightarrow> int \<Rightarrow> bool
    \<Rightarrow> 'l RPCCache option \<Rightarrow> RateLimitConfig \<Rightarrow> SenderRateLimitConfig \<Rightarrow> bool \<Rightarrow> int \<Rightarrow> int \<Rightarrow> limiterFactoryFunc
    \<Rightarrow> error + ('h, 'l) Server" where
  "NewServer SV backendGroups wsBackendGroup wsMethodWhitelist rpcMethodMappings maxBodySize authenticatedPaths
     timeout maxUpstreamBatchSize enableServedByHeader cache rateLimitConfig senderRateLimitConfig enableRequestLog
     logLen maxBatchSize limiterFactory =
     (let cache = (case cache of None \<Rightarrow> NoopRPCCache | Some c \<Rightarrow> c);
          maxBodySize = (if maxBodySize = 0 then defaultBodySizeLimit else maxBodySize);
          timeout = (if timeout = 0 then defaultRPCTimeout else timeout);
          maxUpstreamBatchSize = (if maxUpstreamBatchSize = 0 then defaultMaxUpstreamBatchSize else maxUpstreamBatchSize);
          maxBatchSize = (if maxBatchSize = 0 then DefaultMaxBatchRPCCallsLimit else maxBatchSize);
          maxBatchSize = (if maxBatchSize > MaxBatchRPCCallsHardLimit then MaxBatchRPCCallsHardLimit else maxBatchSize);
          lims = (if rlc_BaseRate rateLimitConfig > 0 then
                    (case compile_patterns (sl_regexp SV) (rlc_ExemptOrigins rateLimitConfig) of
                       Inl err \<Rightarrow> Inl err
                     | Inr origins \<Rightarrow>
                         (case compile_patterns (sl_regexp SV) (rlc_ExemptUserAgents rateLimitConfig) of
                            Inl err \<Rightarrow> Inl err
                          | Inr agents \<Rightarrow>
                              Inr (limiterFactory (rlc_BaseInterval rateLimitConfig) (rlc_BaseRate rateLimitConfig) ''main'',
                                origins, agents)))
                  else Inr (NoopFrontendRateLimiter, [], []))
      in case lims of
           Inl err \<Rightarrow> Inl err
         | Inr (mainLim, limExemptOrigins, limExemptUserAgents) \<Rightarrow>
             Inr \<lparr>sv_BackendGroups = backendGroups, sv_wsBackendGroup = wsBackendGroup, sv_wsMethodWhitelist = wsMethodWhitelist,
               sv_rpcMethodMappings = rpcMethodMappings, sv_maxBodySize = maxBodySize, sv_enableRequestLog = enableRequestLog,
               sv_maxRequestBodyLogLen = logLen, sv_authenticatedPaths = authenticatedPaths,
               sv_timeout = timeout, sv_maxUpstreamBatchSize = maxUpstreamBatchSize, sv_maxBatchSize = maxBatchSize,
               sv_enableServedByHeader = enableServedByHeader, sv_mainLim = mainLim,
               sv_overrideLims = (\<lambda>m. map_option (\<lambda>ov. limiterFactory (mo_Interval ov) (mo_Limit ov) m)
                 (map_of (rlc_MethodOverrides rateLimitConfig) m)),
               sv_senderLim = (if sr_Enabled senderRateLimitConfig
                 then Some (limiterFactory (sr_Interval senderRateLimitConfig) (sr_Limit senderRateLimitConfig) ''senders'')
                 else None),
               sv_allowedChainIds = sr_AllowedChainIds senderRateLimitConfig,
               sv_limExemptOrigins = limExemptOrigins, sv_limExemptUserAgents = limExemptUserAgents,
               sv_globallyLimitedMethods = (\<lambda>m. case map_of (rlc_MethodOverrides rateLimitConfig) m of
                 None \<Rightarrow> False | Some ov \<Rightarrow> mo_Global ov),
               sv_rpcServer = None, sv_wsServer = None, sv_cache = cache,
               sv_rateLimitHeader = (if rlc_IPHeaderOverride rateLimitConfig \<noteq> []
                 then rlc_IPHeaderOverride rateLimitConfig else defaultRateLimitHeader)\<rparr>)"

text \<open>The two listeners: the server that is set up before \<open>ListenAndServe\<close> takes over.\<close>

definition RPCListenAndServe :: "string \<Rightarrow> int \<Rightarrow> ('h, 'l) Server \<Rightarrow> ('h, 'l) Server" where
  "RPCListenAndServe host port s =
     s\<lparr>sv_rpcServer := Some \<lparr>hs_Addr = host @ '':'' @ int_text port,
         hs_Handler = [(''/healthz'', [''GET''], HealthzHandler), (''/'', [''POST''], RPCHandler),
           (''/{authorization}'', [''POST''], RPCHandler)], hs_closed = False\<rparr>\<rparr>"

definition WSListenAndServe :: "string \<Rightarrow> int \<Rightarrow> ('h, 'l) Server \<Rightarrow> ('h, 'l) Server" where
  "WSListenAndServe host port s =
     s\<lparr>sv_wsServer := Some \<lparr>hs_Addr = host @ '':'' @ int_text port,
         hs_Handler = [(''/'', [], WSHandler), (''/{authorization}'', [], WSHandler)], hs_closed = False\<rparr>\<rparr>"

definition server_Shutdown :: "('h, 'l) Server \<Rightarrow> ('h, 'l) Server" where
  "server_Shutdown s =
     s\<lparr>sv_rpcServer := map_option (hs_closed_update (\<lambda>_. True)) (sv_rpcServer s),
       sv_wsServer := map_option (hs_closed_update (\<lambda>_. True)) (sv_wsServer s),
       sv_BackendGroups := map (\<lambda>(name, bg). (name, group_Shutdown bg)) (sv_BackendGroups s)\<rparr>"

section \<open>Requests and responses\<close>

record http_in =
  hi_Header :: "(string \<times> string) list"
  hi_RemoteAddr :: string
  hi_Body :: reader
  hi_authorization :: string

record ResponseWriter =
  rw_Header :: "(string \<times> string) list"
  rw_Status :: "int option"
  rw_Body :: bytes

definition fresh_writer :: ResponseWriter where
  "fresh_writer = \<lparr>rw_Header = [], rw_Status = None, rw_Body = []\<rparr>"

text \<open>\<open>WriteHeader\<close> counts once; \<open>Write\<close> sends status 200 if none was sent.\<close>

definition WriteHeader :: "int \<Rightarrow> ResponseWriter \<Rightarrow> ResponseWriter" where
  "WriteHeader code w = (case rw_Status w of None \<Rightarrow> w\<lparr>rw_Status := Some code\<rparr> | Some _ \<Rightarrow> w)"

definition rw_Write :: "bytes \<Rightarrow> ResponseWriter \<Rightarrow> ResponseWriter" where
  "rw_Write p w = (let w = WriteHeader 200 w in w\<lparr>rw_Body := rw_Body w @ p\<rparr>)"

definition rw_Set :: "string \<Rightarrow> string \<Rightarrow> ResponseWriter \<Rightarrow> ResponseWriter" where
  "rw_Set name v w = w\<lparr>rw_Header := header_Set name v (rw_Header w)\<rparr>"

definition header_Get :: "string \<Rightarrow> (string \<times> string) list \<Rightarrow> string" where
  "header_Get name hs = (case find (\<lambda>(n, _). map to_lower n = map to_lower name) hs of None \<Rightarrow> [] | Some (_, v) \<Rightarrow> v)"

record recordLenWriter =
  lw_Writer :: ResponseWriter
  lw_Len :: nat

definition recordLenWriter_Write :: "bytes \<Rightarrow> recordLenWriter \<Rightarrow> recordLenWriter" where
  "recordLenWriter_Write p w = \<lparr>lw_Writer = rw_Write p (lw_Writer w), lw_Len = lw_Len w + length p\<rparr>"

definition truncate_str :: "string \<Rightarrow> int \<Rightarrow> string outcome" where
  "truncate_str str maxLen =
     (let maxLen = (if maxLen = 0 then maxRequestBodyLogLen else maxLen)
      in if int (length str) > maxLen then
           (if maxLen < 0 then Panic ''slice bounds out of range'' else Done (take (nat maxLen) str @ ''...''))
         else Done str)"

text \<open>The values of a context and its deadline.\<close>

record context_values =
  cv_Auth :: "string option"
  cv_ReqID :: "string option"
  cv_XForwardedFor :: "string option"
  cv_OpTxProxyAuth :: "string option"

definition GetAuthCtx :: "context_values \<Rightarrow> string" where
  "GetAuthCtx ctx = (case cv_Auth ctx of None \<Rightarrow> ''none'' | Some v \<Rightarrow> v)"

definition GetOpTxProxyAuthHeader :: "context_values \<Rightarrow> string" where
  "GetOpTxProxyAuthHeader ctx = (case cv_OpTxProxyAuth ctx of None \<Rightarrow> [] | Some v \<Rightarrow> v)"

definition GetReqID :: "context_values \<Rightarrow> string" where
  "GetReqID ctx = (case cv_ReqID ctx of None \<Rightarrow> [] | Some v \<Rightarrow> v)"

definition GetXForwardedFor :: "context_values \<Rightarrow> string" where
  "GetXForwardedFor ctx = (case cv_XForwardedFor ctx of None \<Rightarrow> [] | Some v \<Rightarrow> v)"

definition req_ctx_of :: "context_values \<Rightarrow> req_ctx" where
  "req_ctx_of ctx = \<lparr>cx_Auth = GetAuthCtx ctx, cx_ReqID = GetReqID ctx, cx_XForwardedFor = GetXForwardedFor ctx,
     cx_OpTxProxyAuth = GetOpTxProxyAuthHeader ctx\<rparr>"

text \<open>\<open>rnd\<close> are the random bytes of the request.\<close>

definition randStr :: "nat \<Rightarrow> bytes \<Rightarrow> string" where
  "randStr l rnd = concat (map (\<lambda>c. [nibble (of_char c div 16), nibble (of_char c mod 16)]) (take l rnd))"

definition populateContext ::
  "('h, 'l) Server \<Rightarrow> bytes \<Rightarrow> http_in \<Rightarrow> ResponseWriter \<Rightarrow> ResponseWriter \<times> context_values option" where
  "populateContext s rnd r w =
     (let authorization = hi_authorization r;
          xff = header_Get (sv_rateLimitHeader s) (hi_Header r);
          xff = (if xff = [] then
                   (let ipPort = strings_Split (hi_RemoteAddr r) CHR '':''
                    in if length ipPort = 2 then ipPort ! 0 else xff)
                 else xff);
          ctx = \<lparr>cv_Auth = None, cv_ReqID = None, cv_XForwardedFor = Some xff, cv_OpTxProxyAuth = None\<rparr>;
          opTxProxyAuth = header_Get DefaultOpTxProxyAuthHeader (hi_Header r);
          ctx = (if opTxProxyAuth \<noteq> [] then ctx\<lparr>cv_OpTxProxyAuth := Some opTxProxyAuth\<rparr> else ctx);
          auth = map_of (sv_authenticatedPaths s) authorization
      in if length (sv_authenticatedPaths s) > 0 \<and> (authorization = [] \<or> auth = None \<or> auth = Some []) then
           (WriteHeader 401 w, None)
         else
           (let ctx = (if length (sv_authenticatedPaths s) > 0 then ctx\<lparr>cv_Auth := auth\<rparr> else ctx)
            in (w, Some (ctx\<lparr>cv_ReqID := Some (randStr 10 rnd)\<rparr>))))"

definition setCacheHeader :: "bool \<Rightarrow> ResponseWriter \<Rightarrow> ResponseWriter" where
  "setCacheHeader cached w = (if cached then rw_Set cacheStatusHdr ''HIT'' w else rw_Set cacheStatusHdr ''MISS'' w)"

text \<open>\<open>Encoder.Encode\<close> writes the value and a newline, or nothing if it cannot be encoded. A nil
  response is encoded as null; \<open>writeRPCRes\<close> reads a field of the response first.\<close>

definition Encode_to :: "bytes option \<Rightarrow> ResponseWriter \<Rightarrow> ResponseWriter" where
  "Encode_to enc w =
     (case enc of
        None \<Rightarrow> w
      | Some text \<Rightarrow> lw_Writer (recordLenWriter_Write (text @ [CHR 0x0A]) \<lparr>lw_Writer = w, lw_Len = 0\<rparr>))"

definition writeRPCRes :: "(uint64 \<Rightarrow> string) \<Rightarrow> err_globals \<Rightarrow> RPCRes option \<Rightarrow> ResponseWriter \<Rightarrow> ResponseWriter outcome" where
  "writeRPCRes hexs G res w =
     (case res of
        None \<Rightarrow> nil_deref
      | Some res \<Rightarrow>
          (let statusCode = (case rs_Error res of
                 Some p \<Rightarrow> (if HTTPErrorCode (rpc_err_val G p) \<noteq> 0 then HTTPErrorCode (rpc_err_val G p) else 200)
               | None \<Rightarrow> 200);
               w = rw_Set ''content-type'' ''application/json'' w;
               w = WriteHeader statusCode w
           in Done (Encode_to (MarshalJSON hexs G res) w)))"

definition writeRPCError :: "(uint64 \<Rightarrow> string) \<Rightarrow> err_globals \<Rightarrow> bytes \<Rightarrow> error \<Rightarrow> ResponseWriter \<Rightarrow> ResponseWriter outcome" where
  "writeRPCError hexs G i err w =
     (let res = (case err of RPCE r \<Rightarrow> NewRPCErrorRes G i (RPCE r) | _ \<Rightarrow> NewRPCErrorRes G i (RPCE (Global ErrInternal)))
      in writeRPCRes hexs G (Some res) w)"

definition writeBatchRPCRes :: "(uint64 \<Rightarrow> string) \<Rightarrow> err_globals \<Rightarrow> RPCRes option list \<Rightarrow> ResponseWriter \<Rightarrow> ResponseWriter" where
  "writeBatchRPCRes hexs G res w =
     (let w = rw_Set ''content-type'' ''application/json'' w;
          w = WriteHeader 200 w;
          texts = sequence (map (\<lambda>r. case r of None \<Rightarrow> Some ''null'' | Some r \<Rightarrow> MarshalJSON hexs G r) res)
      in Encode_to (map_option (\<lambda>ts. ''['' @ strings_Join ts '','' @ '']'') texts) w)"

section \<open>Rate limits\<close>

definition isUnlimitedOrigin :: "('h, 'l) Server \<Rightarrow> string \<Rightarrow> bool" where
  "isUnlimitedOrigin s origin = list_ex (\<lambda>pat. pat origin) (sv_limExemptOrigins s)"

definition isUnlimitedUserAgent :: "('h, 'l) Server \<Rightarrow> string \<Rightarrow> bool" where
  "isUnlimitedUserAgent s origin = list_ex (\<lambda>pat. pat origin) (sv_limExemptUserAgents s)"

definition isGlobalLimit :: "('h, 'l) Server \<Rightarrow> string \<Rightarrow> bool" where
  "isGlobalLimit s m = sv_globallyLimitedMethods s m"

text \<open>The client as the limiter sees it: exempt by origin or user agent, and its address.\<close>

record client =
  cl_unlimitedOrigin :: bool
  cl_unlimitedUserAgent :: bool
  cl_xff :: string

definition isLimited ::
  "('r, 't) srv_lib \<Rightarrow> time \<Rightarrow> client \<Rightarrow> string \<Rightarrow> ('h, 'l) Server \<Rightarrow> 'r \<Rightarrow> ('h, 'l) Server \<times> 'r \<times> bool" where
  "isLimited SV now cl m s rd =
     (if \<not> isGlobalLimit s m \<and> (cl_unlimitedOrigin cl \<or> cl_unlimitedUserAgent cl) then (s, rd, False)
      else if m = [] then
        (case limiter_Take (sl_redis_incr SV) now (cl_xff cl) (sv_mainLim s) rd of
           (lm, rd, Inl err) \<Rightarrow> (s\<lparr>sv_mainLim := lm\<rparr>, rd, True)
         | (lm, rd, Inr ok) \<Rightarrow> (s\<lparr>sv_mainLim := lm\<rparr>, rd, \<not> ok))
      else
        (case sv_overrideLims s m of
           None \<Rightarrow> (s, rd, False)
         | Some lm \<Rightarrow>
             (case limiter_Take (sl_redis_incr SV) now (cl_xff cl) lm rd of
                (lm, rd, Inl err) \<Rightarrow> (s\<lparr>sv_overrideLims := (sv_overrideLims s)(m \<mapsto> lm)\<rparr>, rd, True)
              | (lm, rd, Inr ok) \<Rightarrow> (s\<lparr>sv_overrideLims := (sv_overrideLims s)(m \<mapsto> lm)\<rparr>, rd, \<not> ok))))"

definition isAllowedChainId :: "('h, 'l) Server \<Rightarrow> int \<Rightarrow> bool" where
  "isAllowedChainId s chainId =
     (if length (sv_allowedChainIds s) = 0 then True else list_ex (\<lambda>i. chainId = i) (sv_allowedChainIds s))"

text \<open>\<open>json.Unmarshal\<close> into a \<open>[]string\<close>; null elements leave the empty string.\<close>

definition Unmarshal_strings :: "bytes \<Rightarrow> string list option" where
  "Unmarshal_strings raw =
     (case json_parse raw of
        Some JNull \<Rightarrow> Some []
      | Some (JArray vs) \<Rightarrow>
          sequence (map (\<lambda>v. case v of JString t \<Rightarrow> Some t | JNull \<Rightarrow> Some [] | _ \<Rightarrow> None) vs)
      | _ \<Rightarrow> None)"

definition rateLimitSender ::
  "('r, 't) srv_lib \<Rightarrow> time \<Rightarrow> RPCReq \<Rightarrow> FrontendRateLimiter \<Rightarrow> ('h, 'l) Server \<Rightarrow> 'r
    \<Rightarrow> ('h, 'l) Server \<times> 'r \<times> error option" where
  "rateLimitSender SV now req senderLim s rd =
     (case Unmarshal_strings (rq_Params req) of
        None \<Rightarrow> (s, rd, Some (RPCE (Global ErrParseErr)))
      | Some params \<Rightarrow>
          if length params \<noteq> 1 then
            (s, rd, Some (RPCE (ErrInvalidParams ''missing value for required argument 0'')))
          else
            (case sl_hex_Bytes SV (params ! 0) of
               Inl e \<Rightarrow> (s, rd, Some (RPCE (ErrInvalidParams e)))
             | Inr data \<Rightarrow>
                 (case sl_tx_Unmarshal SV data of
                    Inl e \<Rightarrow> (s, rd, Some (RPCE (ErrInvalidParams e)))
                  | Inr tx \<Rightarrow>
                      if \<not> isAllowedChainId s (sl_ChainId SV tx) then (s, rd, Some (Errorf (sl_ErrInvalidSender SV)))
                      else
                        (case sl_Sender SV (sl_ChainId SV tx) tx of
                           Inl e \<Rightarrow> (s, rd, Some (RPCE (ErrInvalidParams e)))
                         | Inr from \<Rightarrow>
                             (let (lm, rd, r) = limiter_Take (sl_redis_incr SV) now
                                    (from @ '':'' @ int_text (uint (sl_Nonce SV tx))) senderLim rd;
                                  s = s\<lparr>sv_senderLim := Some lm\<rparr>
                              in (s, rd, case r of
                                   Inl err \<Rightarrow> Some (RPCE (Global ErrInternal))
                                 | Inr ok \<Rightarrow> if ok then None else Some (RPCE (Global ErrOverSenderRateLimit))))))))"

section \<open>Batches\<close>

record batchElem =
  el_Req :: RPCReq
  el_Index :: nat

definition createBatchRequest :: "batchElem list \<Rightarrow> RPCReq list" where
  "createBatchRequest elems = map el_Req elems"

definition emptyArrayResponse :: result_value where
  "emptyArrayResponse = ResRaw ''[]''"

text \<open>What becomes of one request before anything is forwarded: a health check answers the whole
  call, a response is given here, or the request is queued for a backend group.\<close>

datatype verdict = HealthCheck RPCRes | Respond RPCRes | Queue RPCReq string

definition triage ::
  "('r, 't) srv_lib \<Rightarrow> err_globals \<Rightarrow> time \<Rightarrow> client \<Rightarrow> nat \<Rightarrow> bytes \<Rightarrow> ('h, 'l) Server \<Rightarrow> 'r
    \<Rightarrow> ('h, 'l) Server \<times> 'r \<times> verdict" where
  "triage SV G now cl n raw s rd =
     (case ParseRPCReq raw of
        Inl err \<Rightarrow> (s, rd, Respond (NewRPCErrorRes G [] err))
      | Inr req \<Rightarrow>
          if n = 1 \<and> rq_Method req = proxydHealthzMethod then
            (s, rd, HealthCheck \<lparr>rs_JSONRPC = JSONRPCVersion, rs_Result = Some (ResJSON (JString ''OK'')),
               rs_Error = None, rs_ID = rq_ID req\<rparr>)
          else
            (case ValidateRPCReq req of
               Some err \<Rightarrow> (s, rd, Respond (NewRPCErrorRes G [] err))
             | None \<Rightarrow>
                 if rq_Method req = ''eth_accounts'' then
                   (s, rd, Respond (NewRPCRes (rq_ID req) (Some emptyArrayResponse)))
                 else
                   (let grp = (case sv_rpcMethodMappings s (rq_Method req) of None \<Rightarrow> [] | Some g \<Rightarrow> g)
                    in if grp = [] then
                         (s, rd, Respond (NewRPCErrorRes G (rq_ID req) (RPCE (Global ErrMethodNotWhitelisted))))
                       else
                         (let (s, rd, limited) = isLimited SV now cl [] s rd
                          in if limited then
                               (s, rd, Respond (NewRPCErrorRes G (rq_ID req) (RPCE (Global ErrOverRateLimit))))
                             else
                               (let (s, rd, limited) =
                                      (if sv_overrideLims s (rq_Method req) \<noteq> None
                                       then isLimited SV now cl (rq_Method req) s rd else (s, rd, False))
                                in if limited then
                                     (s, rd, Respond (NewRPCErrorRes G (rq_ID req) (RPCE (Global ErrOverRateLimit))))
                                   else
                                     (let (s, rd, err) =
                                            (case sv_senderLim s of
                                               Some lm \<Rightarrow>
                                                 if rq_Method req = ''eth_sendRawTransaction''
                                                 then rateLimitSender SV now req lm s rd else (s, rd, None)
                                             | None \<Rightarrow> (s, rd, None))
                                      in case err of
                                           Some err \<Rightarrow> (s, rd, Respond (NewRPCErrorRes G (rq_ID req) err))
                                         | None \<Rightarrow> (s, rd, Queue req grp)))))))"

text \<open>The batches by group number and backend group, in the order of their first elements.\<close>

type_synonym batchGroup = "nat \<times> string"
type_synonym batch_map = "(batchGroup \<times> batchElem list) list"

fun batch_append :: "batchGroup \<Rightarrow> batchElem \<Rightarrow> batch_map \<Rightarrow> batch_map" where
  "batch_append g e [] = [(g, [e])]"
| "batch_append g e ((g', es) # bs) = (if g = g' then (g', es @ [e]) # bs else (g', es) # batch_append g e bs)"

record batch_state =
  bs_responses :: "RPCRes option list"
  bs_batches :: batch_map
  bs_ids :: "bytes \<Rightarrow> nat"

definition bs_init :: "nat \<Rightarrow> batch_state" where
  "bs_init n = \<lparr>bs_responses = replicate n None, bs_batches = [], bs_ids = (\<lambda>_. 0)\<rparr>"

definition bs_add :: "nat \<Rightarrow> RPCReq \<Rightarrow> string \<Rightarrow> batch_state \<Rightarrow> batch_state" where
  "bs_add i req grp bs =
     (let ids = (bs_ids bs)(rq_ID req := bs_ids bs (rq_ID req) + 1)
      in bs\<lparr>bs_ids := ids,
            bs_batches := batch_append (ids (rq_ID req), grp) \<lparr>el_Req = req, el_Index = i\<rparr> (bs_batches bs)\<rparr>)"

fun triage_all ::
  "('r, 't) srv_lib \<Rightarrow> err_globals \<Rightarrow> time \<Rightarrow> client \<Rightarrow> nat \<Rightarrow> nat \<Rightarrow> bytes list \<Rightarrow> batch_state \<Rightarrow> ('h, 'l) Server \<Rightarrow> 'r
    \<Rightarrow> ('h, 'l) Server \<times> 'r \<times> (RPCRes + batch_state)" where
  "triage_all SV G now cl n i [] bs s rd = (s, rd, Inr bs)"
| "triage_all SV G now cl n i (raw # raws) bs s rd =
     (case triage SV G now cl n raw s rd of
        (s, rd, HealthCheck res) \<Rightarrow> (s, rd, Inl res)
      | (s, rd, Respond res) \<Rightarrow>
          triage_all SV G now cl n (Suc i) raws (bs\<lparr>bs_responses := (bs_responses bs)[i := Some res]\<rparr>) s rd
      | (s, rd, Queue req grp) \<Rightarrow> triage_all SV G now cl n (Suc i) raws (bs_add i req grp bs) s rd)"

section \<open>Forwarding batches\<close>

text \<open>Everything around the server, in one record.\<close>

record ('m, 'h, 'l, 'r, 't) srv_env =
  se_E :: "('m, 'h) env"
  se_shuffle :: "'h weighted_shuffle"
  se_arrival :: "bref list \<Rightarrow> bref list"
  se_C :: "('l, 'r) cache_lib"
  se_SV :: "('r, 't) srv_lib"
  se_G :: err_globals
  se_ord :: "batch_map \<Rightarrow> batch_map"
  se_sord :: "string list \<Rightarrow> string list"

record ('m, 'h, 'l, 'r) run =
  rn_s :: "('h, 'l) Server"
  rn_w :: "('m, 'h) world"
  rn_rd :: 'r
  rn_responses :: "RPCRes option list"
  rn_servedBy :: "string list"
  rn_cached :: bool

definition RPCCache_GetRPC ::
  "'a lib_scheme \<Rightarrow> ('l, 'r) cache_lib \<Rightarrow> RPCReq \<Rightarrow> 'l RPCCache \<Rightarrow> 'r \<Rightarrow> 'l RPCCache \<times> 'r \<times> (error + RPCRes option)" where
  "RPCCache_GetRPC L C req c rd =
     (case c of
        NoopRPCCache \<Rightarrow> (NoopRPCCache, rd, Inr None)
      | rpcCache cache \<Rightarrow> (let (cache, rd, r) = GetRPC L C req cache rd in (rpcCache cache, rd, r)))"

definition RPCCache_PutRPC ::
  "'a lib_scheme \<Rightarrow> ('l, 'r) cache_lib \<Rightarrow> RPCReq \<Rightarrow> RPCRes \<Rightarrow> 'l RPCCache \<Rightarrow> 'r \<Rightarrow> ('l RPCCache \<times> 'r \<times> error option) outcome" where
  "RPCCache_PutRPC L C req res c rd =
     (case c of
        NoopRPCCache \<Rightarrow> Done (NoopRPCCache, rd, None)
      | rpcCache cache \<Rightarrow> obind (PutRPC L C req res cache rd) (\<lambda>(cache, rd, err). Done (rpcCache cache, rd, err)))"

text \<open>The requests of a batch that the cache does not answer. An error of the cache counts as a miss.\<close>

fun cache_misses ::
  "('m, 'h, 'l, 'r, 't) srv_env \<Rightarrow> batchElem list \<Rightarrow> ('m, 'h, 'l, 'r) run \<Rightarrow> ('m, 'h, 'l, 'r) run \<times> batchElem list" where
  "cache_misses V [] rn = (rn, [])"
| "cache_misses V (e # es) rn =
     (let (c, rd, r) = RPCCache_GetRPC (se_E V) (se_C V) (el_Req e) (sv_cache (rn_s rn)) (rn_rd rn);
          rn = rn\<lparr>rn_s := (rn_s rn)\<lparr>sv_cache := c\<rparr>, rn_rd := rd\<rparr>
      in case r of
           Inr (Some res) \<Rightarrow>
             cache_misses V es (rn\<lparr>rn_responses := (rn_responses rn)[el_Index e := Some res], rn_cached := True\<rparr>)
         | _ \<Rightarrow> (let (rn, misses) = cache_misses V es rn in (rn, e # misses)))"

text \<open>The minibatches as the code computes them, \<open>math.Ceil\<close> and \<open>math.Min\<close> included.\<close>

definition minibatches :: "int \<Rightarrow> 'a list \<Rightarrow> 'a list list" where
  "minibatches maxUpstreamBatchSize cacheMisses =
     (let numBatches = \<lceil>rat_of_nat (length cacheMisses) / rat_of_int maxUpstreamBatchSize\<rceil>
      in map (\<lambda>i. let start = int i * maxUpstreamBatchSize;
                      end = min (start + maxUpstreamBatchSize) (int (length cacheMisses))
                  in take (nat (end - start)) (drop (nat start) cacheMisses)) [0..<nat numBatches])"

text \<open>Writing back the responses of a minibatch and caching the results.\<close>

fun store_results ::
  "('m, 'h, 'l, 'r, 't) srv_env \<Rightarrow> batchElem list \<Rightarrow> RPCRes option list \<Rightarrow> ('m, 'h, 'l, 'r) run \<Rightarrow> ('m, 'h, 'l, 'r) run outcome" where
  "store_results V [] res rn = Done rn"
| "store_results V (e # es) [] rn = out_of_range"
| "store_results V (e # es) (r # res) rn =
     (let rn = rn\<lparr>rn_responses := (rn_responses rn)[el_Index e := r]\<rparr>
      in case r of
           None \<Rightarrow> nil_deref
         | Some r \<Rightarrow>
             if rs_Error r = None \<and> rs_Result r \<noteq> None then
               obind (RPCCache_PutRPC (se_E V) (se_C V) (el_Req e) r (sv_cache (rn_s rn)) (rn_rd rn)) (\<lambda>(c, rd, err).
                 store_results V es res (rn\<lparr>rn_s := (rn_s rn)\<lparr>sv_cache := c\<rparr>, rn_rd := rd\<rparr>))
             else store_results V es res rn)"

definition receipts_error :: "error \<Rightarrow> bool" where
  "receipts_error err \<longleftrightarrow>
     errors_Is (Some err) (Std ErrConsensusGetReceiptsCantBeBatched) \<or>
     errors_Is (Some err) (Std ErrConsensusGetReceiptsInvalidTarget)"

fun forward_minibatches ::
  "('m, 'h, 'l, 'r, 't) srv_env \<Rightarrow> context_values \<Rightarrow> time \<Rightarrow> bool \<Rightarrow> string \<Rightarrow> batchElem list list \<Rightarrow> ('m, 'h, 'l, 'r) run
    \<Rightarrow> (('m, 'h, 'l, 'r) run \<times> error option) outcome" where
  "forward_minibatches V ctx deadline isBatch grp [] rn = Done (rn, None)"
| "forward_minibatches V ctx deadline isBatch grp (elems # rest) rn =
     (if deadline \<le> net_clock (se_E V) (w_net (rn_w rn)) then Done (rn, Some (Std context_DeadlineExceeded))
      else
        (case map_of (sv_BackendGroups (rn_s rn)) grp of
           None \<Rightarrow> nil_deref
         | Some bg \<Rightarrow>
             obind (group_Forward (se_E V) (se_shuffle V) (se_arrival V) (req_ctx_of ctx) bg (createBatchRequest elems)
                 isBatch (rn_w rn))
               (\<lambda>(w, reqs, resp).
                let elems = map2 (\<lambda>e req. e\<lparr>el_Req := req\<rparr>) elems reqs;
                    rn = rn\<lparr>rn_w := w, rn_servedBy := List.insert (br_ServedBy resp) (rn_servedBy rn)\<rparr>
                in case br_error resp of
                     Some err \<Rightarrow>
                       if receipts_error err then Done (rn, Some err)
                       else
                         obind (store_results V elems
                             (map (\<lambda>e. Some (NewRPCErrorRes (se_G V) (rq_ID (el_Req e)) err)) elems) rn)
                           (forward_minibatches V ctx deadline isBatch grp rest)
                   | None \<Rightarrow>
                       obind (store_results V elems (br_RPCRes resp) rn)
                         (forward_minibatches V ctx deadline isBatch grp rest))))"

fun process_batches ::
  "('m, 'h, 'l, 'r, 't) srv_env \<Rightarrow> context_values \<Rightarrow> time \<Rightarrow> bool \<Rightarrow> batch_map \<Rightarrow> ('m, 'h, 'l, 'r) run
    \<Rightarrow> (('m, 'h, 'l, 'r) run \<times> error option) outcome" where
  "process_batches V ctx deadline isBatch [] rn = Done (rn, None)"
| "process_batches V ctx deadline isBatch (((gid, grp), batch) # bs) rn =
     (let (rn, cacheMisses) = cache_misses V batch rn
      in obind (forward_minibatches V ctx deadline isBatch grp
             (minibatches (sv_maxUpstreamBatchSize (rn_s rn)) cacheMisses) rn)
           (\<lambda>(rn, err). case err of Some e \<Rightarrow> Done (rn, Some e) | None \<Rightarrow> process_batches V ctx deadline isBatch bs rn))"

definition servedByString :: "string list \<Rightarrow> string" where
  "servedByString sbs = fold (\<lambda>sb acc. (if acc \<noteq> [] then acc @ '', '' else acc) @ sb) sbs []"

type_synonym ('m, 'h, 'l, 'r) srv_state = "('h, 'l) Server \<times> ('m, 'h) world \<times> 'r"

definition handleBatchRPC ::
  "('m, 'h, 'l, 'r, 't) srv_env \<Rightarrow> context_values \<Rightarrow> time \<Rightarrow> client \<Rightarrow> bytes list \<Rightarrow> bool \<Rightarrow> ('m, 'h, 'l, 'r) srv_state
    \<Rightarrow> (('m, 'h, 'l, 'r) srv_state \<times> (error + (RPCRes option list \<times> bool \<times> string))) outcome" where
  "handleBatchRPC V ctx deadline cl reqs isBatch st =
     (case st of (s, w, rd) \<Rightarrow>
        (case triage_all (se_SV V) (se_G V) (net_clock (se_E V) (w_net w)) cl (length reqs) 0 reqs (bs_init (length reqs)) s rd of
           (s, rd, Inl res) \<Rightarrow> Done ((s, w, rd), Inr ([Some res], False, []))
         | (s, rd, Inr bs) \<Rightarrow>
             obind (process_batches V ctx deadline isBatch (se_ord V (bs_batches bs))
                 \<lparr>rn_s = s, rn_w = w, rn_rd = rd, rn_responses = bs_responses bs, rn_servedBy = [], rn_cached = False\<rparr>)
               (\<lambda>(rn, err). Done ((rn_s rn, rn_w rn, rn_rd rn),
                  case err of
                    Some e \<Rightarrow> Inl e
                  | None \<Rightarrow> Inr (rn_responses rn, rn_cached rn, servedByString (se_sord V (rn_servedBy rn)))))))"

section \<open>Handlers\<close>

definition HandleHealthz :: "ResponseWriter \<Rightarrow> ResponseWriter" where
  "HandleHealthz w = rw_Write ''OK'' w"

definition HandleRPC ::
  "('m, 'h, 'l, 'r, 't) srv_env \<Rightarrow> bytes \<Rightarrow> http_in \<Rightarrow> ('m, 'h, 'l, 'r) srv_state
    \<Rightarrow> (('m, 'h, 'l, 'r) srv_state \<times> ResponseWriter) outcome" where
  "HandleRPC V rnd r st =
     (case st of (s, w, rd) \<Rightarrow>
        (case populateContext s rnd r fresh_writer of
           (rw, None) \<Rightarrow> Done (st, rw)
         | (rw, Some ctx) \<Rightarrow>
             (let E = se_E V; G = se_G V;
                  deadline = net_clock E (w_net w) + sv_timeout s;
                  err = (\<lambda>st e. obind (writeRPCError (hex_String E) G [] e rw) (\<lambda>rw. Done (st, rw)));
                  origin = header_Get ''Origin'' (hi_Header r);
                  userAgent = header_Get ''User-Agent'' (hi_Header r);
                  xff = stripXFF (GetXForwardedFor ctx);
                  cl = \<lparr>cl_unlimitedOrigin = isUnlimitedOrigin s origin,
                        cl_unlimitedUserAgent = isUnlimitedUserAgent s userAgent, cl_xff = xff\<rparr>
              in if xff = [] then err st (RPCE (ErrInvalidRequest ''request does not include a remote IP''))
                 else
                   (let (body, rerr) = read_limited (hi_Body r) (sv_maxBodySize s)
                    in if errors_Is rerr (Std ErrLimitReaderOverLimit) then err st (RPCE (Global ErrRequestBodyTooLarge))
                       else if rerr \<noteq> None then err st (RPCE (Global ErrInternal))
                       else
                         obind (if sv_enableRequestLog s then truncate_str body (sv_maxRequestBodyLogLen s) else Done []) (\<lambda>_.
                         if IsBatch body then
                           (case ParseBatchRPCReq body of
                              None \<Rightarrow> err st (RPCE (Global ErrParseErr))
                            | Some reqs \<Rightarrow>
                                if int (length reqs) > sv_maxBatchSize s then err st (RPCE (Global ErrTooManyBatchRequests))
                                else if length reqs = 0 then
                                  err st (RPCE (ErrInvalidRequest ''must specify at least one batch call''))
                                else
                                  obind (handleBatchRPC V ctx deadline cl reqs True st) (\<lambda>(st, res).
                                    case res of
                                      Inl e \<Rightarrow>
                                        if e = Std context_DeadlineExceeded then err st (RPCE (Global ErrGatewayTimeout))
                                        else if receipts_error e then err st (RPCE (ErrInvalidRequest (error_text G e)))
                                        else err st (RPCE (Global ErrInternal))
                                    | Inr (batchRes, batchContainsCached, servedBy) \<Rightarrow>
                                        (let rw = (if sv_enableServedByHeader s then rw_Set ''x-served-by'' servedBy rw else rw);
                                             rw = setCacheHeader batchContainsCached rw
                                         in Done (st, writeBatchRPCRes (hex_String E) G batchRes rw))))
                         else
                           obind (handleBatchRPC V ctx deadline cl [body] False st) (\<lambda>(st, res).
                             case res of
                               Inl e \<Rightarrow>
                                 if receipts_error e then err st (RPCE (ErrInvalidRequest (error_text G e)))
                                 else err st (RPCE (Global ErrInternal))
                             | Inr (backendRes, cached, servedBy) \<Rightarrow>
                                 (let rw = (if sv_enableServedByHeader s then rw_Set ''x-served-by'' servedBy rw else rw);
                                      rw = setCacheHeader cached rw
                                  in case backendRes of
                                       [] \<Rightarrow> out_of_range
                                     | res # _ \<Rightarrow> obind (writeRPCRes (hex_String E) G res rw) (\<lambda>rw. Done (st, rw)))))))))"

section \<open>Configuration\<close>

text \<open>Requests change the limiters and the cache of a server and nothing else of it.\<close>

definition same_server :: "('h, 'l) Server \<Rightarrow> ('h, 'l) Server \<Rightarrow> bool" where
  "same_server s s' \<longleftrightarrow>
     s'\<lparr>sv_mainLim := sv_mainLim s, sv_overrideLims := sv_overrideLims s, sv_senderLim := sv_senderLim s,
        sv_cache := sv_cache s\<rparr> = s \<and>
     dom (sv_overrideLims s') = dom (sv_overrideLims s) \<and> (sv_senderLim s' = None \<longleftrightarrow> sv_senderLim s = None)"

lemma same_server_refl [simp]: "same_server s s"
  by (simp add: same_server_def)

lemma same_server_trans: "same_server a b \<Longrightarrow> same_server b c \<Longrightarrow> same_server a c"
  by (cases a; cases b; cases c) (simp add: same_server_def)

lemma same_server_update:
  "same_server s (s\<lparr>sv_mainLim := m\<rparr>)" "same_server s (s\<lparr>sv_cache := c\<rparr>)"
  "sv_overrideLims s k = Some l \<Longrightarrow> same_server s (s\<lparr>sv_overrideLims := (sv_overrideLims s)(k \<mapsto> l')\<rparr>)"
  "sv_senderLim s = Some l \<Longrightarrow> same_server s (s\<lparr>sv_senderLim := Some l'\<rparr>)"
  by (auto simp: same_server_def)

lemma same_server_fields:
  assumes "same_server s s'"
  shows "sv_BackendGroups s' = sv_BackendGroups s" "sv_rpcMethodMappings s' = sv_rpcMethodMappings s"
    "sv_maxUpstreamBatchSize s' = sv_maxUpstreamBatchSize s" "sv_maxBatchSize s' = sv_maxBatchSize s"
    "sv_maxBodySize s' = sv_maxBodySize s" "sv_timeout s' = sv_timeout s" "sv_rateLimitHeader s' = sv_rateLimitHeader s"
    "sv_globallyLimitedMethods s' = sv_globallyLimitedMethods s" "dom (sv_overrideLims s') = dom (sv_overrideLims s)"
  using assms by (cases s; cases s'; simp add: same_server_def)+

lemma isLimited_server: "isLimited SV now cl m s rd = (s', rd', r) \<Longrightarrow> same_server s s'"
  by (auto simp: isLimited_def intro: same_server_update split: if_splits option.splits prod.splits sum.splits)

lemma rateLimitSender_server:
  "rateLimitSender SV now req lm s rd = (s', rd', r) \<Longrightarrow> sv_senderLim s = Some lm \<Longrightarrow> same_server s s'"
  by (auto simp: rateLimitSender_def Let_def intro: same_server_update split: if_splits option.splits prod.splits sum.splits)

definition mapped_group :: "('h, 'l) Server \<Rightarrow> string \<Rightarrow> string" where
  "mapped_group s m = (case sv_rpcMethodMappings s m of None \<Rightarrow> [] | Some g \<Rightarrow> g)"

text \<open>The three limits, taken one after the other for a request of a mapped method.\<close>

lemma limits_cases:
  fixes s :: "('h, 'l) Server" and rd :: 'r
  assumes "(let (s, rd, limited) = isLimited SV now cl [] s rd
     in if limited then (s, rd, Respond (NewRPCErrorRes G i (RPCE (Global ErrOverRateLimit))))
        else
          (let (s, rd, limited) =
                 (if sv_overrideLims s m \<noteq> None then isLimited SV now cl m s rd else (s, rd, False))
           in if limited then (s, rd, Respond (NewRPCErrorRes G i (RPCE (Global ErrOverRateLimit))))
              else
                (let (s, rd, err) =
                       (case sv_senderLim s of
                          Some lm \<Rightarrow> if m = ''eth_sendRawTransaction'' then rateLimitSender SV now req lm s rd else (s, rd, None)
                        | None \<Rightarrow> (s, rd, None))
                 in case err of Some err \<Rightarrow> (s, rd, Respond (NewRPCErrorRes G i err)) | None \<Rightarrow> (s, rd, Queue req grp))))
    = (s', rd', v)"
  shows "same_server s s' \<and> (v = Queue req grp \<or> (\<exists>err. v = Respond (NewRPCErrorRes G i err)))"
proof -
  obtain s1 rd1 l1 where l1: "isLimited SV now cl [] s rd = (s1, rd1, l1)" by (cases "isLimited SV now cl [] s rd")
  note w1 = isLimited_server [OF l1]
  obtain s2 rd2 l2 where l2: "(if sv_overrideLims s1 m \<noteq> None then isLimited SV now cl m s1 rd1 else (s1, rd1, False)) = (s2, rd2, l2)"
    by (metis prod_cases3)
  have w2: "same_server s s2"
    using l2 same_server_trans [OF w1] isLimited_server w1 by (metis prod.inject)
  obtain s3 rd3 e3 where l3: "(case sv_senderLim s2 of
      Some lm \<Rightarrow> if m = ''eth_sendRawTransaction'' then rateLimitSender SV now req lm s2 rd2 else (s2, rd2, None)
    | None \<Rightarrow> (s2, rd2, None)) = (s3, rd3, e3)"
    by (metis prod_cases3)
  have w3: "same_server s s3"
    using l3 same_server_trans [OF w2] rateLimitSender_server [of SV now req _ s2 rd2 s3 rd3 e3] w2
    by (auto split: option.splits if_splits)
  show ?thesis
    using assms [unfolded l1 Let_def prod.case l2 l3] w1 w2 w3 by (auto split: if_splits option.splits)
qed

text \<open>The answer to a request that must not reach a backend: health checks, malformed requests,
  \<open>eth_accounts\<close>, and methods that are not mapped to a backend group.\<close>

definition refused :: "err_globals \<Rightarrow> ('h, 'l) Server \<Rightarrow> nat \<Rightarrow> bytes \<Rightarrow> RPCRes option" where
  "refused G s n raw =
     (case ParseRPCReq raw of
        Inl err \<Rightarrow> Some (NewRPCErrorRes G [] err)
      | Inr req \<Rightarrow>
          if n = 1 \<and> rq_Method req = proxydHealthzMethod then Some (NewRPCRes (rq_ID req) (Some (ResJSON (JString ''OK''))))
          else
            (case ValidateRPCReq req of
               Some err \<Rightarrow> Some (NewRPCErrorRes G [] err)
             | None \<Rightarrow>
                 if rq_Method req = ''eth_accounts'' then Some (NewRPCRes (rq_ID req) (Some (ResRaw ''[]'')))
                 else if mapped_group s (rq_Method req) = [] then
                   Some (NewRPCErrorRes G (rq_ID req) (RPCE (Global ErrMethodNotWhitelisted)))
                 else None))"

lemma refused_cong: "same_server s s' \<Longrightarrow> refused G s' n raw = refused G s n raw"
proof -
  assume "same_server s s'"
  then have eq: "mapped_group s' = mapped_group s" by (simp add: fun_eq_iff mapped_group_def same_server_fields)
  show ?thesis unfolding refused_def eq ..
qed

lemma triage_result:
  assumes "triage SV G now cl n raw s rd = (s', rd', v)"
  shows "same_server s s'"
    and "case v of
           HealthCheck r \<Rightarrow> n = 1 \<and> refused G s n raw = Some r
         | Respond r \<Rightarrow> refused G s n raw = None \<or> refused G s n raw = Some r
         | Queue req grp \<Rightarrow> refused G s n raw = None \<and> ParseRPCReq raw = Inr req \<and> ValidateRPCReq req = None \<and>
             grp = mapped_group s (rq_Method req) \<and> grp \<noteq> []"
proof -
  have "same_server s s' \<and> (case v of
           HealthCheck r \<Rightarrow> n = 1 \<and> refused G s n raw = Some r
         | Respond r \<Rightarrow> refused G s n raw = None \<or> refused G s n raw = Some r
         | Queue req grp \<Rightarrow> refused G s n raw = None \<and> ParseRPCReq raw = Inr req \<and> ValidateRPCReq req = None \<and>
             grp = mapped_group s (rq_Method req) \<and> grp \<noteq> [])"
  proof (cases "ParseRPCReq raw")
    case (Inl err)
    with assms show ?thesis by (auto simp: triage_def refused_def)
  next
    case (Inr req)
    note T = assms [unfolded triage_def Inr sum.case, folded mapped_group_def]
    show ?thesis
    proof (cases "n = 1 \<and> rq_Method req = proxydHealthzMethod")
      case True
      with T Inr show ?thesis by (auto simp: refused_def NewRPCRes_def)
    next
      case False
      then have c: "(n = 1 \<and> rq_Method req = proxydHealthzMethod) = False" by blast
      note T = T [unfolded c if_False]
      show ?thesis
      proof (cases "ValidateRPCReq req")
        case (Some err)
        with T Inr c show ?thesis by (auto simp: refused_def)
      next
        case None
        note T = T [unfolded None option.case]
        show ?thesis
        proof (cases "rq_Method req = ''eth_accounts'' \<or> mapped_group s (rq_Method req) = []")
          case True
          with T Inr None c show ?thesis
            by (cases "rq_Method req = ''eth_accounts''") (auto simp: refused_def emptyArrayResponse_def)
        next
          case False
          then have f: "(rq_Method req = ''eth_accounts'') = False" "(mapped_group s (rq_Method req) = []) = False" by blast+
          from limits_cases [OF T [unfolded f(1) if_False Let_def [of "mapped_group s (rq_Method req)"] f(2) if_False]]
          have "same_server s s' \<and> (v = Queue req (mapped_group s (rq_Method req)) \<or>
              (\<exists>err. v = Respond (NewRPCErrorRes G (rq_ID req) err)))" .
          moreover have "refused G s n raw = None" unfolding refused_def Inr sum.case c if_False None option.case f ..
          ultimately show ?thesis using Inr None f by auto
        qed
      qed
    qed
  qed
  then show "same_server s s'" and "case v of
           HealthCheck r \<Rightarrow> n = 1 \<and> refused G s n raw = Some r
         | Respond r \<Rightarrow> refused G s n raw = None \<or> refused G s n raw = Some r
         | Queue req grp \<Rightarrow> refused G s n raw = None \<and> ParseRPCReq raw = Inr req \<and> ValidateRPCReq req = None \<and>
             grp = mapped_group s (rq_Method req) \<and> grp \<noteq> []" by blast+
qed

section \<open>Batches\<close>

definition queued :: "batch_map \<Rightarrow> batchElem list" where
  "queued bm = concat (map snd bm)"

lemma queued_append: "mset (queued (batch_append g e bm)) = add_mset e (mset (queued bm))"
  by (induction g e bm rule: batch_append.induct) (auto simp: queued_def)

lemma queued_append_set [simp]: "set (queued (batch_append g e bm)) = insert e (set (queued bm))"
  using arg_cong [OF queued_append, of set_mset] by simp

lemma distinct_map_mset: "mset xs = mset ys \<Longrightarrow> distinct (map f xs) = distinct (map f ys)"
  by (metis mset_eq_imp_distinct_iff mset_map)

lemma batch_append_in:
  "(g', es) \<in> set (batch_append g e bm) \<Longrightarrow>
     (g', es) \<in> set bm \<or> g' = g \<and> (es = [e] \<or> (\<exists>es0. (g, es0) \<in> set bm \<and> es = es0 @ [e]))"
  by (induction g e bm rule: batch_append.induct) (auto split: if_splits)

text \<open>
  After \<open>i\<close> requests: every request is either answered or queued, exactly once; in a batch all IDs
  differ, all methods are mapped to the backend group of the batch, and the batch number of a request
  is at most the number of requests with its ID.
\<close>

definition batch_ok :: "('h, 'l) Server \<Rightarrow> bytes list \<Rightarrow> (bytes \<Rightarrow> nat) \<Rightarrow> nat \<Rightarrow> string \<Rightarrow> batchElem list \<Rightarrow> bool" where
  "batch_ok s reqs ids k grp es \<longleftrightarrow> distinct (map (rq_ID \<circ> el_Req) es) \<and>
     (\<forall>e \<in> set es. k \<le> ids (rq_ID (el_Req e)) \<and> ParseRPCReq (reqs ! el_Index e) = Inr (el_Req e) \<and>
        ValidateRPCReq (el_Req e) = None \<and> mapped_group s (rq_Method (el_Req e)) = grp \<and> grp \<noteq> [])"

definition batch_inv :: "err_globals \<Rightarrow> ('h, 'l) Server \<Rightarrow> bytes list \<Rightarrow> nat \<Rightarrow> batch_state \<Rightarrow> bool" where
  "batch_inv G s reqs i bs \<longleftrightarrow>
     length (bs_responses bs) = length reqs \<and>
     distinct (map el_Index (queued (bs_batches bs))) \<and>
     (\<forall>e \<in> set (queued (bs_batches bs)). el_Index e < i \<and> refused G s (length reqs) (reqs ! el_Index e) = None) \<and>
     (\<forall>j < i. bs_responses bs ! j \<noteq> None \<or> j \<in> el_Index ` set (queued (bs_batches bs))) \<and>
     (\<forall>j < i. \<forall>r. refused G s (length reqs) (reqs ! j) = Some r \<longrightarrow> bs_responses bs ! j = Some r) \<and>
     (\<forall>k grp es. ((k, grp), es) \<in> set (bs_batches bs) \<longrightarrow> batch_ok s reqs (bs_ids bs) k grp es)"

lemma batch_inv_init: "batch_inv G s reqs 0 (bs_init (length reqs))"
  by (simp add: batch_inv_def bs_init_def queued_def)

lemma batch_inv_respond:
  assumes "batch_inv G s reqs i bs" and "i < length reqs"
    and "refused G s (length reqs) (reqs ! i) = None \<or> refused G s (length reqs) (reqs ! i) = Some r"
  shows "batch_inv G s reqs (Suc i) (bs\<lparr>bs_responses := (bs_responses bs)[i := Some r]\<rparr>)"
proof -
  have "(bs_responses bs)[i := Some r] ! j \<noteq> None \<or> j \<in> el_Index ` set (queued (bs_batches bs))" if "j < Suc i" for j
    using assms(1,2) that by (cases "j = i") (auto simp: batch_inv_def less_Suc_eq)
  moreover have "(bs_responses bs)[i := Some r] ! j = Some r'" if "j < Suc i" "refused G s (length reqs) (reqs ! j) = Some r'" for j r'
    using assms that by (cases "j = i") (auto simp: batch_inv_def less_Suc_eq)
  ultimately show ?thesis using assms(1) by (auto simp: batch_inv_def less_Suc_eq)
qed

lemma batch_inv_queue:
  assumes inv: "batch_inv G s reqs i bs" and "i < length reqs"
    and r: "refused G s (length reqs) (reqs ! i) = None" "ParseRPCReq (reqs ! i) = Inr req" "ValidateRPCReq req = None"
      "grp = mapped_group s (rq_Method req)" "grp \<noteq> []"
  shows "batch_inv G s reqs (Suc i) (bs_add i req grp bs)"
proof -
  let ?ids = "(bs_ids bs)(rq_ID req := bs_ids bs (rq_ID req) + 1)" and ?e = "\<lparr>el_Req = req, el_Index = i\<rparr>"
  let ?k = "bs_ids bs (rq_ID req) + 1"
  have add: "bs_add i req grp bs = bs\<lparr>bs_ids := ?ids, bs_batches := batch_append (?k, grp) ?e (bs_batches bs)\<rparr>"
    by (simp add: bs_add_def Let_def)
  have ok: "batch_ok s reqs ?ids k g es" if b: "((k, g), es) \<in> set (bs_batches bs)" for k g es
    using inv b unfolding batch_inv_def batch_ok_def by (fastforce intro: le_SucI)
  have "batch_ok s reqs ?ids k g es" if "((k, g), es) \<in> set (batch_append (?k, grp) ?e (bs_batches bs))" for k g es
    using batch_append_in [OF that]
  proof (elim disjE conjE exE)
    assume "((k, g), es) \<in> set (bs_batches bs)"
    then show ?thesis by (rule ok)
  next
    assume "(k, g) = (?k, grp)" "es = [?e]"
    with r show ?thesis by (simp add: batch_ok_def)
  next
    fix es0
    assume k: "(k, g) = (?k, grp)" and es: "((?k, grp), es0) \<in> set (bs_batches bs)" "es = es0 @ [?e]"
    have "batch_ok s reqs (bs_ids bs) ?k grp es0" using inv es(1) by (simp add: batch_inv_def)
    then have "rq_ID (el_Req e) \<noteq> rq_ID req" if "e \<in> set es0" for e using that by (fastforce simp: batch_ok_def)
    with ok [OF es(1)] k es(2) r show ?thesis by (force simp: batch_ok_def)
  qed
  moreover have "distinct (map el_Index (queued (batch_append (?k, grp) ?e (bs_batches bs))))"
  proof -
    have "mset (queued (batch_append (?k, grp) ?e (bs_batches bs))) = mset (?e # queued (bs_batches bs))"
      by (simp add: queued_append)
    from distinct_map_mset [OF this] inv show ?thesis by (force simp: batch_inv_def)
  qed
  ultimately show ?thesis using inv r(1) unfolding add batch_inv_def by (auto simp: less_Suc_eq)
qed

lemma triage_all_result:
  assumes "triage_all SV G now cl (length reqs) i (drop i reqs) bs s1 rd = (s', rd', res)"
    and "same_server s s1" and "batch_inv G s reqs i bs" and "i \<le> length reqs"
  shows "same_server s s' \<and> (case res of
      Inl r \<Rightarrow> length reqs = 1 \<and> refused G s (length reqs) (reqs ! 0) = Some r
    | Inr bs' \<Rightarrow> batch_inv G s reqs (length reqs) bs')"
  using assms
proof (induction "length reqs - i" arbitrary: i bs s1 rd)
  case 0
  then show ?case by auto
next
  case (Suc d)
  then have i: "i < length reqs" by simp
  note dr = Cons_nth_drop_Suc [OF i, symmetric]
  obtain s2 rd2 v where t: "triage SV G now cl (length reqs) (reqs ! i) s1 rd = (s2, rd2, v)"
    by (cases "triage SV G now cl (length reqs) (reqs ! i) s1 rd")
  note tr = triage_result [OF t]
  have s2: "same_server s s2" using same_server_trans [OF Suc.prems(2) tr(1)] .
  have mg: "mapped_group s1 = mapped_group s" using Suc.prems(2) by (simp add: fun_eq_iff mapped_group_def same_server_fields)
  note tr2 = tr(2) [unfolded refused_cong [OF Suc.prems(2)] mg]
  show ?case
  proof (cases v)
    case (HealthCheck r)
    with Suc.prems(1) t s2 tr2 i show ?thesis by (auto simp: dr)
  next
    case (Respond r)
    with Suc.prems(1) t have "triage_all SV G now cl (length reqs) (Suc i) (drop (Suc i) reqs)
        (bs\<lparr>bs_responses := (bs_responses bs)[i := Some r]\<rparr>) s2 rd2 = (s', rd', res)"
      by (simp add: dr)
    from Suc.hyps(1) [OF _ this s2 batch_inv_respond [OF Suc.prems(3) i]] Respond tr2 Suc.hyps(2) i show ?thesis by simp
  next
    case (Queue req grp)
    with Suc.prems(1) t have "triage_all SV G now cl (length reqs) (Suc i) (drop (Suc i) reqs) (bs_add i req grp bs) s2 rd2 = (s', rd', res)"
      by (simp add: dr)
    moreover have "batch_inv G s reqs (Suc i) (bs_add i req grp bs)"
      using Queue tr2 by (intro batch_inv_queue [OF Suc.prems(3) i]) auto
    moreover have "d = length reqs - Suc i" "Suc i \<le> length reqs" using Suc.hyps(2) i by simp_all
    ultimately show ?thesis using Suc.hyps(1) s2 by blast
  qed
qed

section \<open>Minibatches\<close>

lemma ceiling_step:
  assumes "0 < m" and "0 < n"
  shows "nat \<lceil>rat_of_nat n / rat_of_int m\<rceil> = Suc (nat \<lceil>rat_of_nat (n - nat m) / rat_of_int m\<rceil>)"
proof (cases "n \<le> nat m")
  case True
  then have "int n \<le> m" using assms(1) by (simp add: le_nat_iff)
  then have "rat_of_nat n \<le> rat_of_int m" by (metis of_int_le_iff of_int_of_nat_eq)
  with assms have "\<lceil>rat_of_nat n / rat_of_int m\<rceil> = 1"
    by (intro ceiling_unique) (simp_all add: divide_simps)
  with True show ?thesis by simp
next
  case False
  have "rat_of_nat (nat m) = rat_of_int m" using assms(1) by simp
  with False have n: "rat_of_nat n = rat_of_nat (n - nat m) + rat_of_int m" by (simp add: of_nat_diff)
  have q: "rat_of_nat n / rat_of_int m = rat_of_nat (n - nat m) / rat_of_int m + 1"
    using assms(1) by (subst n) (simp add: add_divide_distrib)
  have "\<lceil>rat_of_nat n / rat_of_int m\<rceil> = \<lceil>rat_of_nat (n - nat m) / rat_of_int m\<rceil> + 1"
    unfolding q by (rule ceiling_add_one)
  moreover have "0 \<le> rat_of_nat (n - nat m) / rat_of_int m" using assms(1) by simp
  then have "0 \<le> \<lceil>rat_of_nat (n - nat m) / rat_of_int m\<rceil>" by (simp add: zero_le_ceiling)
  ultimately show ?thesis by (simp only: nat_add_distrib) simp
qed

lemma minibatches_Nil [simp]: "minibatches m [] = []"
  by (simp add: minibatches_def)

lemma minibatches_step:
  assumes "0 < m" and "xs \<noteq> []"
  shows "minibatches m xs = take (nat m) xs # minibatches m (drop (nat m) xs)"
proof -
  let ?n = "length xs"
  let ?sl = "\<lambda>ys i. take (nat (min (int i * m + m) (int (length ys)) - int i * m)) (drop (nat (int i * m)) ys)"
  have up: "[0..<Suc k] = 0 # map Suc [0..<k]" for k by (simp add: upt_conv_Cons map_Suc_upt del: upt_Suc)
  have first: "?sl xs 0 = take (nat m) xs"
    using assms(1) by (cases "m \<le> int ?n") (auto simp: min_def)
  have rest: "?sl xs (Suc i) = ?sl (drop (nat m) xs) i" for i
  proof -
    have d: "drop (nat (int (Suc i) * m)) xs = drop (nat (int i * m)) (drop (nat m) xs)"
      using assms(1) by (simp add: nat_add_distrib algebra_simps)
    show ?thesis
    proof (cases "nat m \<le> ?n")
      case True
      then have "int (length (drop (nat m) xs)) = int ?n - m" using assms(1) by (simp add: of_nat_diff)
      then have "min (int (Suc i) * m + m) (int ?n) - int (Suc i) * m =
          min (int i * m + m) (int (length (drop (nat m) xs))) - int i * m"
        using assms(1) by (simp add: min_def algebra_simps)
      with d show ?thesis by simp
    next
      case False
      then have "drop (nat m) xs = []" by simp
      with d show ?thesis by simp
    qed
  qed
  show ?thesis
    unfolding minibatches_def Let_def
    using ceiling_step [OF assms(1), of ?n] assms(2) first rest by (simp add: up comp_def del: upt_Suc)
qed

lemma minibatches_nonpos: "m \<le> 0 \<Longrightarrow> minibatches m xs = []"
proof -
  assume "m \<le> 0"
  then have "rat_of_nat (length xs) / rat_of_int m \<le> 0" by (simp add: divide_nonneg_nonpos)
  then have "\<lceil>rat_of_nat (length xs) / rat_of_int m\<rceil> \<le> 0" by (simp add: ceiling_le_zero)
  then have "nat \<lceil>rat_of_nat (length xs) / rat_of_int m\<rceil> = 0" by (simp only: nat_0_iff)
  then show ?thesis by (simp only: minibatches_def Let_def upt_0 list.map upt.simps)
qed

lemma minibatches_chunks: "0 < m \<Longrightarrow> minibatches m xs = chunks (nat m) xs"
proof (induction "nat m" xs rule: chunks.induct)
  case (1 xs)
  then show ?case by (cases "xs = []") (auto simp: minibatches_step chunks.simps [of "nat m" xs] chunks.simps [of "nat m" "[]"])
qed

section \<open>What the second half of a call does\<close>

text \<open>
  From \<open>rn\<close> to \<open>rn'\<close> only responses at the indices \<open>I\<close> changed, no response was lost, and the
  configuration of the server is the same.
\<close>

definition run_frame :: "nat set \<Rightarrow> ('m, 'h, 'l, 'r) run \<Rightarrow> ('m, 'h, 'l, 'r) run \<Rightarrow> bool" where
  "run_frame I rn rn' \<longleftrightarrow> same_server (rn_s rn) (rn_s rn') \<and>
     length (rn_responses rn') = length (rn_responses rn) \<and>
     (\<forall>j. j \<notin> I \<longrightarrow> rn_responses rn' ! j = rn_responses rn ! j) \<and>
     (\<forall>j < length (rn_responses rn). rn_responses rn ! j \<noteq> None \<longrightarrow> rn_responses rn' ! j \<noteq> None)"

definition filled :: "nat set \<Rightarrow> ('m, 'h, 'l, 'r) run \<Rightarrow> bool" where
  "filled I rn \<longleftrightarrow> (\<forall>j \<in> I. j < length (rn_responses rn) \<longrightarrow> rn_responses rn ! j \<noteq> None)"

lemma run_frame_refl [simp]: "run_frame I rn rn"
  by (simp add: run_frame_def)

lemma run_frame_trans:
  "run_frame I a b \<Longrightarrow> run_frame J b c \<Longrightarrow> I \<subseteq> K \<Longrightarrow> J \<subseteq> K \<Longrightarrow> run_frame K a c"
  unfolding run_frame_def using same_server_trans by fastforce

lemma run_frame_mono: "run_frame I a b \<Longrightarrow> I \<subseteq> J \<Longrightarrow> run_frame J a b"
  unfolding run_frame_def by blast

lemma filled_frame: "filled I a \<Longrightarrow> run_frame J a b \<Longrightarrow> filled I b"
  unfolding filled_def run_frame_def by simp

lemma filled_Un: "filled (I \<union> J) rn \<longleftrightarrow> filled I rn \<and> filled J rn"
  unfolding filled_def by blast

lemma filled_mono: "filled I rn \<Longrightarrow> J \<subseteq> I \<Longrightarrow> filled J rn"
  unfolding filled_def by blast

lemma filled_insertI: "filled {j} rn \<Longrightarrow> filled I rn \<Longrightarrow> filled (insert j I) rn"
  unfolding filled_def by blast

lemma filled_empty [simp]: "filled {} rn"
  by (simp add: filled_def)

lemma list_update_Some: "xs ! k = Some y \<Longrightarrow> \<exists>y. xs[j := Some r] ! k = Some y"
  by (cases "k = j"; cases "j < length xs") (auto simp: list_update_beyond)

lemma run_frame_set:
  "run_frame {j} rn (rn\<lparr>rn_s := (rn_s rn)\<lparr>sv_cache := c\<rparr>, rn_rd := rd, rn_responses := (rn_responses rn)[j := Some r], rn_cached := b\<rparr>)"
  "run_frame {j} rn (rn\<lparr>rn_responses := (rn_responses rn)[j := Some r], rn_s := (rn_s rn)\<lparr>sv_cache := c\<rparr>, rn_rd := rd\<rparr>)"
  "run_frame {j} rn (rn\<lparr>rn_responses := (rn_responses rn)[j := Some r]\<rparr>)"
  "run_frame {} rn (rn\<lparr>rn_s := (rn_s rn)\<lparr>sv_cache := c\<rparr>, rn_rd := rd\<rparr>)"
  "run_frame {} rn (rn\<lparr>rn_w := w, rn_servedBy := sb\<rparr>)"
  by (auto simp: run_frame_def intro: list_update_Some same_server_update)

lemma cache_misses_result:
  assumes "cache_misses V es rn = (rn', misses)"
  shows "run_frame (el_Index ` set es) rn rn' \<and> filled (el_Index ` (set es - set misses)) rn' \<and>
    set misses \<subseteq> set es \<and> (distinct (map f es) \<longrightarrow> distinct (map f misses))"
  using assms
proof (induction es arbitrary: rn rn' misses)
  case (Cons e es)
  obtain c rd r where g: "RPCCache_GetRPC (se_E V) (se_C V) (el_Req e) (sv_cache (rn_s rn)) (rn_rd rn) = (c, rd, r)"
    by (cases "RPCCache_GetRPC (se_E V) (se_C V) (el_Req e) (sv_cache (rn_s rn)) (rn_rd rn)")
  let ?rn = "rn\<lparr>rn_s := (rn_s rn)\<lparr>sv_cache := c\<rparr>, rn_rd := rd\<rparr>"
  show ?case
  proof (cases "\<exists>res. r = Inr (Some res)")
    case True
    then obtain res where r: "r = Inr (Some res)" by blast
    let ?rn2 = "?rn\<lparr>rn_responses := (rn_responses rn)[el_Index e := Some res], rn_cached := True\<rparr>"
    from Cons.prems g r have "cache_misses V es ?rn2 = (rn', misses)" by (simp add: Let_def)
    note IH = Cons.IH [OF this]
    have fr: "run_frame {el_Index e} rn ?rn2" by (rule run_frame_set(1))
    have "filled {el_Index e} ?rn2" by (simp add: filled_def)
    from filled_insertI [OF filled_frame [OF this conjunct1 [OF IH]] conjunct1 [OF conjunct2 [OF IH]]]
    have "filled (insert (el_Index e) (el_Index ` (set es - set misses))) rn'" .
    then have "filled (el_Index ` (set (e # es) - set misses)) rn'" by (rule filled_mono) auto
    moreover have "run_frame (el_Index ` set (e # es)) rn rn'"
      by (rule run_frame_trans [OF fr conjunct1 [OF IH]]) auto
    moreover have "set misses \<subseteq> set (e # es)" "distinct (map f (e # es)) \<longrightarrow> distinct (map f misses)" using IH by auto
    ultimately show ?thesis by blast
  next
    case False
    obtain rn2 ms where m: "cache_misses V es ?rn = (rn2, ms)" by fastforce
    with Cons.prems g False have eq: "rn' = rn2" "misses = e # ms" by (auto simp: Let_def split: sum.splits option.splits)
    note IH = Cons.IH [OF m]
    have "run_frame (el_Index ` set (e # es)) rn rn'"
      unfolding eq by (rule run_frame_trans [OF run_frame_set(4) conjunct1 [OF IH]]) auto
    moreover have "filled (el_Index ` (set (e # es) - set misses)) rn'"
      unfolding eq by (rule filled_mono [OF conjunct1 [OF conjunct2 [OF IH]]]) auto
    moreover have "set misses \<subseteq> set (e # es)" "distinct (map f (e # es)) \<longrightarrow> distinct (map f misses)"
      using IH unfolding eq by auto
    ultimately show ?thesis by blast
  qed
qed simp

lemma store_results_Cons:
  assumes "store_results V (e # es) res rn = Done rn'"
  obtains x rest rn1 where "res = Some x # rest" "store_results V es rest rn1 = Done rn'"
    "run_frame {el_Index e} rn rn1" "filled {el_Index e} rn1"
proof -
  obtain x rest where res: "res = Some x # rest"
    using assms by (cases res; cases "hd res") (simp_all add: Let_def)
  let ?rn = "rn\<lparr>rn_responses := (rn_responses rn)[el_Index e := Some x]\<rparr>"
  show thesis
  proof (cases "rs_Error x = None \<and> rs_Result x \<noteq> None")
    case True
    let ?p = "RPCCache_PutRPC (se_E V) (se_C V) (el_Req e) x (sv_cache (rn_s rn)) (rn_rd rn)"
    from assms True have "obind ?p (\<lambda>(c, rd, err). store_results V es rest
        (?rn\<lparr>rn_s := (rn_s rn)\<lparr>sv_cache := c\<rparr>, rn_rd := rd\<rparr>)) = Done rn'"
      by (simp add: res Let_def)
    then obtain c rd where s: "store_results V es rest (?rn\<lparr>rn_s := (rn_s rn)\<lparr>sv_cache := c\<rparr>, rn_rd := rd\<rparr>) = Done rn'"
      by auto
    show thesis
      by (rule that [OF res s]) (use run_frame_set(2) [where j = "el_Index e" and rn = rn and c = c and rd = rd and r = x] in \<open>simp_all add: filled_def\<close>)
  next
    case False
    with assms have s: "store_results V es rest ?rn = Done rn'"
      by (cases "rs_Error x"; cases "rs_Result x") (simp_all add: res Let_def)
    show thesis by (rule that [OF res s run_frame_set(3)]) (simp add: filled_def)
  qed
qed

lemma store_results_result:
  assumes "store_results V es res rn = Done rn'"
  shows "run_frame (el_Index ` set es) rn rn' \<and> filled (el_Index ` set es) rn'"
  using assms
proof (induction es arbitrary: res rn)
  case (Cons e es)
  from Cons.prems obtain x rest rn1 where s: "store_results V es rest rn1 = Done rn'"
      and fr: "run_frame {el_Index e} rn rn1" and fl: "filled {el_Index e} rn1"
    by (rule store_results_Cons)
  note IH = Cons.IH [OF s]
  have "run_frame (el_Index ` set (e # es)) rn rn'" by (rule run_frame_trans [OF fr conjunct1 [OF IH]]) auto
  moreover from filled_insertI [OF filled_frame [OF fl conjunct1 [OF IH]] conjunct2 [OF IH]]
  have "filled (el_Index ` set (e # es)) rn'" by simp
  ultimately show ?case by blast
qed simp

lemma merge_reqs_length [simp]: "length (merge_reqs i here reqs fwd) = length reqs"
  by (induction i here reqs fwd rule: merge_reqs.induct) (auto split: list.split)

lemma group_Forward_length:
  assumes "group_Forward E S arrival ctx bg reqs isBatch w = Done (w', reqs', resp)"
  shows "length reqs' = length reqs"
proof (cases "reqs = []")
  case True
  with assms show ?thesis by (simp add: group_Forward_def)
next
  case False
  obtain w1 backends where ord: "orderedBackendsForRequest E S bg w = (w1, backends)" by fastforce
  let ?over = "case Consensus bg of None \<Rightarrow> Done (reqs, reqs, []) | Some cp \<Rightarrow> OverwriteConsensusResponses E cp reqs"
  from assms False ord obtain allr fwd ovs where o: "?over = Done (allr, fwd, ovs)"
    by (auto simp: group_Forward_def)
  have "length allr = length reqs"
  proof (cases "Consensus bg")
    case (Some cp)
    with o obtain rctx where "overwrite_reqs E rctx 0 reqs = Done (allr, fwd, ovs)"
      by (auto simp: OverwriteConsensusResponses_def)
    from overwrite_IDs [OF this] show ?thesis by (metis length_map)
  qed (use o in simp)
  with assms False ord o show ?thesis
    by (auto simp: group_Forward_def Let_def split: if_splits)
qed

lemma forward_minibatches_result:
  assumes "forward_minibatches V ctx deadline isBatch grp mbs rn = Done (rn', err)"
  shows "run_frame (el_Index ` set (concat mbs)) rn rn' \<and> (err = None \<longrightarrow> filled (el_Index ` set (concat mbs)) rn')"
  using assms
proof (induction mbs arbitrary: rn)
  case (Cons elems rest)
  show ?case
  proof (cases "deadline \<le> net_clock (se_E V) (w_net (rn_w rn))")
    case True
    with Cons.prems show ?thesis by auto
  next
    case False
    with Cons.prems obtain bg where bg: "map_of (sv_BackendGroups (rn_s rn)) grp = Some bg" by (auto split: option.splits)
    from False bg Cons.prems obtain w reqs resp where f: "group_Forward (se_E V) (se_shuffle V) (se_arrival V) (req_ctx_of ctx) bg
        (createBatchRequest elems) isBatch (rn_w rn) = Done (w, reqs, resp)"
      by auto
    let ?elems = "map2 (\<lambda>e req. e\<lparr>el_Req := req\<rparr>) elems reqs"
    let ?rn = "rn\<lparr>rn_w := w, rn_servedBy := List.insert (br_ServedBy resp) (rn_servedBy rn)\<rparr>"
    have "length reqs = length elems" using group_Forward_length [OF f] by (simp add: createBatchRequest_def)
    then have idx: "el_Index ` set ?elems = el_Index ` set elems"
      by (induction elems reqs rule: list_induct2') auto
    let ?res = "case br_error resp of Some err \<Rightarrow> map (\<lambda>e. Some (NewRPCErrorRes (se_G V) (rq_ID (el_Req e)) err)) ?elems
      | None \<Rightarrow> br_RPCRes resp"
    show ?thesis
    proof (cases "\<exists>e. br_error resp = Some e \<and> receipts_error e")
      case True
      then obtain e where e: "br_error resp = Some e" "receipts_error e" by blast
      with Cons.prems False bg f have "rn' = ?rn" "err = Some e" by (simp_all add: Let_def)
      then show ?thesis using run_frame_mono [OF run_frame_set(5)] by auto
    next
      case nr: False
      with Cons.prems False bg f obtain rn2 where st: "store_results V ?elems ?res ?rn = Done rn2"
        and fw: "forward_minibatches V ctx deadline isBatch grp rest rn2 = Done (rn', err)"
        by (cases "br_error resp") (auto simp: Let_def)
      note s = store_results_result [OF st, unfolded idx] and IH = Cons.IH [OF fw]
      have "run_frame (el_Index ` set elems) rn rn2"
        using s by (blast intro: run_frame_trans [OF run_frame_set(5)])
      with IH have "run_frame (el_Index ` set (concat (elems # rest))) rn rn'"
        by (auto intro: run_frame_trans)
      moreover have "filled (el_Index ` set elems) rn'" using s IH by (blast intro: filled_frame)
      ultimately show ?thesis using IH by (auto simp: image_Un filled_Un)
    qed
  qed
qed simp

lemma process_batches_result:
  assumes "process_batches V ctx deadline isBatch bs rn = Done (rn', err)"
  shows "run_frame (el_Index ` set (queued bs)) rn rn' \<and>
    (0 < sv_maxUpstreamBatchSize (rn_s rn) \<longrightarrow> err = None \<longrightarrow> filled (el_Index ` set (queued bs)) rn')"
  using assms
proof (induction bs arbitrary: rn)
  case (Cons b bs)
  obtain gid grp batch where b: "b = ((gid, grp), batch)" by (metis prod_cases3 prod.collapse)
  obtain rn1 misses where c: "cache_misses V batch rn = (rn1, misses)" by fastforce
  note cm = cache_misses_result [OF c, of el_Index]
  have mx: "sv_maxUpstreamBatchSize (rn_s rn1) = sv_maxUpstreamBatchSize (rn_s rn)"
    using cm same_server_fields(3) [of "rn_s rn" "rn_s rn1"] by (simp add: run_frame_def)
  let ?mbs = "minibatches (sv_maxUpstreamBatchSize (rn_s rn1)) misses"
  from Cons.prems b c obtain rn2 e2 where f: "forward_minibatches V ctx deadline isBatch grp ?mbs rn1 = Done (rn2, e2)"
    by auto
  have cc: "concat ?mbs = misses" if "0 < sv_maxUpstreamBatchSize (rn_s rn)"
    using that mx by (simp add: minibatches_chunks concat_chunks)
  have sub: "set (concat ?mbs) \<subseteq> set batch"
  proof (cases "0 < sv_maxUpstreamBatchSize (rn_s rn)")
    case True
    with cc cm show ?thesis by simp
  next
    case False
    then have "?mbs = []" by (intro minibatches_nonpos) (simp add: mx)
    then show ?thesis by simp
  qed
  note fm = forward_minibatches_result [OF f]
  have fr: "run_frame (el_Index ` set batch) rn rn2"
    by (rule run_frame_trans [OF conjunct1 [OF cm] conjunct1 [OF fm]]) (use sub in auto)
  show ?case
  proof (cases e2)
    case (Some e)
    with Cons.prems b c f have "rn' = rn2" "err \<noteq> None" by auto
    with fr show ?thesis by (auto simp: b queued_def intro: run_frame_mono)
  next
    case None
    with Cons.prems b c f have p: "process_batches V ctx deadline isBatch bs rn2 = Done (rn', err)" by auto
    have mx2: "sv_maxUpstreamBatchSize (rn_s rn2) = sv_maxUpstreamBatchSize (rn_s rn)"
      using fr same_server_fields(3) [of "rn_s rn" "rn_s rn2"] by (simp add: run_frame_def)
    note IH = Cons.IH [OF p, unfolded mx2]
    have all: "run_frame (el_Index ` set (queued (b # bs))) rn rn'"
      by (rule run_frame_trans [OF fr conjunct1 [OF IH]]) (auto simp: b queued_def)
    have "filled (el_Index ` set (queued (b # bs))) rn'" if pos: "0 < sv_maxUpstreamBatchSize (rn_s rn)" and "err = None"
    proof -
      have "filled (el_Index ` (set batch - set misses)) rn2"
        by (rule filled_frame [OF conjunct1 [OF conjunct2 [OF cm]] conjunct1 [OF fm]])
      moreover have "filled (el_Index ` set misses) rn2" using fm None cc [OF pos] by simp
      ultimately have "filled (el_Index ` set batch) rn2" by (auto simp: filled_def)
      from filled_frame [OF this conjunct1 [OF IH]] IH that show ?thesis by (simp add: b queued_def image_Un filled_Un)
    qed
    with all show ?thesis by blast
  qed
qed (simp add: queued_def)

lemma handleBatchRPC_server:
  assumes "handleBatchRPC V ctx deadline cl reqs isBatch (s, w, rd) = Done ((s', w', rd'), res)"
  shows "same_server s s'"
proof -
  let ?t = "triage_all (se_SV V) (se_G V) (net_clock (se_E V) (w_net w)) cl (length reqs) 0 reqs (bs_init (length reqs)) s rd"
  obtain s1 rd1 v where t: "?t = (s1, rd1, v)" by (cases ?t)
  note T = conjunct1 [OF triage_all_result [of "se_SV V" "se_G V" _ cl reqs 0, unfolded drop_0, OF t same_server_refl batch_inv_init]]
  show ?thesis
  proof (cases v)
    case (Inl r)
    with assms t have "s' = s1" by (simp add: handleBatchRPC_def)
    with T show ?thesis by simp
  next
    case (Inr bs)
    from assms t Inr obtain rn' err where p: "process_batches V ctx deadline isBatch (se_ord V (bs_batches bs))
        \<lparr>rn_s = s1, rn_w = w, rn_rd = rd1, rn_responses = bs_responses bs, rn_servedBy = [], rn_cached = False\<rparr> = Done (rn', err)"
      and s': "s' = rn_s rn'"
      by (auto simp: handleBatchRPC_def)
    from process_batches_result [OF p] have "same_server s1 s'" by (simp add: run_frame_def s')
    with T show ?thesis by (blast intro: same_server_trans)
  qed
qed

section \<open>Handling a request\<close>

definition sent :: "ResponseWriter \<Rightarrow> bool" where
  "sent w \<longleftrightarrow> rw_Status w \<noteq> None"

lemma sent_WriteHeader [simp]: "sent (WriteHeader c w)"
  by (simp add: sent_def WriteHeader_def split: option.split)

lemma sent_Encode_to: "sent w \<Longrightarrow> sent (Encode_to enc w)"
  by (auto simp: sent_def Encode_to_def recordLenWriter_Write_def rw_Write_def WriteHeader_def Let_def split: option.splits)

lemma sent_writeRPCRes: "writeRPCRes hexs G res w = Done w' \<Longrightarrow> sent w'"
  by (auto simp: writeRPCRes_def Let_def intro: sent_Encode_to split: option.splits)

lemma sent_writeRPCError: "writeRPCError hexs G i err w = Done w' \<Longrightarrow> sent w'"
  unfolding writeRPCError_def Let_def by (rule sent_writeRPCRes)

lemma sent_writeBatchRPCRes: "sent (writeBatchRPCRes hexs G res w)"
  by (simp add: writeBatchRPCRes_def Let_def sent_Encode_to)

lemma populateContext_cases:
  assumes "populateContext s rnd r w = (w', c)"
  shows "c = None \<and> w' = WriteHeader 401 w \<or> c \<noteq> None \<and> w' = w"
  using assms by (auto simp: populateContext_def Let_def split: if_splits)

text \<open>Authorization as configured: without authenticated paths everybody may enter.\<close>

definition authorized :: "('h, 'l) Server \<Rightarrow> http_in \<Rightarrow> bool" where
  "authorized s r \<longleftrightarrow> sv_authenticatedPaths s = [] \<or>
     hi_authorization r \<noteq> [] \<and> map_of (sv_authenticatedPaths s) (hi_authorization r) \<notin> {None, Some []}"

lemma populateContext_authorized: "snd (populateContext s rnd r w) = None \<longleftrightarrow> \<not> authorized s r"
  by (auto simp: populateContext_def authorized_def Let_def)

lemma HandleRPC_cases:
  assumes "HandleRPC V rnd r (s, w, rd) = Done (st', rw)"
  obtains (unauthorized) "\<not> authorized s r" "st' = (s, w, rd)" "rw = WriteHeader 401 fresh_writer"
  | (rejected) "authorized s r" "st' = (s, w, rd)" "sent rw"
  | (processed) ctx deadline cl reqs isBatch res where "authorized s r" "sent rw"
      "snd (read_limited (hi_Body r) (sv_maxBodySize s)) = None"
      "handleBatchRPC V ctx deadline cl reqs isBatch (s, w, rd) = Done (st', res)"
      "isBatch \<Longrightarrow> reqs \<noteq> [] \<and> int (length reqs) \<le> sv_maxBatchSize s"
proof (cases "populateContext s rnd r fresh_writer")
  case (Pair rw0 c)
  show thesis
  proof (cases c)
    case None
    with Pair populateContext_cases [OF Pair] assms populateContext_authorized [of s rnd r fresh_writer] show thesis
      by (intro unauthorized) (auto simp: HandleRPC_def)
  next
    case (Some ctx)
    have auth: "authorized s r" using Pair Some populateContext_authorized [of s rnd r fresh_writer] by auto
    obtain body rerr where rd: "read_limited (hi_Body r) (sv_maxBodySize s) = (body, rerr)" by fastforce
    let ?E = "se_E V" and ?G = "se_G V"
    let ?err = "\<lambda>st e. obind (writeRPCError (hex_String ?E) ?G [] e rw0) (\<lambda>rw. Done (st, rw))"
    have E: thesis if "?err (s, w, rd) e = Done (st', rw)" for e
      using that by (intro rejected auth) (auto dest: sent_writeRPCError)
    have E2: "st' = st \<and> sent rw" if "?err st e = Done (st', rw)" for st e
      using that by (auto dest: sent_writeRPCError)
    let ?dl = "net_clock ?E (w_net w) + sv_timeout s"
    let ?xff = "stripXFF (GetXForwardedFor ctx)"
    let ?cl = "\<lparr>cl_unlimitedOrigin = isUnlimitedOrigin s (header_Get ''Origin'' (hi_Header r)),
        cl_unlimitedUserAgent = isUnlimitedUserAgent s (header_Get ''User-Agent'' (hi_Header r)), cl_xff = ?xff\<rparr>"
    note H = assms [unfolded HandleRPC_def prod.case Pair Some option.case Let_def rd]
    show thesis
    proof (cases "?xff = [] \<or> errors_Is rerr (Std ErrLimitReaderOverLimit) \<or> rerr \<noteq> None")
      case True
      with H show thesis by (auto split: if_splits intro: E)
    next
      case False
      then have f: "(?xff = []) = False" "errors_Is rerr (Std ErrLimitReaderOverLimit) = False" "(rerr \<noteq> None) = False" by auto
      have rn: "snd (read_limited (hi_Body r) (sv_maxBodySize s)) = None" using rd f(3) by simp
      note H = H [unfolded f if_False]
      from H obtain x where "(if sv_enableRequestLog s then truncate_str body (sv_maxRequestBodyLogLen s) else Done []) = Done x"
        by auto
      note H = H [unfolded this obind.simps]
      show thesis
      proof (cases "IsBatch body")
        case True
        then have "IsBatch body = True" by simp
        note H = H [unfolded this if_True]
        show thesis
        proof (cases "ParseBatchRPCReq body")
          case None
          with H show thesis by (intro E [of "RPCE (Global ErrParseErr)"]) simp
        next
          case (Some reqs)
          show thesis
          proof (cases "int (length reqs) > sv_maxBatchSize s \<or> length reqs = 0")
            case True
            with H Some show thesis by (auto split: if_splits intro: E)
          next
            case False
            then have g: "(int (length reqs) > sv_maxBatchSize s) = False" "(length reqs = 0) = False" by auto
            note H = H [unfolded Some option.case g if_False]
            from H obtain st1 res where h: "handleBatchRPC V ctx ?dl ?cl reqs True (s, w, rd) = Done (st1, res)" by auto
            have "st' = st1 \<and> sent rw"
              using H [unfolded h obind.simps prod.case] E2
              by (cases res) (auto simp: sent_writeBatchRPCRes split: if_splits)
            with auth rn h g show thesis by (intro processed [of ctx ?dl ?cl reqs True res]) auto
          qed
        qed
      next
        case nb: False
        then have "IsBatch body = False" by simp
        note H = H [unfolded this if_False]
        from H obtain st1 res where h: "handleBatchRPC V ctx ?dl ?cl [body] False (s, w, rd) = Done (st1, res)" by auto
        have "st' = st1 \<and> sent rw"
          using H [unfolded h obind.simps prod.case] E2
          by (cases res) (auto split: if_splits list.splits dest: sent_writeRPCRes)
        with auth rn h show thesis by (intro processed [of ctx ?dl ?cl "[body]" False res]) auto
      qed
    qed
  qed
qed

section \<open>Well-formed servers\<close>

definition server_ok :: "('h, 'l) Server \<Rightarrow> bool" where
  "server_ok s \<longleftrightarrow> sv_maxBodySize s \<noteq> 0 \<and> sv_timeout s \<noteq> 0 \<and> sv_maxUpstreamBatchSize s \<noteq> 0 \<and>
     sv_maxBatchSize s \<noteq> 0 \<and> sv_maxBatchSize s \<le> MaxBatchRPCCallsHardLimit \<and> sv_rateLimitHeader s \<noteq> [] \<and>
     {m. sv_globallyLimitedMethods s m} \<subseteq> dom (sv_overrideLims s)"

lemma server_ok_cong: "same_server s s' \<Longrightarrow> server_ok s' = server_ok s"
  by (simp add: server_ok_def same_server_fields)

lemma NewServer_fields:
  assumes "NewServer SV groups wsGroup whitelist mappings bodySize paths timeout upstream servedBy cache rl srl reqLog logLen batch factory = Inr s"
  shows "sv_maxBodySize s = (if bodySize = 0 then defaultBodySizeLimit else bodySize)"
    "sv_timeout s = (if timeout = 0 then defaultRPCTimeout else timeout)"
    "sv_maxUpstreamBatchSize s = (if upstream = 0 then defaultMaxUpstreamBatchSize else upstream)"
    "sv_maxBatchSize s = min (if batch = 0 then DefaultMaxBatchRPCCallsLimit else batch) MaxBatchRPCCallsHardLimit"
    "sv_rateLimitHeader s = (if rlc_IPHeaderOverride rl \<noteq> [] then rlc_IPHeaderOverride rl else defaultRateLimitHeader)"
    "{m. sv_globallyLimitedMethods s m} \<subseteq> dom (sv_overrideLims s)"
    "sv_BackendGroups s = groups" "sv_rpcMethodMappings s = mappings"
proof -
  obtain lims where "(if rlc_BaseRate rl > 0 then
        (case compile_patterns (sl_regexp SV) (rlc_ExemptOrigins rl) of
           Inl err \<Rightarrow> Inl err
         | Inr origins \<Rightarrow>
             (case compile_patterns (sl_regexp SV) (rlc_ExemptUserAgents rl) of
                Inl err \<Rightarrow> Inl err
              | Inr agents \<Rightarrow> Inr (factory (rlc_BaseInterval rl) (rlc_BaseRate rl) ''main'', origins, agents)))
      else Inr (NoopFrontendRateLimiter, [], [])) = lims" by blast
  note N = assms [unfolded NewServer_def Let_def this]
  obtain ml ors ags where "lims = Inr (ml, ors, ags)" using N by (cases lims) auto
  note N = N [unfolded this sum.case prod.case sum.inject, symmetric]
  show "sv_maxBodySize s = (if bodySize = 0 then defaultBodySizeLimit else bodySize)"
    "sv_timeout s = (if timeout = 0 then defaultRPCTimeout else timeout)"
    "sv_maxUpstreamBatchSize s = (if upstream = 0 then defaultMaxUpstreamBatchSize else upstream)"
    "sv_maxBatchSize s = min (if batch = 0 then DefaultMaxBatchRPCCallsLimit else batch) MaxBatchRPCCallsHardLimit"
    "sv_rateLimitHeader s = (if rlc_IPHeaderOverride rl \<noteq> [] then rlc_IPHeaderOverride rl else defaultRateLimitHeader)"
    "{m. sv_globallyLimitedMethods s m} \<subseteq> dom (sv_overrideLims s)"
    "sv_BackendGroups s = groups" "sv_rpcMethodMappings s = mappings"
    by (auto simp: N split: option.splits)
qed

lemma NewServer_ok:
  assumes "NewServer SV groups wsGroup whitelist mappings bodySize paths timeout upstream servedBy cache rl srl reqLog logLen batch factory = Inr s"
  shows "server_ok s"
    and "0 \<le> upstream \<Longrightarrow> 0 < sv_maxUpstreamBatchSize s" and "0 \<le> batch \<Longrightarrow> 0 < sv_maxBatchSize s"
  using NewServer_fields(6) [OF assms]
  by (simp_all add: server_ok_def NewServer_fields(1-5) [OF assms] defaultBodySizeLimit_def defaultRPCTimeout_def
      defaultMaxUpstreamBatchSize_def DefaultMaxBatchRPCCallsLimit_def MaxBatchRPCCallsHardLimit_def defaultRateLimitHeader_def min_def)

section \<open>A server for evaluation\<close>

definition demo_server :: "(script, (string \<times> string) list) Server" where
  "demo_server = \<lparr>sv_BackendGroups = [(''main'', demo_group)], sv_wsBackendGroup = None, sv_wsMethodWhitelist = NewStringSet,
     sv_rpcMethodMappings = [''eth_blockNumber'' \<mapsto> ''main''], sv_maxBodySize = 1000, sv_enableRequestLog = False,
     sv_maxRequestBodyLogLen = 0, sv_authenticatedPaths = [], sv_timeout = Second, sv_maxUpstreamBatchSize = 10,
     sv_maxBatchSize = 100, sv_enableServedByHeader = False, sv_mainLim = NoopFrontendRateLimiter,
     sv_overrideLims = (\<lambda>_. None), sv_senderLim = None, sv_allowedChainIds = [], sv_limExemptOrigins = [],
     sv_limExemptUserAgents = [], sv_globallyLimitedMethods = (\<lambda>_. False), sv_rpcServer = None, sv_wsServer = None,
     sv_cache = NoopRPCCache, sv_rateLimitHeader = defaultRateLimitHeader\<rparr>"

definition demo_libs :: "((string \<times> string) list, unit) srv_lib" where
  "demo_libs = \<lparr>sl_redis_incr = (\<lambda>key ttl now rd. (rd, Inr 1)), sl_regexp = (\<lambda>pat. Inr (\<lambda>t. t = pat)),
     sl_hex_Bytes = Inr, sl_tx_Unmarshal = (\<lambda>_. Inr ()), sl_ChainId = (\<lambda>_. 10), sl_Nonce = (\<lambda>_. 0),
     sl_Sender = (\<lambda>_ _. Inr ''0xab''), sl_ErrInvalidSender = ''invalid sender''\<rparr>"

definition demo_env :: "((time \<times> bucket) list, script, (string \<times> string) list, (string \<times> string) list, unit) srv_env" where
  "demo_env = \<lparr>se_E = scripted, se_shuffle = keep_order, se_arrival = (\<lambda>bes. bes), se_C = alist_cache_lib,
     se_SV = demo_libs, se_G = global_errs, se_ord = (\<lambda>bs. bs), se_sord = (\<lambda>sbs. sbs)\<rparr>"

abbreviation (input) demo_client :: client where
  "demo_client \<equiv> \<lparr>cl_unlimitedOrigin = False, cl_unlimitedUserAgent = False, cl_xff = ''1''\<rparr>"

abbreviation (input) demo_ctx_values :: context_values where
  "demo_ctx_values \<equiv> \<lparr>cv_Auth = None, cv_ReqID = None, cv_XForwardedFor = Some ''1'', cv_OpTxProxyAuth = None\<rparr>"

definition demo_raw :: "bytes list" where
  "demo_raw = [''{\"jsonrpc\":\"2.0\",\"method\":\"eth_blockNumber\",\"id\":1}'', ''{\"jsonrpc\":\"2.0\",\"method\":\"m\",\"id\":1}'']"

lemma demo_parse:
  "ParseRPCReq ''{\"jsonrpc\":\"2.0\",\"method\":\"eth_blockNumber\",\"id\":1}'' =
     Inr \<lparr>rq_JSONRPC = ''2.0'', rq_Method = ''eth_blockNumber'', rq_Params = [], rq_ID = ''1''\<rparr>"
  "ParseRPCReq ''{\"jsonrpc\":\"2.0\",\"method\":\"m\",\"id\":1}'' =
     Inr \<lparr>rq_JSONRPC = ''2.0'', rq_Method = ''m'', rq_Params = [], rq_ID = ''1''\<rparr>"
  by code_simp+

lemma demo_triage:
  "triage_all demo_libs global_errs now demo_client (length demo_raw) 0 demo_raw (bs_init (length demo_raw)) demo_server rd =
     (demo_server, rd, Inr \<lparr>bs_responses = [None, Some (NewRPCErrorRes global_errs ''1'' (RPCE (Global ErrMethodNotWhitelisted)))],
        bs_batches = [((1, ''main''), [\<lparr>el_Req = block_number_req, el_Index = 0\<rparr>])], bs_ids = (\<lambda>_. 0)(''1'' := 1)\<rparr>)"
proof -
  have v: "ValidateRPCReq \<lparr>rq_JSONRPC = ''2.0'', rq_Method = m, rq_Params = [], rq_ID = ''1''\<rparr> = None" if "m \<noteq> []" for m
    using that by (simp add: ValidateRPCReq_def JSONRPCVersion_def IsValidID_def strings_HasPrefix_def)
  have t1: "triage demo_libs global_errs now demo_client 2 (demo_raw ! 0) demo_server rd =
      (demo_server, rd, Queue block_number_req ''main'')"
    by (simp add: triage_def demo_raw_def demo_parse v demo_server_def isLimited_def isGlobalLimit_def Let_def)
  have t2: "triage demo_libs global_errs now demo_client 2 (demo_raw ! 1) demo_server rd =
      (demo_server, rd, Respond (NewRPCErrorRes global_errs ''1'' (RPCE (Global ErrMethodNotWhitelisted))))"
    by (simp add: triage_def demo_raw_def demo_parse v demo_server_def)
  define a b where "a = demo_raw ! 0" and "b = demo_raw ! 1"
  have d: "demo_raw = [a, b]" by (simp add: a_def b_def demo_raw_def)
  show ?thesis
    using t1 [folded a_def] t2 [folded b_def] unfolding d by (simp add: numeral_2_eq_2 bs_init_def bs_add_def)
qed

lemma demo_group_local:
  "\<exists>w'. group_Forward scripted keep_order (\<lambda>bes. bes) ctx demo_group [block_number_req] isBatch demo_world =
     Done (w', [block_number_req],
       \<lparr>br_RPCRes = [Some \<lparr>rs_JSONRPC = JSONRPCVersion, rs_Result = Some (ResUint64 0), rs_Error = None, rs_ID = ''1''\<rparr>],
         br_ServedBy = ''main/a'', br_error = None\<rparr>)"
proof -
  obtain w where w: "orderedBackendsForRequest scripted keep_order demo_group demo_world = (w, [0])"
      "same_world demo_world w" "w_net w = w_net demo_world"
    using demo_order by blast
  have "same_config new_backend (w_be w 0)" using w(2) by (simp add: same_world_def demo_world_def)
  from same_config_fields(7) [OF this] have n: "Name (w_be w 0) = ''a''" by (simp add: NewBackend_def Override_def)
  have o: "overwrite_reqs scripted rctx 0 [block_number_req] =
      Done ([block_number_req], [], [\<lparr>ir_index = 0, ir_req = block_number_req, ir_res = Some \<lparr>rs_JSONRPC = JSONRPCVersion,
            rs_Result = Some (ResUint64 (latest rctx)), rs_Error = None, rs_ID = ''1''\<rparr>\<rparr>])" for rctx
    by (simp add: RewriteTags_def RewriteResponse_def)
  have c: "bg_Name demo_group = ''main''" "\<not> isValidMulticallTx []"
    by (simp_all add: demo_group_def lone_group_def isValidMulticallTx_def)
  show ?thesis
    by (simp add: group_Forward_def w(1) c demo_group_consensus OverwriteConsensusResponses_def demo_rctx o n Let_def
        del: overwrite_reqs.simps)
qed

lemma demo_batch:
  "\<exists>st'. handleBatchRPC demo_env demo_ctx_values Second demo_client demo_raw True (demo_server, demo_world, []) =
     Done (st', Inr ([Some \<lparr>rs_JSONRPC = JSONRPCVersion, rs_Result = Some (ResUint64 0), rs_Error = None, rs_ID = ''1''\<rparr>,
       Some (NewRPCErrorRes global_errs ''1'' (RPCE (Global ErrMethodNotWhitelisted)))], False, ''main/a''))"
proof -
  obtain w' where g: "group_Forward scripted keep_order (\<lambda>bes. bes) (req_ctx_of demo_ctx_values) demo_group [block_number_req] True demo_world =
     Done (w', [block_number_req],
       \<lparr>br_RPCRes = [Some \<lparr>rs_JSONRPC = JSONRPCVersion, rs_Result = Some (ResUint64 0), rs_Error = None, rs_ID = ''1''\<rparr>],
         br_ServedBy = ''main/a'', br_error = None\<rparr>)"
    using demo_group_local by blast
  have m: "minibatches 10 [e] = [[e]]" for e :: batchElem
    using minibatches_step [of 10 "[e]"] by simp
  have sv: "sv_cache demo_server = NoopRPCCache" "map_of (sv_BackendGroups demo_server) ''main'' = Some demo_group"
      "sv_maxUpstreamBatchSize demo_server = 10" "demo_server\<lparr>sv_cache := NoopRPCCache\<rparr> = demo_server"
    by (simp_all add: demo_server_def)
  have ve: "se_E demo_env = scripted" "se_shuffle demo_env = keep_order" "se_arrival demo_env = (\<lambda>bes. bes)"
      "se_SV demo_env = demo_libs" "se_G demo_env = global_errs" "se_ord demo_env = (\<lambda>bs. bs)" "se_sord demo_env = (\<lambda>sbs. sbs)"
    by (simp_all add: demo_env_def)
  have clk: "sc_now (w_net demo_world) = 0" by (simp add: demo_world_def quiet_def)
  show ?thesis
    by (simp add: handleBatchRPC_def ve demo_triage clk RPCCache_GetRPC_def RPCCache_PutRPC_def sv m createBatchRequest_def g
        servedByString_def Let_def)
qed

section \<open>Properties\<close>

text \<open>
  C1: every request of a call is answered at its own position. When a call succeeds there is one
  response for each request, none of them nil, in whatever order the batches are processed; and a
  request that must not reach a backend (malformed, or of a method that is not mapped to a group)
  gets exactly its refusal.
\<close>

theorem batch_answers_every_request:
  assumes run: "handleBatchRPC V ctx deadline cl reqs isBatch (s, w, rd) = Done (st', Inr (res, cached, servedBy))"
    and mx: "0 < sv_maxUpstreamBatchSize s" and ord: "\<And>bs. mset (se_ord V bs) = mset bs"
  shows "length res = length reqs \<and> None \<notin> set res \<and>
    (\<forall>i < length reqs. \<forall>r. refused (se_G V) s (length reqs) (reqs ! i) = Some r \<longrightarrow> res ! i = Some r)"
proof -
  let ?t = "triage_all (se_SV V) (se_G V) (net_clock (se_E V) (w_net w)) cl (length reqs) 0 reqs (bs_init (length reqs)) s rd"
  obtain s1 rd1 v where t: "?t = (s1, rd1, v)" by (cases ?t)
  note T = triage_all_result [of "se_SV V" "se_G V" _ cl reqs 0, unfolded drop_0, OF t same_server_refl batch_inv_init]
  show ?thesis
  proof (cases v)
    case (Inl r)
    with run t have "res = [Some r]" by (simp add: handleBatchRPC_def)
    moreover from T [unfolded Inl sum.case]
    have n: "length reqs = 1" and r: "refused (se_G V) s (length reqs) (reqs ! 0) = Some r" by blast+
    ultimately show ?thesis using r [unfolded n] by (simp add: n)
  next
    case (Inr bs)
    note T = T [unfolded Inr sum.case]
    let ?rn = "\<lparr>rn_s = s1, rn_w = w, rn_rd = rd1, rn_responses = bs_responses bs, rn_servedBy = [], rn_cached = False\<rparr>"
    from run t Inr obtain rn' where p: "process_batches V ctx deadline isBatch (se_ord V (bs_batches bs)) ?rn = Done (rn', None)"
      and res: "res = rn_responses rn'"
      by (auto simp: handleBatchRPC_def split: option.splits)
    have "0 < sv_maxUpstreamBatchSize (rn_s ?rn)" using T mx same_server_fields(3) [of s s1] by simp
    with process_batches_result [OF p]
    have P: "run_frame (el_Index ` set (queued (se_ord V (bs_batches bs)))) ?rn rn' \<and>
        filled (el_Index ` set (queued (se_ord V (bs_batches bs)))) rn'" by blast
    have "set (se_ord V (bs_batches bs)) = set (bs_batches bs)" using ord by (metis set_mset_mset)
    then have q: "set (queued (se_ord V (bs_batches bs))) = set (queued (bs_batches bs))" by (simp add: queued_def)
    have inv: "batch_inv (se_G V) s reqs (length reqs) bs" using T by simp
    have len: "length res = length reqs" using P inv by (simp add: res run_frame_def batch_inv_def)
    have "res ! j \<noteq> None" if j: "j < length reqs" for j
    proof (cases "j \<in> el_Index ` set (queued (bs_batches bs))")
      case True
      with P q len j show ?thesis by (auto simp: filled_def res)
    next
      case False
      with inv j have "bs_responses bs ! j \<noteq> None" by (auto simp: batch_inv_def)
      with P inv j show ?thesis by (auto simp: run_frame_def res batch_inv_def)
    qed
    then have "None \<notin> set res" using len by (metis in_set_conv_nth)
    moreover have "res ! i = Some r" if "i < length reqs" "refused (se_G V) s (length reqs) (reqs ! i) = Some r" for i r
    proof -
      have "i \<notin> el_Index ` set (queued (bs_batches bs))" using inv that by (auto simp: batch_inv_def)
      then have "res ! i = bs_responses bs ! i" using P q by (simp add: run_frame_def res)
      with inv that show ?thesis by (simp add: batch_inv_def)
    qed
    ultimately show ?thesis using len by blast
  qed
qed

text \<open>
  C38: what is forwarded in one piece is well-formed. A minibatch is not empty and not larger than the
  configured size, its requests are valid and have different IDs (so that responses can be matched to
  requests), and all their methods are mapped to the backend group that receives it.
\<close>

theorem minibatch_wellformed:
  assumes "triage_all SV G now cl (length reqs) 0 reqs (bs_init (length reqs)) s rd = (s', rd', Inr bs)"
    and "((k, grp), es) \<in> set (bs_batches bs)" and "cache_misses V es rn = (rn', misses)"
    and "0 < sv_maxUpstreamBatchSize s" and "mb \<in> set (minibatches (sv_maxUpstreamBatchSize s) misses)"
  shows "mb \<noteq> [] \<and> int (length mb) \<le> sv_maxUpstreamBatchSize s \<and> distinct (map rq_ID (createBatchRequest mb)) \<and>
    (\<forall>req \<in> set (createBatchRequest mb). ValidateRPCReq req = None \<and> grp \<noteq> [] \<and>
       (case sv_rpcMethodMappings s (rq_Method req) of None \<Rightarrow> [] | Some g \<Rightarrow> g) = grp)"
proof -
  from triage_all_result [of SV G now cl reqs 0, unfolded drop_0, OF assms(1) same_server_refl batch_inv_init]
  have "batch_inv G s reqs (length reqs) bs" by simp
  with assms(2) have ok: "batch_ok s reqs (bs_ids bs) k grp es" by (simp add: batch_inv_def)
  note cm = cache_misses_result [OF assms(3), of "rq_ID \<circ> el_Req"]
  have mb: "mb \<in> set (chunks (nat (sv_maxUpstreamBatchSize s)) misses)" using assms(4,5) by (simp add: minibatches_chunks)
  from chunks_length [OF mb] have "mb \<noteq> [] \<and> int (length mb) \<le> sv_maxUpstreamBatchSize s" using assms(4) by auto
  moreover have "distinct (map (rq_ID \<circ> el_Req) mb)"
  proof -
    have "distinct (map (rq_ID \<circ> el_Req) (concat (chunks (nat (sv_maxUpstreamBatchSize s)) misses)))"
      using cm ok assms(4) by (simp add: concat_chunks batch_ok_def)
    with mb show ?thesis by (auto simp: map_concat distinct_concat_iff)
  qed
  moreover have "\<forall>e \<in> set mb. ValidateRPCReq (el_Req e) = None \<and> grp \<noteq> [] \<and> mapped_group s (rq_Method (el_Req e)) = grp"
    using chunks_subset [OF mb] cm ok by (auto simp: batch_ok_def)
  ultimately show ?thesis by (auto simp: createBatchRequest_def mapped_group_def)
qed



lemma batch_answers_every_request_witness:
  "\<exists>st' res. handleBatchRPC demo_env demo_ctx_values Second demo_client demo_raw True (demo_server, demo_world, []) =
     Done (st', Inr (res, False, ''main/a'')) \<and> length res = 2 \<and>
     res ! 1 = Some (NewRPCErrorRes global_errs ''1'' (RPCE (Global ErrMethodNotWhitelisted)))"
proof -
  obtain st' res where run: "handleBatchRPC demo_env demo_ctx_values Second demo_client demo_raw True (demo_server, demo_world, []) =
     Done (st', Inr (res, False, ''main/a''))"
    using demo_batch by blast
  have n: "length demo_raw = 2" by (simp add: demo_raw_def)
  have r: "refused (se_G demo_env) demo_server (length demo_raw) (demo_raw ! 1) =
      Some (NewRPCErrorRes global_errs ''1'' (RPCE (Global ErrMethodNotWhitelisted)))"
    by (simp add: refused_def n) (simp add: demo_raw_def demo_parse demo_server_def demo_env_def mapped_group_def ValidateRPCReq_def
        JSONRPCVersion_def IsValidID_def strings_HasPrefix_def)
  have "0 < sv_maxUpstreamBatchSize demo_server" "\<And>bs. mset (se_ord demo_env bs) = mset bs"
    by (simp_all add: demo_server_def demo_env_def)
  note b = batch_answers_every_request [OF run this]
  have "length res = 2" using b n by simp
  moreover have "res ! 1 = Some (NewRPCErrorRes global_errs ''1'' (RPCE (Global ErrMethodNotWhitelisted)))"
    using b r n by simp
  ultimately show ?thesis using run by blast
qed

lemma minibatch_wellformed_witness:
  "\<exists>rn' misses. cache_misses demo_env [\<lparr>el_Req = block_number_req, el_Index = 0\<rparr>]
       \<lparr>rn_s = demo_server, rn_w = demo_world, rn_rd = [], rn_responses = [None, None], rn_servedBy = [], rn_cached = False\<rparr> = (rn', misses) \<and>
     minibatches (sv_maxUpstreamBatchSize demo_server) misses = [[\<lparr>el_Req = block_number_req, el_Index = 0\<rparr>]] \<and>
     distinct (map rq_ID (createBatchRequest [\<lparr>el_Req = block_number_req, el_Index = 0\<rparr>])) \<and>
     sv_rpcMethodMappings demo_server ''eth_blockNumber'' = Some ''main''"
proof -
  let ?e = "\<lparr>el_Req = block_number_req, el_Index = 0\<rparr>"
  let ?rn = "\<lparr>rn_s = demo_server, rn_w = demo_world, rn_rd = [], rn_responses = [None, None], rn_servedBy = [], rn_cached = False\<rparr>"
  have c: "cache_misses demo_env [?e] ?rn = (?rn, [?e])" by (simp add: RPCCache_GetRPC_def demo_server_def)
  have m: "minibatches (sv_maxUpstreamBatchSize demo_server) [?e] = [[?e]]"
    using minibatches_step [of 10 "[?e]"] by (simp add: demo_server_def)
  have "0 < sv_maxUpstreamBatchSize demo_server" by (simp add: demo_server_def)
  from minibatch_wellformed [OF demo_triage _ c this, of 1 "''main''" "[?e]"] m
  have "distinct (map rq_ID (createBatchRequest [?e]))" by simp
  with c m show ?thesis by (simp add: demo_server_def)
qed

definition no_ip :: http_in where
  "no_ip = \<lparr>hi_Header = [], hi_RemoteAddr = [], hi_Body = [], hi_authorization = []\<rparr>"



end
