(* ===== verification/WS_Proxy.thy ===== *)
theory WS_Proxy
  imports Server
begin

text \<open>
  The WebSocket proxy (\<open>WSProxier\<close> of \<open>proxyd/backend.go\<close>, \<open>HandleWS\<close> of \<open>proxyd/server.go\<close>). Two
  goroutines pump messages between a client and a backend; \<open>ws_step\<close> interleaves them in any order.

  A connection (\<open>Conn\<close>) is the history of the calls made on it. What the WebSocket library answers is
  a parameter: \<open>wl_ReadMessage\<close>, \<open>wl_SetWriteDeadline\<close> and \<open>wl_WriteMessage\<close> give the result of the call with
  a given number on the connection to one side. A pump makes at most one write between two points at
  which the other can run; the mutexes of the connections make each write one action.
\<close>

section \<open>Connections\<close>

datatype side = ClientSide | BackendSide

datatype ws_err = CloseError int string | OtherErr error

record 'h ws_lib =
  wl_ReadMessage :: "side \<Rightarrow> nat \<Rightarrow> int \<times> bytes \<times> ws_err option"
  wl_SetWriteDeadline :: "side \<Rightarrow> nat \<Rightarrow> duration \<Rightarrow> error option"
  wl_WriteMessage :: "side \<Rightarrow> nat \<Rightarrow> int \<Rightarrow> bytes \<Rightarrow> error option"
  wl_FormatCloseMessage :: "int \<Rightarrow> string \<Rightarrow> bytes"
  wl_CloseError_Error :: "int \<Rightarrow> string \<Rightarrow> string"
  wl_Dial :: "string \<Rightarrow> 'h \<Rightarrow> 'h \<times> error option"
  wl_Upgrade :: "http_in \<Rightarrow> ResponseWriter \<Rightarrow> ResponseWriter \<times> error option"
  wl_hexs :: "uint64 \<Rightarrow> string"
  wl_fnum :: "string \<Rightarrow> string option"
  wl_json_err :: string

record Conn =
  cn_reads :: nat
  cn_deadlines :: nat
  cn_sent :: "(int \<times> bytes) list"
  cn_ReadLimit :: int
  cn_closed :: bool

definition new_Conn :: Conn where
  "new_Conn = \<lparr>cn_reads = 0, cn_deadlines = 0, cn_sent = [], cn_ReadLimit = 0, cn_closed = False\<rparr>"

definition ReadMessage :: "'h ws_lib \<Rightarrow> side \<Rightarrow> Conn \<Rightarrow> Conn \<times> int \<times> bytes \<times> ws_err option" where
  "ReadMessage L sd c = (c\<lparr>cn_reads := Suc (cn_reads c)\<rparr>, wl_ReadMessage L sd (cn_reads c))"

definition SetWriteDeadline :: "'h ws_lib \<Rightarrow> side \<Rightarrow> duration \<Rightarrow> Conn \<Rightarrow> Conn \<times> error option" where
  "SetWriteDeadline L sd d c = (c\<lparr>cn_deadlines := Suc (cn_deadlines c)\<rparr>, wl_SetWriteDeadline L sd (cn_deadlines c) d)"

definition WriteMessage :: "'h ws_lib \<Rightarrow> side \<Rightarrow> int \<Rightarrow> bytes \<Rightarrow> Conn \<Rightarrow> Conn \<times> error option" where
  "WriteMessage L sd msgType msg c =
     (c\<lparr>cn_sent := cn_sent c @ [(msgType, msg)]\<rparr>, wl_WriteMessage L sd (length (cn_sent c)) msgType msg)"

text \<open>The message types and close codes of RFC 6455.\<close>

definition TextMessage :: int where "TextMessage = 1"
definition BinaryMessage :: int where "BinaryMessage = 2"
definition CloseMessage :: int where "CloseMessage = 8"
definition CloseNormalClosure :: int where "CloseNormalClosure = 1000"
definition CloseNoStatusReceived :: int where "CloseNoStatusReceived = 1005"

definition is_data :: "int \<Rightarrow> bool" where
  "is_data msgType \<longleftrightarrow> msgType = TextMessage \<or> msgType = BinaryMessage"

section \<open>The proxier\<close>

definition defaultWSReadTimeout :: duration where "defaultWSReadTimeout = 2 * Minute"
definition defaultWSWriteTimeout :: duration where "defaultWSWriteTimeout = 10 * Second"

record WSProxier =
  wp_backend :: bref
  wp_clientConn :: Conn
  wp_backendConn :: Conn
  wp_methodWhitelist :: StringSet
  wp_readTimeout :: duration
  wp_writeTimeout :: duration

definition NewWSProxier :: "bref \<Rightarrow> Conn \<Rightarrow> Conn \<Rightarrow> StringSet \<Rightarrow> WSProxier" where
  "NewWSProxier be clientConn backendConn methodWhitelist =
     \<lparr>wp_backend = be, wp_clientConn = clientConn, wp_backendConn = backendConn,
      wp_methodWhitelist = methodWhitelist, wp_readTimeout = defaultWSReadTimeout,
      wp_writeTimeout = defaultWSWriteTimeout\<rparr>"

definition ws_error_text :: "'h ws_lib \<Rightarrow> err_globals \<Rightarrow> ws_err \<Rightarrow> string" where
  "ws_error_text L G err = (case err of
       CloseError code txt \<Rightarrow> wl_CloseError_Error L code txt
     | OtherErr e \<Rightarrow> error_text G e)"

definition formatWSError :: "'h ws_lib \<Rightarrow> err_globals \<Rightarrow> ws_err \<Rightarrow> bytes" where
  "formatWSError L G err =
     (let m = wl_FormatCloseMessage L CloseNormalClosure (ws_error_text L G err)
      in case err of
           CloseError code txt \<Rightarrow>
             (if code \<noteq> CloseNoStatusReceived then wl_FormatCloseMessage L code txt else m)
         | OtherErr _ \<Rightarrow> m)"

definition mustMarshalJSON :: "'h ws_lib \<Rightarrow> err_globals \<Rightarrow> RPCRes \<Rightarrow> bytes outcome" where
  "mustMarshalJSON L G res = (case MarshalJSON (wl_hexs L) G res of
       None \<Rightarrow> Panic ''json: error calling MarshalJSON''
     | Some out \<Rightarrow> Done out)"

definition writeClientConn :: "'h ws_lib \<Rightarrow> int \<Rightarrow> bytes \<Rightarrow> WSProxier \<Rightarrow> WSProxier \<times> error option" where
  "writeClientConn L msgType msg w =
     (case SetWriteDeadline L ClientSide (wp_writeTimeout w) (wp_clientConn w) of
        (c, Some err) \<Rightarrow> (w\<lparr>wp_clientConn := c\<rparr>, Some err)
      | (c, None) \<Rightarrow> (let (c, err) = WriteMessage L ClientSide msgType msg c in (w\<lparr>wp_clientConn := c\<rparr>, err)))"

definition writeBackendConn :: "'h ws_lib \<Rightarrow> int \<Rightarrow> bytes \<Rightarrow> WSProxier \<Rightarrow> WSProxier \<times> error option" where
  "writeBackendConn L msgType msg w =
     (case SetWriteDeadline L BackendSide (wp_writeTimeout w) (wp_backendConn w) of
        (c, Some err) \<Rightarrow> (w\<lparr>wp_backendConn := c\<rparr>, Some err)
      | (c, None) \<Rightarrow> (let (c, err) = WriteMessage L BackendSide msgType msg c in (w\<lparr>wp_backendConn := c\<rparr>, err)))"

text \<open>The request, if it could be parsed, and the error, if any.\<close>

definition prepareClientMsg :: "bytes \<Rightarrow> WSProxier \<Rightarrow> RPCReq option \<times> error option" where
  "prepareClientMsg msg w =
     (case ParseRPCReq msg of
        Inl err \<Rightarrow> (None, Some err)
      | Inr req \<Rightarrow>
          if \<not> StringSet_Has (rq_Method req) (wp_methodWhitelist w) then
            (Some req, Some (RPCE (Global ErrMethodNotWhitelisted)))
          else (Some req, None))"

definition parseBackendMsg :: "'h ws_lib \<Rightarrow> bytes \<Rightarrow> RPCRes option \<times> error option" where
  "parseBackendMsg L msg =
     (case ParseRPCRes (wl_fnum L) (wl_json_err L) (Inr msg) of
        Inl _ \<Rightarrow> (None, Some (RPCE (Global ErrBackendBadResponse)))
      | Inr res \<Rightarrow> (Some res, None))"

text \<open>
  Where a pump is: before a read, holding a message it has read, or ended. A pump that ends sends its
  error to \<open>errC\<close>.
\<close>

datatype pump = Reading | Holding int bytes | Ended

type_synonym pump_result = "pump \<times> WSProxier \<times> error option"

definition after_write :: "WSProxier \<times> error option \<Rightarrow> pump \<Rightarrow> pump_result" where
  "after_write r next = (case r of
       (w, Some err) \<Rightarrow> (Ended, w, Some err)
     | (w, None) \<Rightarrow> (next, w, None))"

definition clientPump_read :: "'h ws_lib \<Rightarrow> err_globals \<Rightarrow> WSProxier \<Rightarrow> pump_result" where
  "clientPump_read L G w =
     (let (c, msgType, msg, err) = ReadMessage L ClientSide (wp_clientConn w);
          w = w\<lparr>wp_clientConn := c\<rparr>
      in case err of
           Some err \<Rightarrow> after_write (writeBackendConn L CloseMessage (formatWSError L G err) w) (Holding msgType msg)
         | None \<Rightarrow> (Holding msgType msg, w, None))"

definition clientPump_handle :: "'h ws_lib \<Rightarrow> err_globals \<Rightarrow> int \<Rightarrow> bytes \<Rightarrow> WSProxier \<Rightarrow> pump_result outcome" where
  "clientPump_handle L G msgType msg w =
     (if msgType \<noteq> TextMessage \<and> msgType \<noteq> BinaryMessage then
        Done (after_write (writeBackendConn L msgType msg w) Reading)
      else
        (case prepareClientMsg msg w of
           (req, Some err) \<Rightarrow>
             obind (mustMarshalJSON L G (NewRPCErrorRes G (case req of Some r \<Rightarrow> rq_ID r | None \<Rightarrow> []) err)) (\<lambda>msg.
               Done (after_write (writeClientConn L msgType msg w) Reading))
         | (None, None) \<Rightarrow> nil_deref
         | (Some req, None) \<Rightarrow>
             if rq_Method req = ''eth_accounts'' then
               obind (mustMarshalJSON L G (NewRPCRes (rq_ID req) (Some emptyArrayResponse))) (\<lambda>msg.
                 Done (after_write (writeClientConn L msgType msg w) Reading))
             else Done (after_write (writeBackendConn L msgType msg w) Reading)))"

definition backendPump_read :: "'h ws_lib \<Rightarrow> err_globals \<Rightarrow> WSProxier \<Rightarrow> pump_result" where
  "backendPump_read L G w =
     (let (c, msgType, msg, err) = ReadMessage L BackendSide (wp_backendConn w);
          w = w\<lparr>wp_backendConn := c\<rparr>
      in case err of
           Some err \<Rightarrow> after_write (writeClientConn L CloseMessage (formatWSError L G err) w) (Holding msgType msg)
         | None \<Rightarrow> (Holding msgType msg, w, None))"

definition backendPump_handle :: "'h ws_lib \<Rightarrow> err_globals \<Rightarrow> int \<Rightarrow> bytes \<Rightarrow> WSProxier \<Rightarrow> pump_result outcome" where
  "backendPump_handle L G msgType msg w =
     (if msgType \<noteq> TextMessage \<and> msgType \<noteq> BinaryMessage then
        Done (after_write (writeClientConn L msgType msg w) Reading)
      else
        (case parseBackendMsg L msg of
           (res, Some err) \<Rightarrow>
             obind (mustMarshalJSON L G (NewRPCErrorRes G (case res of Some r \<Rightarrow> rs_ID r | None \<Rightarrow> []) err)) (\<lambda>msg.
               Done (after_write (writeClientConn L msgType msg w) Reading))
         | (_, None) \<Rightarrow> Done (after_write (writeClientConn L msgType msg w) Reading)))"

definition WSProxier_close :: "WSProxier \<Rightarrow> WSProxier" where
  "WSProxier_close w =
     w\<lparr>wp_clientConn := (wp_clientConn w)\<lparr>cn_closed := True\<rparr>, wp_backendConn := (wp_backendConn w)\<lparr>cn_closed := True\<rparr>\<rparr>"

section \<open>The two pumps together\<close>

record ws_state =
  ws_w :: WSProxier
  ws_client :: pump
  ws_backend :: pump
  ws_errC :: "error list"
  ws_result :: "error option"

definition pump_turn :: "'h ws_lib \<Rightarrow> err_globals \<Rightarrow> side \<Rightarrow> ws_state \<Rightarrow> pump_result outcome option" where
  "pump_turn L G sd s =
     (case (sd, if sd = ClientSide then ws_client s else ws_backend s) of
        (_, Ended) \<Rightarrow> None
      | (ClientSide, Reading) \<Rightarrow> Some (Done (clientPump_read L G (ws_w s)))
      | (ClientSide, Holding msgType msg) \<Rightarrow> Some (clientPump_handle L G msgType msg (ws_w s))
      | (BackendSide, Reading) \<Rightarrow> Some (Done (backendPump_read L G (ws_w s)))
      | (BackendSide, Holding msgType msg) \<Rightarrow> Some (backendPump_handle L G msgType msg (ws_w s)))"

definition set_pump :: "side \<Rightarrow> pump_result \<Rightarrow> ws_state \<Rightarrow> ws_state" where
  "set_pump sd r s =
     (let (p, w, err) = r;
          s = s\<lparr>ws_w := w, ws_errC := ws_errC s @ (case err of None \<Rightarrow> [] | Some e \<Rightarrow> [e])\<rparr>
      in case sd of ClientSide \<Rightarrow> s\<lparr>ws_client := p\<rparr> | BackendSide \<Rightarrow> s\<lparr>ws_backend := p\<rparr>)"

text \<open>\<open>Proxy\<close> starts the pumps, waits for the first error, closes the connections and returns it.\<close>

definition Proxy_start :: "WSProxier \<Rightarrow> ws_state" where
  "Proxy_start w = \<lparr>ws_w = w, ws_client = Reading, ws_backend = Reading, ws_errC = [], ws_result = None\<rparr>"

inductive ws_step :: "'h ws_lib \<Rightarrow> err_globals \<Rightarrow> ws_state \<Rightarrow> ws_state \<Rightarrow> bool" for L G where
  pump_step: "pump_turn L G sd s = Some (Done r) \<Longrightarrow> ws_step L G s (set_pump sd r s)"
| proxy_returns: "ws_result s = None \<Longrightarrow> ws_errC s = err # errs \<Longrightarrow>
    ws_step L G s (s\<lparr>ws_w := WSProxier_close (ws_w s), ws_errC := errs, ws_result := Some err\<rparr>)"

abbreviation ws_steps :: "'h ws_lib \<Rightarrow> err_globals \<Rightarrow> ws_state \<Rightarrow> ws_state \<Rightarrow> bool" where
  "ws_steps L G \<equiv> (ws_step L G)\<^sup>*\<^sup>*"

section \<open>Accepting a connection\<close>

definition Backend_ProxyWS ::
  "'h ws_lib \<Rightarrow> Conn \<Rightarrow> StringSet \<Rightarrow> bref \<Rightarrow> ('m, 'h) world \<Rightarrow> ('m, 'h) world \<times> (error + WSProxier)" where
  "Backend_ProxyWS L clientConn methodWhitelist be w =
     (case wl_Dial L (wsURL (w_be w be)) (w_net w) of
        (h, Some err) \<Rightarrow> (w\<lparr>w_net := h\<rparr>, Inl (wrapErr (Some err) ''error dialing backend''))
      | (h, None) \<Rightarrow> (w\<lparr>w_net := h\<rparr>, Inr (NewWSProxier be clientConn new_Conn methodWhitelist)))"

fun group_ProxyWS ::
  "'h ws_lib \<Rightarrow> Conn \<Rightarrow> StringSet \<Rightarrow> bref list \<Rightarrow> ('m, 'h) world \<Rightarrow> ('m, 'h) world \<times> (error + WSProxier)" where
  "group_ProxyWS L clientConn methodWhitelist [] w = (w, Inl (RPCE (Global ErrNoBackends)))"
| "group_ProxyWS L clientConn methodWhitelist (back # bes) w =
     (case Backend_ProxyWS L clientConn methodWhitelist back w of
        (w, Inl err) \<Rightarrow>
          (if errors_Is (Some err) (RPCE (Global ErrBackendOffline)) then group_ProxyWS L clientConn methodWhitelist bes w
           else if errors_Is (Some err) (RPCE (Global ErrBackendOverCapacity)) then group_ProxyWS L clientConn methodWhitelist bes w
           else group_ProxyWS L clientConn methodWhitelist bes w)
      | (w, Inr proxier) \<Rightarrow> (w, Inr proxier))"

text \<open>What becomes of a request to the WebSocket server: it is refused, its connection is closed
  again, or the pumps of a proxier are started.\<close>

datatype ws_accept = Refused | Hung_up Conn | Proxying ws_state

definition HandleWS ::
  "'h ws_lib \<Rightarrow> bytes \<Rightarrow> http_in \<Rightarrow> ('h, 'l) Server \<Rightarrow> ('m, 'h) world
    \<Rightarrow> (('m, 'h) world \<times> ResponseWriter \<times> ws_accept) outcome" where
  "HandleWS L rnd r s w =
     (case populateContext s rnd r fresh_writer of
        (rw, None) \<Rightarrow> Done (w, rw, Refused)
      | (rw, Some ctx) \<Rightarrow>
          (case wl_Upgrade L r rw of
             (rw, Some err) \<Rightarrow> Done (w, rw, Refused)
           | (rw, None) \<Rightarrow>
               (let clientConn = new_Conn\<lparr>cn_ReadLimit := sv_maxBodySize s\<rparr>
                in case sv_wsBackendGroup s of
                     None \<Rightarrow> nil_deref
                   | Some bg \<Rightarrow>
                       (case group_ProxyWS L clientConn (sv_wsMethodWhitelist s) (bg_Backends bg) w of
                          (w, Inl err) \<Rightarrow> Done (w, rw, Hung_up (clientConn\<lparr>cn_closed := True\<rparr>))
                        | (w, Inr proxier) \<Rightarrow> Done (w, rw, Proxying (Proxy_start proxier))))))"

section \<open>What the pumps relay\<close>

definition client_msg :: "'h ws_lib \<Rightarrow> nat \<Rightarrow> int \<times> bytes" where
  "client_msg L n = (let (t, m, _) = wl_ReadMessage L ClientSide n in (t, m))"

definition backend_msg :: "'h ws_lib \<Rightarrow> nat \<Rightarrow> int \<times> bytes" where
  "backend_msg L n = (let (t, m, _) = wl_ReadMessage L BackendSide n in (t, m))"

definition data_of :: "(int \<times> bytes) list \<Rightarrow> (int \<times> bytes) list" where
  "data_of ms = filter (is_data \<circ> fst) ms"

text \<open>A request that goes to the backend, and the answer of proxyd to one that does not.\<close>

definition forwardable :: "StringSet \<Rightarrow> bytes \<Rightarrow> bool" where
  "forwardable wl msg = (case ParseRPCReq msg of
       Inl _ \<Rightarrow> False
     | Inr req \<Rightarrow> StringSet_Has (rq_Method req) wl \<and> rq_Method req \<noteq> ''eth_accounts'')"

definition own_answer :: "'h ws_lib \<Rightarrow> err_globals \<Rightarrow> StringSet \<Rightarrow> bytes \<Rightarrow> bytes option" where
  "own_answer L G wl msg = (case ParseRPCReq msg of
       Inl err \<Rightarrow> MarshalJSON (wl_hexs L) G (NewRPCErrorRes G [] err)
     | Inr req \<Rightarrow>
         if \<not> StringSet_Has (rq_Method req) wl then
           MarshalJSON (wl_hexs L) G (NewRPCErrorRes G (rq_ID req) (RPCE (Global ErrMethodNotWhitelisted)))
         else if rq_Method req = ''eth_accounts'' then
           MarshalJSON (wl_hexs L) G (NewRPCRes (rq_ID req) (Some emptyArrayResponse))
         else None)"

definition own_answers :: "'h ws_lib \<Rightarrow> err_globals \<Rightarrow> StringSet \<Rightarrow> (int \<times> bytes) list \<Rightarrow> (int \<times> bytes) list" where
  "own_answers L G wl ms = concat (map (\<lambda>(t, m). case own_answer L G wl m of None \<Rightarrow> [] | Some a \<Rightarrow> [(t, a)]) (data_of ms))"

text \<open>A response of the backend as the client gets it.\<close>

definition relayed :: "'h ws_lib \<Rightarrow> err_globals \<Rightarrow> bytes \<Rightarrow> bytes" where
  "relayed L G msg = (if Unmarshal_RPCRes (wl_fnum L) msg = None
     then the (MarshalJSON (wl_hexs L) G (NewRPCErrorRes G [] (RPCE (Global ErrBackendBadResponse)))) else msg)"

lemma data_of_append [simp]: "data_of (xs @ ys) = data_of xs @ data_of ys"
  by (simp add: data_of_def)

lemma data_of_single [simp]: "data_of [(t, m)] = (if is_data t then [(t, m)] else [])" "data_of [] = []"
  by (simp_all add: data_of_def)

lemma is_data_types [simp]: "\<not> is_data CloseMessage" "is_data t \<longleftrightarrow> \<not> (t \<noteq> TextMessage \<and> t \<noteq> BinaryMessage)"
  by (auto simp: is_data_def CloseMessage_def TextMessage_def BinaryMessage_def)

declare is_data_types(2) [simp del]

lemma own_answers_append [simp]: "own_answers L G wl (xs @ ys) = own_answers L G wl xs @ own_answers L G wl ys"
  by (simp add: own_answers_def)

lemma snoc_in_shuffles: "ys @ [z] \<in> shuffles [z] ys"
  by (induction ys) auto

lemma shuffles_snoc_left: "zs \<in> shuffles xs ys \<Longrightarrow> zs @ [z] \<in> shuffles (xs @ [z]) ys"
  by (induction xs ys arbitrary: zs rule: shuffles.induct) (auto simp: snoc_in_shuffles)

lemma shuffles_snoc_right: "zs \<in> shuffles xs ys \<Longrightarrow> zs @ [z] \<in> shuffles xs (ys @ [z])"
  using shuffles_snoc_left [of zs ys xs z] by (simp add: shuffles_commutes)

section \<open>One turn of a pump\<close>

text \<open>A write adds at most its message to one connection; it adds it when it reports no error.\<close>

lemma writeBackendConn_result:
  assumes "writeBackendConn L t m w = (w', err)"
  shows "wp_clientConn w' = wp_clientConn w" "wp_methodWhitelist w' = wp_methodWhitelist w"
    "cn_reads (wp_backendConn w') = cn_reads (wp_backendConn w)"
    "cn_sent (wp_backendConn w') = cn_sent (wp_backendConn w) @ [(t, m)] \<or> err \<noteq> None \<and> cn_sent (wp_backendConn w') = cn_sent (wp_backendConn w)"
  using assms by (auto simp: writeBackendConn_def SetWriteDeadline_def WriteMessage_def dest: sym [of "Some _"] split: option.splits)

lemma writeClientConn_result:
  assumes "writeClientConn L t m w = (w', err)"
  shows "wp_backendConn w' = wp_backendConn w" "wp_methodWhitelist w' = wp_methodWhitelist w"
    "cn_reads (wp_clientConn w') = cn_reads (wp_clientConn w)"
    "cn_sent (wp_clientConn w') = cn_sent (wp_clientConn w) @ [(t, m)] \<or> err \<noteq> None \<and> cn_sent (wp_clientConn w') = cn_sent (wp_clientConn w)"
  using assms by (auto simp: writeClientConn_def SetWriteDeadline_def WriteMessage_def dest: sym [of "Some _"] split: option.splits)

text \<open>The state of the pumps: \<open>n\<close> messages of the client and \<open>k\<close> of the backend have been dealt with.\<close>

fun pump_at :: "(nat \<Rightarrow> int \<times> bytes) \<Rightarrow> nat \<Rightarrow> nat \<Rightarrow> pump \<Rightarrow> bool" where
  "pump_at f n r Reading \<longleftrightarrow> r = n"
| "pump_at f n r (Holding t m) \<longleftrightarrow> r = Suc n \<and> f n = (t, m)"
| "pump_at f n r Ended \<longleftrightarrow> r = n \<or> r = Suc n"

definition to_backend :: "'h ws_lib \<Rightarrow> StringSet \<Rightarrow> nat \<Rightarrow> (int \<times> bytes) list" where
  "to_backend L wl n = filter (\<lambda>(t, m). forwardable wl m) (data_of (map (client_msg L) [0..<n]))"

definition to_client :: "'h ws_lib \<Rightarrow> err_globals \<Rightarrow> StringSet \<Rightarrow> nat \<Rightarrow> nat \<Rightarrow> (int \<times> bytes) list set" where
  "to_client L G wl n k =
     shuffles (own_answers L G wl (map (client_msg L) [0..<n]))
       (map (\<lambda>(t, m). (t, relayed L G m)) (data_of (map (backend_msg L) [0..<k])))"

definition ws_inv :: "'h ws_lib \<Rightarrow> err_globals \<Rightarrow> StringSet \<Rightarrow> ws_state \<Rightarrow> nat \<Rightarrow> nat \<Rightarrow> bool" where
  "ws_inv L G wl s n k \<longleftrightarrow>
     (let w = ws_w s in
      wp_methodWhitelist w = wl \<and>
      pump_at (client_msg L) n (cn_reads (wp_clientConn w)) (ws_client s) \<and>
      pump_at (backend_msg L) k (cn_reads (wp_backendConn w)) (ws_backend s) \<and>
      data_of (cn_sent (wp_backendConn w)) = to_backend L wl n \<and>
      data_of (cn_sent (wp_clientConn w)) \<in> to_client L G wl n k)"

lemma to_backend_Suc:
  "client_msg L n = (t, m) \<Longrightarrow>
    to_backend L wl (Suc n) = to_backend L wl n @ (if is_data t \<and> forwardable wl m then [(t, m)] else [])"
  by (simp add: to_backend_def)

lemma to_client_silent:
  "client_msg L n = (t, m) \<Longrightarrow> \<not> is_data t \<or> own_answer L G wl m = None \<Longrightarrow> to_client L G wl (Suc n) k = to_client L G wl n k"
  "backend_msg L k = (t, m) \<Longrightarrow> \<not> is_data t \<Longrightarrow> to_client L G wl n (Suc k) = to_client L G wl n k"
  by (auto simp: to_client_def own_answers_def)

lemma to_client_own:
  "ms \<in> to_client L G wl n k \<Longrightarrow> client_msg L n = (t, m) \<Longrightarrow> is_data t \<Longrightarrow> own_answer L G wl m = Some a \<Longrightarrow>
    ms @ [(t, a)] \<in> to_client L G wl (Suc n) k"
  by (simp add: to_client_def shuffles_snoc_left) (simp add: own_answers_def shuffles_snoc_left)

lemma to_client_relayed:
  "ms \<in> to_client L G wl n k \<Longrightarrow> backend_msg L k = (t, m) \<Longrightarrow> is_data t \<Longrightarrow>
    ms @ [(t, relayed L G m)] \<in> to_client L G wl n (Suc k)"
  by (simp add: to_client_def shuffles_snoc_right)

lemma forwardable_no_answer: "forwardable wl m \<Longrightarrow> own_answer L G wl m = None"
  by (auto simp: forwardable_def own_answer_def split: sum.splits)

lemma clientPump_handle_cases:
  assumes "clientPump_handle L G t m w = Done r"
  obtains (control) "\<not> is_data t" "r = after_write (writeBackendConn L t m w) Reading"
  | (forward) "is_data t" "forwardable (wp_methodWhitelist w) m" "r = after_write (writeBackendConn L t m w) Reading"
  | (answer) a where "is_data t" "\<not> forwardable (wp_methodWhitelist w) m" "own_answer L G (wp_methodWhitelist w) m = Some a"
      "r = after_write (writeClientConn L t a w) Reading"
  using assms
  by (auto simp: clientPump_handle_def prepareClientMsg_def mustMarshalJSON_def forwardable_def own_answer_def is_data_types(2)
      split: if_splits sum.splits option.splits)

lemma backendPump_handle_cases:
  assumes "backendPump_handle L G t m w = Done r"
  obtains (control) "\<not> is_data t" "r = after_write (writeClientConn L t m w) Reading"
  | (relay) "is_data t" "r = after_write (writeClientConn L t (relayed L G m) w) Reading"
  using assms
  by (auto simp: backendPump_handle_def parseBackendMsg_def ParseRPCRes_def mustMarshalJSON_def relayed_def is_data_types(2)
      split: if_splits sum.splits option.splits)

lemma backend_write:
  assumes "after_write (writeBackendConn L t m w) nxt = (p, w', err)"
  obtains "wp_clientConn w' = wp_clientConn w" "wp_methodWhitelist w' = wp_methodWhitelist w"
    "cn_reads (wp_backendConn w') = cn_reads (wp_backendConn w)"
    "p \<in> {nxt, Ended}" "cn_sent (wp_backendConn w') = cn_sent (wp_backendConn w) @ [(t, m)]"
  | "wp_clientConn w' = wp_clientConn w" "wp_methodWhitelist w' = wp_methodWhitelist w"
    "cn_reads (wp_backendConn w') = cn_reads (wp_backendConn w)"
    "p = Ended" "cn_sent (wp_backendConn w') = cn_sent (wp_backendConn w)"
proof -
  obtain e where "writeBackendConn L t m w = (w', e)" "p = Ended \<and> e \<noteq> None \<or> p = nxt \<and> e = None"
    using assms by (auto simp: after_write_def split: prod.splits option.splits)
  with writeBackendConn_result [of L t m w w' e] show thesis by (auto intro: that)
qed

lemma client_write:
  assumes "after_write (writeClientConn L t m w) nxt = (p, w', err)"
  obtains "wp_backendConn w' = wp_backendConn w" "wp_methodWhitelist w' = wp_methodWhitelist w"
    "cn_reads (wp_clientConn w') = cn_reads (wp_clientConn w)"
    "p \<in> {nxt, Ended}" "cn_sent (wp_clientConn w') = cn_sent (wp_clientConn w) @ [(t, m)]"
  | "wp_backendConn w' = wp_backendConn w" "wp_methodWhitelist w' = wp_methodWhitelist w"
    "cn_reads (wp_clientConn w') = cn_reads (wp_clientConn w)"
    "p = Ended" "cn_sent (wp_clientConn w') = cn_sent (wp_clientConn w)"
proof -
  obtain e where "writeClientConn L t m w = (w', e)" "p = Ended \<and> e \<noteq> None \<or> p = nxt \<and> e = None"
    using assms by (auto simp: after_write_def split: prod.splits option.splits)
  with writeClientConn_result [of L t m w w' e] show thesis by (auto intro: that)
qed

lemma set_pump_fields [simp]:
  "ws_w (set_pump sd (p, w, err) s) = w"
  "ws_client (set_pump ClientSide (p, w, err) s) = p" "ws_client (set_pump BackendSide (p, w, err) s) = ws_client s"
  "ws_backend (set_pump BackendSide (p, w, err) s) = p" "ws_backend (set_pump ClientSide (p, w, err) s) = ws_backend s"
  by (cases sd; simp add: set_pump_def)+

lemma client_turn:
  assumes inv: "ws_inv L G wl s n k" and turn: "pump_turn L G ClientSide s = Some (Done (p, w', err))"
  shows "\<exists>n. ws_inv L G wl (set_pump ClientSide (p, w', err) s) n k"
proof (cases "ws_client s")
  case Reading
  then have r: "clientPump_read L G (ws_w s) = (p, w', err)" using turn by (simp add: pump_turn_def)
  obtain t m e where rd: "wl_ReadMessage L ClientSide n = (t, m, e)" by (metis prod_cases3)
  have "ws_inv L G wl (set_pump ClientSide (p, w', err) s) n k"
    using inv Reading rd r
    by (auto simp: ws_inv_def clientPump_read_def ReadMessage_def client_msg_def Let_def
        split: option.splits elim!: backend_write)
  then show ?thesis ..
next
  case (Holding t m)
  then have r: "clientPump_handle L G t m (ws_w s) = Done (p, w', err)" using turn by (simp add: pump_turn_def)
  have m: "client_msg L n = (t, m)" and wl: "wp_methodWhitelist (ws_w s) = wl"
    using inv Holding by (simp_all add: ws_inv_def Let_def)
  note next_msg = to_backend_Suc [OF m, of wl] to_client_silent(1) [OF m, of G wl k] to_client_own [OF _ m, of _ G wl k]
  from r have "ws_inv L G wl (set_pump ClientSide (p, w', err) s) (Suc n) k \<or> ws_inv L G wl (set_pump ClientSide (p, w', err) s) n k"
  proof (cases rule: clientPump_handle_cases)
    case control
    from control(2) [symmetric] show ?thesis
      by (elim backend_write) (use inv Holding control(1) next_msg in \<open>auto simp: ws_inv_def Let_def\<close>)
  next
    case forward
    from forward(3) [symmetric] show ?thesis
      by (elim backend_write)
        (use inv Holding forward(1,2) wl next_msg forwardable_no_answer [of wl m L G] in \<open>auto simp: ws_inv_def Let_def\<close>)
  next
    case (answer a)
    from answer(4) [symmetric] show ?thesis
      by (elim client_write) (use inv Holding answer(1-3) wl next_msg in \<open>auto simp: ws_inv_def Let_def\<close>)
  qed
  then show ?thesis by blast
next
  case Ended
  then show ?thesis using turn by (simp add: pump_turn_def)
qed

lemma backend_turn:
  assumes inv: "ws_inv L G wl s n k" and turn: "pump_turn L G BackendSide s = Some (Done (p, w', err))"
  shows "\<exists>k. ws_inv L G wl (set_pump BackendSide (p, w', err) s) n k"
proof (cases "ws_backend s")
  case Reading
  then have r: "backendPump_read L G (ws_w s) = (p, w', err)" using turn by (simp add: pump_turn_def)
  obtain t m e where rd: "wl_ReadMessage L BackendSide k = (t, m, e)" by (metis prod_cases3)
  have "ws_inv L G wl (set_pump BackendSide (p, w', err) s) n k"
    using inv Reading rd r
    by (auto simp: ws_inv_def backendPump_read_def ReadMessage_def backend_msg_def Let_def
        split: option.splits elim!: client_write)
  then show ?thesis ..
next
  case (Holding t m)
  then have r: "backendPump_handle L G t m (ws_w s) = Done (p, w', err)" using turn by (simp add: pump_turn_def)
  have m: "backend_msg L k = (t, m)" using inv Holding by (simp add: ws_inv_def Let_def)
  note next_msg = to_client_silent(2) [OF m, of G wl n] to_client_relayed [OF _ m, of _ G wl n]
  from r have "ws_inv L G wl (set_pump BackendSide (p, w', err) s) n (Suc k) \<or> ws_inv L G wl (set_pump BackendSide (p, w', err) s) n k"
  proof (cases rule: backendPump_handle_cases)
    case control
    from control(2) [symmetric] show ?thesis
      by (elim client_write) (use inv Holding control(1) next_msg in \<open>auto simp: ws_inv_def Let_def\<close>)
  next
    case relay
    from relay(2) [symmetric] show ?thesis
      by (elim client_write) (use inv Holding relay(1) next_msg in \<open>auto simp: ws_inv_def Let_def\<close>)
  qed
  then show ?thesis by blast
next
  case Ended
  then show ?thesis using turn by (simp add: pump_turn_def)
qed

lemma ws_step_inv:
  assumes "ws_step L G s s'" "ws_inv L G wl s n k"
  shows "\<exists>n k. ws_inv L G wl s' n k"
  using assms(1)
proof (cases rule: ws_step.cases)
  case (pump_step sd r)
  obtain p w' err where r: "r = (p, w', err)" by (metis prod_cases3)
  from pump_step client_turn [OF assms(2), of p w' err] backend_turn [OF assms(2), of p w' err] show ?thesis
    unfolding r by (cases sd) blast+
next
  case (proxy_returns err errs)
  then have "ws_inv L G wl s' n k" using assms(2) by (simp add: ws_inv_def WSProxier_close_def Let_def)
  then show ?thesis by blast
qed

lemma ws_steps_inv:
  "ws_steps L G s s' \<Longrightarrow> \<exists>n k. ws_inv L G wl s n k \<Longrightarrow> \<exists>n k. ws_inv L G wl s' n k"
  by (induction rule: rtranclp_induct) (use ws_step_inv in blast)+

section \<open>Accepting a connection\<close>

text \<open>The backend a WebSocket connection goes to: the first that answers the dial.\<close>

lemma group_ProxyWS_proxier:
  "group_ProxyWS L c wl bes w = (w', Inr proxier) \<Longrightarrow> \<exists>be \<in> set bes. proxier = NewWSProxier be c new_Conn wl"
  by (induction bes arbitrary: w) (auto simp: Backend_ProxyWS_def split: prod.splits option.splits if_splits)

lemma HandleWS_proxying:
  assumes "HandleWS L rnd r sv w = Done (w', rw, Proxying s0)"
  obtains bg be where "sv_wsBackendGroup sv = Some bg" "be \<in> set (bg_Backends bg)"  "authorized sv r"
    "s0 = Proxy_start (NewWSProxier be (new_Conn\<lparr>cn_ReadLimit := sv_maxBodySize sv\<rparr>) new_Conn (sv_wsMethodWhitelist sv))"
  using assms populateContext_authorized [of sv rnd r fresh_writer]
  by (auto simp: HandleWS_def Let_def split: prod.splits option.splits sum.splits dest!: group_ProxyWS_proxier)

lemma ws_inv_start:
  "ws_inv L G wl (Proxy_start (NewWSProxier be (new_Conn\<lparr>cn_ReadLimit := n\<rparr>) new_Conn wl)) 0 0"
  by (simp add: ws_inv_def Proxy_start_def NewWSProxier_def new_Conn_def to_backend_def to_client_def own_answers_def)

section \<open>A connection for evaluation\<close>

definition ws_request :: bytes where
  "ws_request = ''{\"jsonrpc\":\"2.0\",\"method\":\"m\",\"id\":1}''"

definition demo_ws :: "script ws_lib" where
  "demo_ws = \<lparr>wl_ReadMessage = (\<lambda>sd n. (1, ws_request, None)), wl_SetWriteDeadline = (\<lambda>_ _ _. None),
     wl_WriteMessage = (\<lambda>_ _ _ _. None), wl_FormatCloseMessage = (\<lambda>_ txt. txt), wl_CloseError_Error = (\<lambda>_ txt. txt),
     wl_Dial = (\<lambda>_ h. (h, None)), wl_Upgrade = (\<lambda>_ rw. (rw, None)), wl_hexs = (\<lambda>_. []), wl_fnum = Some, wl_json_err = []\<rparr>"

definition demo_ws_server :: "(script, (string \<times> string) list) Server" where
  "demo_ws_server = demo_server\<lparr>sv_wsBackendGroup := Some demo_group, sv_wsMethodWhitelist := NewStringSetFromStrings [''m'']\<rparr>"

definition demo_ws_start :: ws_state where
  "demo_ws_start = Proxy_start (NewWSProxier 0 (new_Conn\<lparr>cn_ReadLimit := 1000\<rparr>) new_Conn (NewStringSetFromStrings [''m'']))"

lemma demo_ws_accepted:
  "\<exists>rw. HandleWS demo_ws [] no_ip demo_ws_server demo_world = Done (demo_world, rw, Proxying demo_ws_start)"
  by (simp add: HandleWS_def populateContext_def demo_ws_server_def demo_server_def no_ip_def demo_ws_def demo_group_def
      lone_group_def Backend_ProxyWS_def demo_ws_start_def Let_def)

lemma demo_ws_run:
  "\<exists>s. ws_steps demo_ws global_errs demo_ws_start s \<and> cn_sent (wp_backendConn (ws_w s)) = [(1, ws_request)] \<and>
     cn_reads (wp_clientConn (ws_w s)) = 1 \<and> cn_reads (wp_backendConn (ws_w s)) = 0"
proof -
  let ?w = "ws_w demo_ws_start"
  let ?w1 = "?w\<lparr>wp_clientConn := (wp_clientConn ?w)\<lparr>cn_reads := 1\<rparr>\<rparr>"
  let ?s1 = "set_pump ClientSide (Holding 1 ws_request, ?w1, None) demo_ws_start"
  let ?r2 = "after_write (writeBackendConn demo_ws 1 ws_request ?w1) Reading"
  have "pump_turn demo_ws global_errs ClientSide demo_ws_start = Some (Done (Holding 1 ws_request, ?w1, None))"
    by (simp add: pump_turn_def demo_ws_start_def Proxy_start_def NewWSProxier_def clientPump_read_def ReadMessage_def demo_ws_def new_Conn_def)
  from pump_step [OF this] have 1: "ws_step demo_ws global_errs demo_ws_start ?s1" .
  have "clientPump_handle demo_ws global_errs 1 ws_request ?w1 = Done ?r2"
    by (simp add: clientPump_handle_def TextMessage_def prepareClientMsg_def ws_request_def demo_parse demo_ws_start_def Proxy_start_def
        NewWSProxier_def NewStringSetFromStrings_def StringSet_Has_def)
  then have "pump_turn demo_ws global_errs ClientSide ?s1 = Some (Done ?r2)" by (simp add: pump_turn_def)
  from pump_step [OF this] have 2: "ws_step demo_ws global_errs ?s1 (set_pump ClientSide ?r2 ?s1)" .
  have "ws_steps demo_ws global_errs demo_ws_start (set_pump ClientSide ?r2 ?s1)"
    using converse_rtranclp_into_rtranclp [of "ws_step demo_ws global_errs", OF 1 r_into_rtranclp [of "ws_step demo_ws global_errs", OF 2]] .
  moreover have "?r2 = (Reading, ?w1\<lparr>wp_backendConn := (wp_backendConn ?w1)\<lparr>cn_deadlines := 1, cn_sent := [(1, ws_request)]\<rparr>\<rparr>, None)"
    by (simp add: after_write_def writeBackendConn_def SetWriteDeadline_def WriteMessage_def demo_ws_def demo_ws_start_def Proxy_start_def
        NewWSProxier_def new_Conn_def)
  ultimately show ?thesis
    by (auto simp: demo_ws_start_def Proxy_start_def NewWSProxier_def new_Conn_def)
qed

section \<open>Properties\<close>

text \<open>
  C8: A WebSocket connection that the server accepts belongs to an authorized request and leads to a
  backend of its group. However the two pumps interleave, the data messages sent to the backend are
  exactly the requests of the client, unchanged and in order, that name a method of the whitelist
  other than \<open>eth_accounts\<close>; the data messages sent to the client are an interleaving of the
  answers of proxyd to the other requests and the messages of the backend, both in order, a
  message that is no response being replaced by an error. All messages read are dealt with, except
  the last one while a pump holds it or after it has failed.
\<close>

theorem websocket_relay:
  assumes "HandleWS L rnd r sv w = Done (w', rw, Proxying s0)" and "ws_steps L G s0 s"
  shows "authorized sv r \<and> (\<exists>bg. sv_wsBackendGroup sv = Some bg \<and> wp_backend (ws_w s0) \<in> set (bg_Backends bg)) \<and>
    (\<exists>n k. cn_reads (wp_clientConn (ws_w s)) \<in> {n, Suc n} \<and> cn_reads (wp_backendConn (ws_w s)) \<in> {k, Suc k} \<and>
       data_of (cn_sent (wp_backendConn (ws_w s))) =
         filter (\<lambda>(t, m). forwardable (sv_wsMethodWhitelist sv) m) (data_of (map (client_msg L) [0..<n])) \<and>
       data_of (cn_sent (wp_clientConn (ws_w s))) \<in>
         shuffles (own_answers L G (sv_wsMethodWhitelist sv) (map (client_msg L) [0..<n]))
           (map (\<lambda>(t, m). (t, relayed L G m)) (data_of (map (backend_msg L) [0..<k]))))"
proof -
  obtain bg be where s0: "sv_wsBackendGroup sv = Some bg" "be \<in> set (bg_Backends bg)"  "authorized sv r"
    "s0 = Proxy_start (NewWSProxier be (new_Conn\<lparr>cn_ReadLimit := sv_maxBodySize sv\<rparr>) new_Conn (sv_wsMethodWhitelist sv))"
    using HandleWS_proxying [OF assms(1)] by blast
  have "\<exists>n k. ws_inv L G (sv_wsMethodWhitelist sv) s0 n k" unfolding s0(4) using ws_inv_start by blast
  then obtain n k where inv: "ws_inv L G (sv_wsMethodWhitelist sv) s n k" using ws_steps_inv [OF assms(2)] by blast
  have reads: "pump_at f n r p \<Longrightarrow> r \<in> {n, Suc n}" for f n r p by (cases p) auto
  have "wp_backend (ws_w s0) = be" by (simp add: s0(4) Proxy_start_def NewWSProxier_def)
  with s0(1-3) inv reads show ?thesis
    unfolding ws_inv_def to_backend_def to_client_def Let_def by blast
qed

lemma websocket_relay_witness:
  "\<exists>rw s n. HandleWS demo_ws [] no_ip demo_ws_server demo_world = Done (demo_world, rw, Proxying demo_ws_start) \<and>
     ws_steps demo_ws global_errs demo_ws_start s \<and> [(1, ws_request)] = data_of (cn_sent (wp_backendConn (ws_w s))) \<and>
     data_of (cn_sent (wp_backendConn (ws_w s))) =
       filter (\<lambda>(t, m). forwardable (sv_wsMethodWhitelist demo_ws_server) m) (data_of (map (client_msg demo_ws) [0..<n]))"
proof -
  obtain rw where h: "HandleWS demo_ws [] no_ip demo_ws_server demo_world = Done (demo_world, rw, Proxying demo_ws_start)"
    using demo_ws_accepted by blast
  obtain s where s: "ws_steps demo_ws global_errs demo_ws_start s" "cn_sent (wp_backendConn (ws_w s)) = [(1, ws_request)]"
    using demo_ws_run by blast
  have "[(1, ws_request)] = data_of (cn_sent (wp_backendConn (ws_w s)))"
    by (simp add: s(2) is_data_def TextMessage_def)
  with websocket_relay [OF h s(1)] h s(1) show ?thesis by blast
qed

end
