(* ===== verification/Startup.thy ===== *)
theory Startup
  imports WS_Proxy "HOL-Library.AList"
begin

text \<open>
  Configuration and start of proxyd (\<open>proxyd/config.go\<close>, \<open>proxyd/proxyd.go\<close>, \<open>proxyd/tls.go\<close>,
  \<open>proxyd/redis.go\<close>). \<open>Start\<close> checks the configuration, builds backends, groups, cache, limiters and
  the server, and gives consensus-aware groups their pollers.

  A map of the configuration is a list of its entries in the order of iteration. Backends are put in
  a store in the order in which they are built. \<open>os_env\<close> has what the process reads from its
  environment: variables, files, certificates and the reachability of Redis servers. \<open>log.Crit\<close> ends
  the process, here as a \<open>Panic\<close>. Decoding the TOML file and the metrics listener are not modelled.
\<close>

section \<open>Configuration\<close>

record ServerConfig =
  cs_RPCHost :: string
  cs_RPCPort :: int
  cs_WSHost :: string
  cs_WSPort :: int
  cs_MaxBodySizeBytes :: int
  cs_MaxConcurrentRPCs :: int
  cs_LogLevel :: string
  cs_TimeoutSeconds :: int
  cs_MaxUpstreamBatchSize :: int
  cs_EnableRequestLog :: bool
  cs_MaxRequestBodyLogLen :: int
  cs_EnablePprof :: bool
  cs_EnableXServedByHeader :: bool
  cs_AllowAllOrigins :: bool

record CacheConfig =
  cc_Enabled :: bool
  cc_TTL :: duration

record RedisConfig =
  rd_URL :: string
  rd_Namespace :: string
  rd_ReadURL :: string
  rd_FallbackToMemory :: bool
  rd_RedisCluster :: bool

record MetricsConfig =
  mc_Enabled :: bool
  mc_Host :: string
  mc_Port :: int

record BackendOptions =
  bo_ResponseTimeoutSeconds :: int
  bo_MaxResponseSizeBytes :: int
  bo_MaxRetries :: int
  bo_OutOfServiceSeconds :: int
  bo_MaxDegradedLatencyThreshold :: duration
  bo_MaxLatencyThreshold :: duration
  bo_MaxErrorRateThreshold :: rat

record BackendConfig =
  bc_Username :: string
  bc_Password :: string
  bc_RPCURL :: string
  bc_WSURL :: string
  bc_WSPort :: int
  bc_MaxRPS :: int
  bc_MaxWSConns :: int
  bc_CAFile :: string
  bc_ClientCertFile :: string
  bc_ClientKeyFile :: string
  bc_StripTrailingXFF :: bool
  bc_Headers :: "(string \<times> string) list"
  bc_Weight :: int
  bc_ConsensusSkipPeerCountCheck :: bool
  bc_ConsensusForcedCandidate :: bool
  bc_ConsensusReceiptsTarget :: string

record BackendGroupConfig =
  gc_Backends :: "string list"
  gc_WeightedRouting :: bool
  gc_RoutingStrategy :: string
  gc_MulticallRPCErrorCheck :: bool
  gc_ConsensusAware :: bool
  gc_ConsensusAsyncHandler :: string
  gc_ConsensusPollerInterval :: duration
  gc_ConsensusBanPeriod :: duration
  gc_ConsensusMaxUpdateThreshold :: duration
  gc_ConsensusMaxBlockLag :: uint64
  gc_ConsensusMaxBlockRange :: uint64
  gc_ConsensusMinPeerCount :: int
  gc_ConsensusHA :: bool
  gc_ConsensusHAHeartbeatInterval :: duration
  gc_ConsensusHALockPeriod :: duration
  gc_ConsensusHARedis :: RedisConfig
  gc_Fallbacks :: "string list"

record BatchConfig =
  ba_MaxSize :: int
  ba_ErrorMessage :: string

text \<open>A nil map of authentication keys is \<open>None\<close>.\<close>

record Config =
  cf_WSBackendGroup :: string
  cf_Server :: ServerConfig
  cf_Cache :: CacheConfig
  cf_Redis :: RedisConfig
  cf_Metrics :: MetricsConfig
  cf_RateLimit :: RateLimitConfig
  cf_BackendOptions :: BackendOptions
  cf_Backends :: "(string \<times> BackendConfig) list"
  cf_BatchConfig :: BatchConfig
  cf_Authentication :: "(string \<times> string) list option"
  cf_BackendGroups :: "(string \<times> BackendGroupConfig) list"
  cf_RPCMethodMappings :: "(string \<times> string) list"
  cf_WSMethodWhitelist :: "string list"
  cf_WhitelistErrorMessage :: string
  cf_SenderRateLimit :: SenderRateLimitConfig

record 'l os_env =
  os_Getenv :: "string \<Rightarrow> string"
  os_ReadFile :: "string \<Rightarrow> error + bytes"
  os_AppendCertsFromPEM :: "bytes \<Rightarrow> bool"
  os_LoadX509KeyPair :: "string \<Rightarrow> string \<Rightarrow> error + bytes \<times> bytes"
  os_redis_ParseURL :: "string \<Rightarrow> error option"
  os_redis_ParseClusterURL :: "string \<Rightarrow> error option"
  os_redis_Ping :: "string \<Rightarrow> error option"
  os_lru_New :: "int \<Rightarrow> 'l"

text \<open>The result of a call or its error, and the results of a loop that returns at the first error.\<close>

fun rbind :: "error + 'a \<Rightarrow> ('a \<Rightarrow> error + 'b) \<Rightarrow> error + 'b" where
  "rbind (Inl err) f = Inl err"
| "rbind (Inr x) f = f x"

fun each :: "('a \<Rightarrow> error + 'b) \<Rightarrow> 'a list \<Rightarrow> error + 'b list" where
  "each f [] = Inr []"
| "each f (x # xs) = rbind (f x) (\<lambda>y. rbind (each f xs) (\<lambda>ys. Inr (y # ys)))"

definition ReadFromEnvOrConfig :: "'l os_env \<Rightarrow> string \<Rightarrow> error + string" where
  "ReadFromEnvOrConfig OS val =
     (if strings_HasPrefix val ''$'' then
        (let envValue = os_Getenv OS (strings_TrimPrefix val ''$'')
         in if envValue = [] then Inl (Errorf (''config env var '' @ val @ '' not found''))
            else Inr envValue)
      else if strings_HasPrefix val [CHR 0x5C] then Inr (strings_TrimPrefix val [CHR 0x5C])
      else Inr val)"

definition ConsensusAwareRoutingStrategy :: string where "ConsensusAwareRoutingStrategy = ''consensus_aware''"
definition FallbackRoutingStrategy :: string where "FallbackRoutingStrategy = ''fallback''"

definition log_Crit :: "string \<Rightarrow> 'a outcome" where
  "log_Crit msg = Panic msg"

definition ValidateRoutingStrategy :: "BackendGroupConfig \<Rightarrow> (BackendGroupConfig \<times> bool) outcome" where
  "ValidateRoutingStrategy b =
     (if gc_ConsensusAware b \<and> gc_RoutingStrategy b \<noteq> [] then
        log_Crit ''Exiting consensus_aware and routing strategy are mutually exclusive, they cannot both be defined''
      else
        (let b = (if gc_ConsensusAware b then b\<lparr>gc_RoutingStrategy := ConsensusAwareRoutingStrategy\<rparr> else b)
         in if gc_RoutingStrategy b = ConsensusAwareRoutingStrategy then Done (b, True)
            else if gc_RoutingStrategy b = MulticallRoutingStrategy then Done (b, True)
            else if gc_RoutingStrategy b = FallbackRoutingStrategy then Done (b, True)
            else if gc_RoutingStrategy b = [] then Done (b\<lparr>gc_RoutingStrategy := FallbackRoutingStrategy\<rparr>, True)
            else Done (b, False)))"

section \<open>TLS and Redis clients\<close>

definition CreateTLSClient :: "'l os_env \<Rightarrow> string \<Rightarrow> error + tls_config" where
  "CreateTLSClient OS ca =
     (case os_ReadFile OS ca of
        Inl err \<Rightarrow> Inl (wrapErr (Some err) ''error reading CA'')
      | Inr pem \<Rightarrow>
          if \<not> os_AppendCertsFromPEM OS pem then Inl (Errorf ''error parsing TLS client cert'')
          else Inr \<lparr>RootCAs = pem, Certificates = []\<rparr>)"

definition ParseKeyPair :: "'l os_env \<Rightarrow> string \<Rightarrow> string \<Rightarrow> error + bytes \<times> bytes" where
  "ParseKeyPair OS crt key =
     (case os_LoadX509KeyPair OS crt key of
        Inl err \<Rightarrow> Inl (wrapErr (Some err) ''error loading x509 key pair'')
      | Inr cert \<Rightarrow> Inr cert)"

definition configureBackendTLS :: "'l os_env \<Rightarrow> BackendConfig \<Rightarrow> error + tls_config option" where
  "configureBackendTLS OS cfg =
     (if bc_CAFile cfg = [] then Inr None
      else rbind (CreateTLSClient OS (bc_CAFile cfg)) (\<lambda>tlsConfig.
        if bc_ClientCertFile cfg \<noteq> [] \<and> bc_ClientKeyFile cfg \<noteq> [] then
          rbind (ParseKeyPair OS (bc_ClientCertFile cfg) (bc_ClientKeyFile cfg)) (\<lambda>cert.
            Inr (Some (tlsConfig\<lparr>Certificates := [cert]\<rparr>)))
        else Inr (Some tlsConfig)))"

text \<open>A client is the URL it connects to.\<close>

definition NewRedisClient :: "'l os_env \<Rightarrow> string \<Rightarrow> bool \<Rightarrow> error + string" where
  "NewRedisClient OS url enable_cluster =
     (case (if enable_cluster then os_redis_ParseClusterURL OS url else os_redis_ParseURL OS url) of
        Some err \<Rightarrow> Inl err
      | None \<Rightarrow> Inr url)"

definition CheckRedisConnection :: "'l os_env \<Rightarrow> string \<Rightarrow> error option" where
  "CheckRedisConnection OS client =
     (case os_redis_Ping OS client of
        Some err \<Rightarrow> Some (wrapErr (Some err) ''error connecting to redis'')
      | None \<Rightarrow> None)"

definition validateReceiptsTarget :: "string \<Rightarrow> error + string" where
  "validateReceiptsTarget val =
     (let val = (if val = [] then ReceiptsTargetDebugGetRawReceipts else val)
      in if val = ReceiptsTargetDebugGetRawReceipts \<or> val = ReceiptsTargetAlchemyGetTransactionReceipts \<or>
            val = ReceiptsTargetEthGetTransactionReceipts \<or> val = ReceiptsTargetParityGetTransactionReceipts
         then Inr val
         else Inl (Errorf (''invalid receipts target: '' @ val)))"

text \<open>The multiplication of \<open>time.Duration\<close> wraps around at 64 bits.\<close>

definition secondsToDuration :: "int \<Rightarrow> duration" where
  "secondsToDuration seconds = (seconds * Second + 2 ^ 63) mod 2 ^ 64 - 2 ^ 63"

section \<open>Building the parts\<close>

definition check_config :: "Config \<Rightarrow> error option" where
  "check_config config =
     (if length (cf_Backends config) = 0 then Some (Errorf ''must define at least one backend'')
      else if length (cf_BackendGroups config) = 0 then Some (Errorf ''must define at least one backend group'')
      else if length (cf_RPCMethodMappings config) = 0 then Some (Errorf ''must define at least one RPC method mapping'')
      else if ''none'' \<in> set (map fst (case cf_Authentication config of None \<Rightarrow> [] | Some a \<Rightarrow> a))
        then Some (Errorf ''cannot use none as an auth key'')
      else None)"

definition check_ping :: "'l os_env \<Rightarrow> RedisConfig \<Rightarrow> string \<Rightarrow> error option" where
  "check_ping OS redis client =
     (case CheckRedisConnection OS client of
        Some err \<Rightarrow> if rd_FallbackToMemory redis then None else Some err
      | None \<Rightarrow> None)"

text \<open>The primary client and the client for reads. The second check of a connection is of the
  primary client again.\<close>

definition redis_clients :: "'l os_env \<Rightarrow> RedisConfig \<Rightarrow> error + string option \<times> string option" where
  "redis_clients OS redis =
     rbind
       (if rd_URL redis \<noteq> [] then
          rbind (ReadFromEnvOrConfig OS (rd_URL redis)) (\<lambda>rURL.
          rbind (NewRedisClient OS rURL (rd_RedisCluster redis)) (\<lambda>client.
            case check_ping OS redis client of Some err \<Rightarrow> Inl err | None \<Rightarrow> Inr (Some client)))
        else Inr None) (\<lambda>redisClient.
     if rd_ReadURL redis \<noteq> [] then
       (case redisClient of
          None \<Rightarrow> Inl (Errorf ''must specify a Redis primary URL. only read endpoint is set'')
        | Some client \<Rightarrow>
            rbind (ReadFromEnvOrConfig OS (rd_ReadURL redis)) (\<lambda>rURL.
            rbind (NewRedisClient OS rURL (rd_RedisCluster redis)) (\<lambda>readClient.
              case check_ping OS redis client of Some err \<Rightarrow> Inl err | None \<Rightarrow> Inr (redisClient, Some readClient))))
     else Inr (redisClient, redisClient))"

definition set_messages :: "Config \<Rightarrow> err_globals \<Rightarrow> err_globals" where
  "set_messages config G =
     (let put = (\<lambda>g msg G. if msg \<noteq> [] then G(g := (G g)\<lparr>Message := msg\<rparr>) else G)
      in put ErrTooManyBatchRequests (ba_ErrorMessage (cf_BatchConfig config))
           (put ErrMethodNotWhitelisted (cf_WhitelistErrorMessage config)
             (put ErrOverRateLimit (rlc_ErrorMessage (cf_RateLimit config)) G)))"

definition check_sender_limit :: "SenderRateLimitConfig \<Rightarrow> error option" where
  "check_sender_limit c =
     (if sr_Enabled c then
        (if sr_Limit c \<le> 0 then Some (Errorf ''limit in sender_rate_limit must be > 0'')
         else if sr_Interval c < Second then Some (Errorf ''interval in sender_rate_limit must be >= 1s'')
         else None)
      else None)"

definition opt_if :: "bool \<Rightarrow> 'a \<Rightarrow> 'a list" where
  "opt_if b x = (if b then [x] else [])"

definition backend_opts :: "BackendOptions \<Rightarrow> BackendConfig \<Rightarrow> 'm BackendOpt list" where
  "backend_opts options cfg =
     opt_if (bo_ResponseTimeoutSeconds options \<noteq> 0) (WithTimeout (secondsToDuration (bo_ResponseTimeoutSeconds options))) @
     opt_if (bo_MaxRetries options \<noteq> 0) (WithMaxRetries (bo_MaxRetries options)) @
     opt_if (bo_MaxResponseSizeBytes options \<noteq> 0) (WithMaxResponseSize (bo_MaxResponseSizeBytes options)) @
     opt_if (bo_OutOfServiceSeconds options \<noteq> 0) (WithOutOfServiceDuration (secondsToDuration (bo_OutOfServiceSeconds options))) @
     opt_if (bo_MaxDegradedLatencyThreshold options > 0) (WithMaxDegradedLatencyThreshold (bo_MaxDegradedLatencyThreshold options)) @
     opt_if (bo_MaxLatencyThreshold options > 0) (WithMaxLatencyThreshold (bo_MaxLatencyThreshold options)) @
     opt_if (bo_MaxErrorRateThreshold options > 0) (WithMaxErrorRateThreshold (bo_MaxErrorRateThreshold options)) @
     opt_if (bc_MaxRPS cfg \<noteq> 0) (WithMaxRPS (bc_MaxRPS cfg)) @
     opt_if (bc_MaxWSConns cfg \<noteq> 0) (WithMaxWSConns (bc_MaxWSConns cfg))"

definition configure_backend ::
  "('m, 'h) env \<Rightarrow> 'l os_env \<Rightarrow> BackendOptions \<Rightarrow> string \<times> BackendConfig \<Rightarrow> error + 'm Backend" where
  "configure_backend E OS options nc =
     (let (name, cfg) = nc
      in rbind (ReadFromEnvOrConfig OS (bc_RPCURL cfg)) (\<lambda>rpcURL.
         rbind (ReadFromEnvOrConfig OS (bc_WSURL cfg)) (\<lambda>wsURL.
         if rpcURL = [] then Inl (Errorf (''must define an RPC URL for backend '' @ name))
         else
           rbind (if bc_Password cfg \<noteq> [] then
                        rbind (ReadFromEnvOrConfig OS (bc_Password cfg)) (\<lambda>passwordVal.
                          Inr [WithBasicAuth (bc_Username cfg) passwordVal])
                      else Inr []) (\<lambda>auth.
               rbind (each (\<lambda>(headerName, headerValue).
                        rbind (ReadFromEnvOrConfig OS headerValue) (\<lambda>v. Inr (headerName, v))) (bc_Headers cfg)) (\<lambda>headers.
               rbind (configureBackendTLS OS cfg) (\<lambda>tlsConfig.
               rbind (ReadFromEnvOrConfig OS (bc_ConsensusReceiptsTarget cfg)) (\<lambda>receiptsTarget.
               rbind (validateReceiptsTarget receiptsTarget) (\<lambda>receiptsTarget.
                 Inr (NewBackend E name rpcURL wsURL
                   (backend_opts options cfg @ auth @ [WithHeaders headers] @
                    (case tlsConfig of None \<Rightarrow> [] | Some t \<Rightarrow> [WithTLSConfig t]) @
                    opt_if (bc_StripTrailingXFF cfg) WithStrippedTrailingXFF @
                    [WithProxydIP (os_Getenv OS ''PROXYD_IP''),
                     WithConsensusSkipPeerCountCheck (bc_ConsensusSkipPeerCountCheck cfg),
                     WithConsensusForcedCandidate (bc_ConsensusForcedCandidate cfg),
                     WithWeight (bc_Weight cfg), WithConsensusReceiptTarget receiptsTarget]))))))))))"

text \<open>The backends of a group in the store, which of them are fallbacks, and how many fallbacks were found.\<close>

fun group_members ::
  "(string \<Rightarrow> bref option) \<Rightarrow> string list \<Rightarrow> string list \<Rightarrow> (string \<times> bool) list \<Rightarrow> nat
    \<Rightarrow> error + bref list \<times> (string \<times> bool) list \<times> nat" where
  "group_members byName fallbacks [] fbs n = Inr ([], fbs, n)"
| "group_members byName fallbacks (bName # bNames) fbs n =
     (case byName bName of
        None \<Rightarrow> Inl (Errorf (''backend '' @ bName @ '' is not defined''))
      | Some be \<Rightarrow>
          (let k = length (filter (\<lambda>fb. bName = fb) fallbacks);
               fbs = (if k > 0 then AList.update bName True fbs else fbs);
               fbs = (if map_of fbs bName = None then AList.update bName False fbs else fbs)
           in rbind (group_members byName fallbacks bNames fbs (n + k)) (\<lambda>(bes, fbs, n). Inr (be # bes, fbs, n))))"

definition configure_group ::
  "(string \<Rightarrow> bref option) \<Rightarrow> string \<times> BackendGroupConfig \<Rightarrow> error + string \<times> 'p BackendGroup" where
  "configure_group byName nc =
     (let (bgName, bg) = nc
      in rbind (group_members byName (gc_Fallbacks bg) (gc_Backends bg) [] 0) (\<lambda>(backends, fallbackBackends, fallbackCount).
         if fallbackCount \<noteq> length (gc_Fallbacks bg) then
           Inl (Errorf (''error: number of fallbacks instantiated ('' @ int_text (int fallbackCount) @
             '') did not match configured ('' @ int_text (int (length (gc_Fallbacks bg))) @ '') for backend group '' @ bgName))
         else
           Inr (bgName, \<lparr>bg_Name = bgName, bg_Backends = backends, WeightedRouting = gc_WeightedRouting bg,
             Consensus = None, FallbackBackends = fallbackBackends, routingStrategy = gc_RoutingStrategy bg,
             multicallRPCErrorCheck = gc_MulticallRPCErrorCheck bg\<rparr>)))"

definition ws_group :: "Config \<Rightarrow> (string \<times> 'p BackendGroup) list \<Rightarrow> error + 'p BackendGroup option" where
  "ws_group config groups =
     rbind (if cf_WSBackendGroup config \<noteq> [] then
              (case map_of groups (cf_WSBackendGroup config) of
                 None \<Rightarrow> Inl (Errorf (''ws backend group '' @ cf_WSBackendGroup config @ '' does not exist''))
               | Some bg \<Rightarrow> Inr (Some bg))
            else Inr None) (\<lambda>wsBackendGroup.
     if wsBackendGroup = None \<and> cs_WSPort (cf_Server config) \<noteq> 0 then
       Inl (Errorf ''a ws port was defined, but no ws group was defined'')
     else Inr wsBackendGroup)"

definition check_mappings :: "(string \<times> string) list \<Rightarrow> (string \<times> 'p BackendGroup) list \<Rightarrow> error + unit list" where
  "check_mappings mappings groups =
     each (\<lambda>(_, bg). case map_of groups bg of
         None \<Rightarrow> Inl (Errorf (''undefined backend group '' @ bg))
       | Some _ \<Rightarrow> Inr ()) mappings"

definition resolve_auth :: "'l os_env \<Rightarrow> (string \<times> string) list option \<Rightarrow> error + (string \<times> string) list" where
  "resolve_auth OS authentication =
     (case authentication of
        None \<Rightarrow> Inr []
      | Some as \<Rightarrow>
          rbind (each (\<lambda>(secret, alias). rbind (ReadFromEnvOrConfig OS secret) (\<lambda>s. Inr (s, alias))) as) (\<lambda>as.
            Inr (fold (\<lambda>(s, alias). AList.update s alias) as [])))"

definition memoryCacheLimit :: int where "memoryCacheLimit = 4096"

definition newMemoryCache :: "'l os_env \<Rightarrow> 'l Cache" where
  "newMemoryCache OS = memoryCache (os_lru_New OS memoryCacheLimit)"

definition defaultCacheTtl :: duration where "defaultCacheTtl = 1 * Hour"

definition make_cache :: "'l os_env \<Rightarrow> Config \<Rightarrow> string option \<Rightarrow> 'l RPCCache option" where
  "make_cache OS config redisClient =
     (if cc_Enabled (cf_Cache config) then
        (let cache = (case redisClient of
               None \<Rightarrow> newMemoryCache OS
             | Some _ \<Rightarrow>
                 (let ttl = (if cc_TTL (cf_Cache config) \<noteq> 0 then cc_TTL (cf_Cache config) else defaultCacheTtl);
                      cache = redisCache \<lparr>rc_prefix = rd_Namespace (cf_Redis config), rc_ttl = ttl\<rparr>
                  in if rd_FallbackToMemory (cf_Redis config) then fallbackCache cache (newMemoryCache OS) else cache))
         in Some (rpcCache (Some (cacheWithCompression cache))))
      else None)"

definition limiterFactory :: "Config \<Rightarrow> limiterFactoryFunc" where
  "limiterFactory config dur mx prefix =
     (if rlc_UseRedis (cf_RateLimit config) then
        (let limiter = RedisLimiter (NewRedisFrontendRateLimiter dur mx prefix)
         in if rd_FallbackToMemory (cf_Redis config) then
              FallbackRateLimiter limiter (MemoryLimiter (NewMemoryFrontendRateLimit dur mx))
            else limiter)
      else MemoryLimiter (NewMemoryFrontendRateLimit dur mx))"

section \<open>Pollers\<close>

definition consensus_opts :: "BackendGroupConfig \<Rightarrow> 'h ConsensusOpt list" where
  "consensus_opts c =
     opt_if (gc_ConsensusAsyncHandler c = ''noop'') (WithAsyncHandler NoopAsyncHandler) @
     opt_if (gc_ConsensusBanPeriod c > 0) (WithBanPeriod (gc_ConsensusBanPeriod c)) @
     opt_if (gc_ConsensusMaxUpdateThreshold c > 0) (WithMaxUpdateThreshold (gc_ConsensusMaxUpdateThreshold c)) @
     opt_if (gc_ConsensusMaxBlockLag c > 0) (WithMaxBlockLag (gc_ConsensusMaxBlockLag c)) @
     opt_if (gc_ConsensusMinPeerCount c > 0) (WithMinPeerCount (word_of_int (gc_ConsensusMinPeerCount c))) @
     opt_if (gc_ConsensusMaxBlockRange c > 0) (WithMaxBlockRange (gc_ConsensusMaxBlockRange c)) @
     opt_if (gc_ConsensusPollerInterval c > 0) (WithPollerInterval (gc_ConsensusPollerInterval c))"

definition ha_tracker :: "'l os_env \<Rightarrow> string \<Rightarrow> BackendGroupConfig \<Rightarrow> (error + 'h ConsensusOpt list) outcome" where
  "ha_tracker OS name c =
     (if \<not> gc_ConsensusHA c then Done (Inr [])
      else if rd_URL (gc_ConsensusHARedis c) = [] then
        log_Crit ''must specify a consensus_ha_redis config when consensus_ha is true''
      else
        (let topts =
               opt_if (gc_ConsensusHALockPeriod c > 0) (WithLockPeriod (gc_ConsensusHALockPeriod c)) @
               opt_if (gc_ConsensusHAHeartbeatInterval c > 0) (WithHeartbeatInterval (gc_ConsensusHAHeartbeatInterval c))
         in Done (rbind (NewRedisClient OS (rd_URL (gc_ConsensusHARedis c)) (rd_RedisCluster (gc_ConsensusHARedis c))) (\<lambda>client.
              case CheckRedisConnection OS client of
                Some err \<Rightarrow> Inl err
              | None \<Rightarrow>
                  Inr [WithTracker (Redis (NewRedisConsensusTracker (rd_Namespace (gc_ConsensusHARedis c) @ '':'' @ name) topts))]))))"

definition start_poller ::
  "'l os_env \<Rightarrow> BackendGroupConfig \<Rightarrow> 'h ConsensusPoller BackendGroup \<Rightarrow> (error + 'h ConsensusPoller BackendGroup) outcome" where
  "start_poller OS bgcfg bg =
     obind (ValidateRoutingStrategy bgcfg) (\<lambda>(bgcfg, ok).
       if \<not> ok then log_Crit ''Invalid routing strategy provided.''
       else if gc_RoutingStrategy bgcfg = ConsensusAwareRoutingStrategy then
         (if list_ex (\<lambda>be. map_of (FallbackBackends bg) be = None) (gc_Backends bgcfg) then
            log_Crit ''error backend not found in backend fallback configurations''
          else
            obind (ha_tracker OS (bg_Name bg) bgcfg) (\<lambda>r.
              Done (rbind r (\<lambda>topts.
                Inr (bg\<lparr>Consensus := Some (NewConsensusPoller bg (consensus_opts bgcfg @ topts))\<rparr>)))))
       else Done (Inr bg))"

fun start_pollers ::
  "'l os_env \<Rightarrow> (string \<Rightarrow> BackendGroupConfig option) \<Rightarrow> (string \<times> 'h ConsensusPoller BackendGroup) list
    \<Rightarrow> (error + (string \<times> 'h ConsensusPoller BackendGroup) list) outcome" where
  "start_pollers OS cfgs [] = Done (Inr [])"
| "start_pollers OS cfgs ((bgName, bg) # bgs) =
     (case cfgs bgName of
        None \<Rightarrow> nil_deref
      | Some bgcfg \<Rightarrow>
          obind (start_poller OS bgcfg bg) (\<lambda>r. case r of
            Inl err \<Rightarrow> Done (Inl err)
          | Inr bg \<Rightarrow> obind (start_pollers OS cfgs bgs) (\<lambda>r. Done (rbind r (\<lambda>bgs. Inr ((bgName, bg) # bgs))))))"

section \<open>Start\<close>

text \<open>What runs after \<open>Start\<close>: the server, the store of backends, the semaphore's weight, whether
  WebSocket upgrades are accepted from all origins, and the address of the metrics server.\<close>

record ('m, 'h, 'l) proxyd =
  px_server :: "('h, 'l) Server"
  px_backends :: "'m Backend list"
  px_semaphore :: int
  px_allOrigins :: bool
  px_metrics :: "string option"

definition build_server ::
  "('m, 'h) env \<Rightarrow> 'l os_env \<Rightarrow> ('r, 't) srv_lib \<Rightarrow> Config \<Rightarrow> error + ('h, 'l) Server \<times> 'm Backend list" where
  "build_server E OS SV config =
     rbind (redis_clients OS (cf_Redis config)) (\<lambda>(redisClient, redisReadClient).
     if redisClient = None \<and> rlc_UseRedis (cf_RateLimit config) then
       Inl (Errorf ''must specify a Redis URL if UseRedis is true in rate limit config'')
     else case check_sender_limit (cf_SenderRateLimit config) of
       Some err \<Rightarrow> Inl err
     | None \<Rightarrow>
         rbind (each (configure_backend E OS (cf_BackendOptions config)) (cf_Backends config)) (\<lambda>backends.
         rbind (each (configure_group (map_of (zip (map fst (cf_Backends config)) [0..<length backends])))
                  (cf_BackendGroups config)) (\<lambda>backendGroups.
         rbind (ws_group config backendGroups) (\<lambda>wsBackendGroup.
         rbind (check_mappings (cf_RPCMethodMappings config) backendGroups) (\<lambda>_.
         rbind (resolve_auth OS (cf_Authentication config)) (\<lambda>resolvedAuth.
         case NewServer SV backendGroups wsBackendGroup (NewStringSetFromStrings (cf_WSMethodWhitelist config))
                (map_of (cf_RPCMethodMappings config)) (cs_MaxBodySizeBytes (cf_Server config)) resolvedAuth
                (secondsToDuration (cs_TimeoutSeconds (cf_Server config))) (cs_MaxUpstreamBatchSize (cf_Server config))
                (cs_EnableXServedByHeader (cf_Server config)) (make_cache OS config redisClient) (cf_RateLimit config)
                (cf_SenderRateLimit config) (cs_EnableRequestLog (cf_Server config))
                (cs_MaxRequestBodyLogLen (cf_Server config)) (ba_MaxSize (cf_BatchConfig config)) (limiterFactory config) of
           Inl err \<Rightarrow> Inl (Wrapf ''error creating server:'' (Some err))
         | Inr srv \<Rightarrow> Inr (srv, backends)))))))"

text \<open>The pollers are set in the groups that the server and its WebSocket group point to.\<close>

definition Start ::
  "('m, 'h) env \<Rightarrow> 'l os_env \<Rightarrow> ('r, 't) srv_lib \<Rightarrow> Config \<Rightarrow> (error + ('m, 'h, 'l) proxyd) outcome" where
  "Start E OS SV config =
     (case check_config config of
        Some err \<Rightarrow> Done (Inl err)
      | None \<Rightarrow>
          (case build_server E OS SV config of
             Inl err \<Rightarrow> Done (Inl err)
           | Inr (srv, backends) \<Rightarrow>
               (let srv = (if cs_RPCPort (cf_Server config) \<noteq> 0
                           then RPCListenAndServe (cs_RPCHost (cf_Server config)) (cs_RPCPort (cf_Server config)) srv else srv);
                    srv = (if cs_WSPort (cf_Server config) \<noteq> 0
                           then WSListenAndServe (cs_WSHost (cf_Server config)) (cs_WSPort (cf_Server config)) srv else srv)
                in obind (start_pollers OS (map_of (cf_BackendGroups config)) (sv_BackendGroups srv)) (\<lambda>r.
                     Done (rbind r (\<lambda>groups.
                       Inr \<lparr>px_server = srv\<lparr>sv_BackendGroups := groups,
                              sv_wsBackendGroup := Option.bind (sv_wsBackendGroup srv) (\<lambda>bg. map_of groups (bg_Name bg))\<rparr>,
                            px_backends = backends,
                            px_semaphore = (if cs_MaxConcurrentRPCs (cf_Server config) = 0 then 2 ^ 63 - 1
                              else cs_MaxConcurrentRPCs (cf_Server config)),
                            px_allOrigins = cs_AllowAllOrigins (cf_Server config),
                            px_metrics = (if mc_Enabled (cf_Metrics config)
                              then Some (mc_Host (cf_Metrics config) @ '':'' @ int_text (mc_Port (cf_Metrics config))) else None)\<rparr>))))))"

text \<open>The error texts are set before the sender limit is checked, so that a later error leaves them set.\<close>

definition Start_errs :: "'l os_env \<Rightarrow> Config \<Rightarrow> err_globals \<Rightarrow> err_globals" where
  "Start_errs OS config G =
     (case check_config config of
        Some _ \<Rightarrow> G
      | None \<Rightarrow>
          (case redis_clients OS (cf_Redis config) of
             Inl _ \<Rightarrow> G
           | Inr (redisClient, _) \<Rightarrow>
               if redisClient = None \<and> rlc_UseRedis (cf_RateLimit config) then G else set_messages config G))"

section \<open>What a started proxy consists of\<close>

lemma rbind_Inr [simp]: "rbind x f = Inr y \<longleftrightarrow> (\<exists>z. x = Inr z \<and> f z = Inr y)"
  by (cases x) auto

lemma each_Inr: "each f xs = Inr ys \<longleftrightarrow> list_all2 (\<lambda>x y. f x = Inr y) xs ys"
  by (induction xs arbitrary: ys) (auto simp: list_all2_Cons1)

lemma NewServer_wiring:
  assumes "NewServer SV bgs ws wl mm body auth timeout upstream srvd cache rl sr enlog logLen batch factory = Inr s"
  shows "sv_wsBackendGroup s = ws" "sv_wsMethodWhitelist s = wl"
  using assms unfolding NewServer_def Let_def by (auto split: sum.split_asm)

definition valid_targets :: "string set" where
  "valid_targets = {ReceiptsTargetDebugGetRawReceipts, ReceiptsTargetAlchemyGetTransactionReceipts,
     ReceiptsTargetEthGetTransactionReceipts, ReceiptsTargetParityGetTransactionReceipts}"

lemma validateReceiptsTarget_valid: "validateReceiptsTarget t = Inr t' \<Longrightarrow> t' \<in> valid_targets"
  by (auto simp: validateReceiptsTarget_def valid_targets_def Let_def split: if_splits)

text \<open>No option changes the name or the URL of a backend.\<close>

definition keeps :: "'m BackendOpt list \<Rightarrow> bool" where
  "keeps opts \<longleftrightarrow> (\<forall>opt \<in> set opts. \<forall>b. Name (opt b) = Name b \<and> rpcURL (opt b) = rpcURL b)"

lemma Override_keeps: "keeps opts \<Longrightarrow> Name (Override opts b) = Name b \<and> rpcURL (Override opts b) = rpcURL b"
  by (induction opts arbitrary: b) (auto simp: keeps_def Override_def)

lemma keeps_append: "keeps (xs @ ys) \<longleftrightarrow> keeps xs \<and> keeps ys"
  by (auto simp: keeps_def)

lemma keeps_opt_if: "keeps [opt] \<Longrightarrow> keeps (opt_if c opt)"
  by (simp add: keeps_def opt_if_def)

lemmas With_defs = WithTimeout_def WithMaxRetries_def WithMaxResponseSize_def WithOutOfServiceDuration_def
  WithMaxDegradedLatencyThreshold_def WithMaxLatencyThreshold_def WithMaxErrorRateThreshold_def WithMaxRPS_def
  WithMaxWSConns_def WithBasicAuth_def WithHeaders_def WithTLSConfig_def WithStrippedTrailingXFF_def WithProxydIP_def
  WithConsensusSkipPeerCountCheck_def WithConsensusForcedCandidate_def WithWeight_def WithConsensusReceiptTarget_def

lemma keeps_backend_opts: "keeps (backend_opts options cfg)"
  unfolding backend_opts_def keeps_append
  by (intro conjI keeps_opt_if) (simp_all add: keeps_def With_defs)

lemma Override_target: "receiptsTarget (Override (opts @ [a1, a2, a3, a4, WithConsensusReceiptTarget t]) b) = t"
  by (simp add: Override_def WithConsensusReceiptTarget_def)

lemma rbindE:
  assumes "rbind x f = Inr y"
  obtains z where "x = Inr z" "f z = Inr y"
  using assms by auto

lemma configure_backend_valid:
  assumes "configure_backend E OS options (name, cfg) = Inr b"
  shows "Name b = name \<and> rpcURL b \<noteq> [] \<and> receiptsTarget b \<in> valid_targets"
proof -
  let ?auth = "if bc_Password cfg \<noteq> [] then
      rbind (ReadFromEnvOrConfig OS (bc_Password cfg)) (\<lambda>passwordVal. Inr [WithBasicAuth (bc_Username cfg) passwordVal]) else Inr []"
  from assms obtain rpc ws auth hs tls t target where r: "rpc \<noteq> []" "?auth = Inr auth" "validateReceiptsTarget t = Inr target"
    and b: "b = NewBackend E name rpc ws (backend_opts options cfg @ auth @ [WithHeaders hs] @
       (case tls of None \<Rightarrow> [] | Some t \<Rightarrow> [WithTLSConfig t]) @ opt_if (bc_StripTrailingXFF cfg) WithStrippedTrailingXFF @
       [WithProxydIP (os_Getenv OS ''PROXYD_IP''), WithConsensusSkipPeerCountCheck (bc_ConsensusSkipPeerCountCheck cfg),
        WithConsensusForcedCandidate (bc_ConsensusForcedCandidate cfg), WithWeight (bc_Weight cfg), WithConsensusReceiptTarget target])"
    unfolding configure_backend_def Let_def prod.case
    by (elim rbindE) (split if_split_asm [where Q = "rpcURL = []" for rpcURL], simp, elim rbindE, blast)
  have "keeps auth" using r(2) by (auto simp: keeps_def WithBasicAuth_def split: if_splits)
  moreover have "keeps (case tls of None \<Rightarrow> [] | Some t \<Rightarrow> [WithTLSConfig t])" by (cases tls) (simp_all add: keeps_def WithTLSConfig_def)
  moreover have "keeps (opt_if (bc_StripTrailingXFF cfg) WithStrippedTrailingXFF)" by (intro keeps_opt_if) (simp add: keeps_def With_defs)
  moreover have "keeps [WithHeaders hs]"
    "keeps [WithProxydIP (os_Getenv OS ''PROXYD_IP''), WithConsensusSkipPeerCountCheck (bc_ConsensusSkipPeerCountCheck cfg),
        WithConsensusForcedCandidate (bc_ConsensusForcedCandidate cfg), WithWeight (bc_Weight cfg), WithConsensusReceiptTarget target]"
    by (simp_all add: keeps_def With_defs)
  ultimately have "keeps (backend_opts options cfg @ auth @ [WithHeaders hs] @
       (case tls of None \<Rightarrow> [] | Some t \<Rightarrow> [WithTLSConfig t]) @ opt_if (bc_StripTrailingXFF cfg) WithStrippedTrailingXFF @
       [WithProxydIP (os_Getenv OS ''PROXYD_IP''), WithConsensusSkipPeerCountCheck (bc_ConsensusSkipPeerCountCheck cfg),
        WithConsensusForcedCandidate (bc_ConsensusForcedCandidate cfg), WithWeight (bc_Weight cfg), WithConsensusReceiptTarget target])"
    unfolding keeps_append using keeps_backend_opts by blast
  from Override_keeps [OF this] have "Name b = name \<and> rpcURL b = rpc" unfolding b NewBackend_def by simp
  moreover have "receiptsTarget b = target" unfolding b NewBackend_def append_assoc [symmetric] by (rule Override_target)
  ultimately show ?thesis using r(1) validateReceiptsTarget_valid [OF r(3)] by simp
qed

lemma group_members_result:
  assumes "group_members byName fallbacks bNames fbs n = Inr (bes, fbs', n')"
  shows "list_all2 (\<lambda>bName be. byName bName = Some be) bNames bes"
    and "map_of fbs' b = (if b \<in> set bNames then
        Some (b \<in> set fallbacks \<or> map_of fbs b = Some True) else map_of fbs b)"
    and "n' = n + sum_list (map (\<lambda>b. count_list fallbacks b) bNames)"
  using assms
proof (induction bNames arbitrary: bes fbs n)
  case (Cons bName bNames)
  { case 1 then show ?case using Cons.IH(1) by (auto simp: Let_def split: option.splits) }
  { case 2
    let ?k = "length (filter (\<lambda>fb. bName = fb) fallbacks)"
    let ?fbs = "if ?k > 0 then AList.update bName True fbs else fbs"
    let ?fbs' = "if map_of ?fbs bName = None then AList.update bName False ?fbs else ?fbs"
    obtain bes1 where "group_members byName fallbacks bNames ?fbs' (n + ?k) = Inr (bes1, fbs', n')"
      using 2 unfolding group_members.simps Let_def by (auto split: option.splits simp del: filter_empty_conv length_greater_0_conv)
    moreover have "?k > 0 \<longleftrightarrow> bName \<in> set fallbacks" by (auto simp: filter_empty_conv)
    ultimately show ?case using Cons.IH(2) [of ?fbs' "n + ?k" bes1] by (auto simp: update_conv') }
  { case 3
    then obtain bes1 fbs1 where "group_members byName fallbacks bNames fbs1 (n + length (filter (\<lambda>fb. bName = fb) fallbacks)) = Inr (bes1, fbs', n')"
      unfolding group_members.simps Let_def by (auto split: option.splits simp del: filter_empty_conv length_greater_0_conv)
    from Cons.IH(3) [OF this] show ?case by (simp add: count_list_eq_length_filter) }
qed auto

definition group_matches :: "Config \<Rightarrow> 'm Backend list \<Rightarrow> string \<Rightarrow> 'p BackendGroup \<Rightarrow> BackendGroupConfig \<Rightarrow> bool" where
  "group_matches config backends name bg c \<longleftrightarrow>
     (name, c) \<in> set (cf_BackendGroups config) \<and> bg_Name bg = name \<and>
     list_all2 (\<lambda>b be. be < length backends \<and> Name (backends ! be) = b) (gc_Backends c) (bg_Backends bg) \<and>
     (\<forall>b \<in> set (gc_Backends c). map_of (FallbackBackends bg) b = Some (b \<in> set (gc_Fallbacks c))) \<and>
     (distinct (gc_Backends c) \<longrightarrow> set (gc_Fallbacks c) \<subseteq> set (gc_Backends c))"

lemma sum_count_subset:
  "distinct bs \<Longrightarrow> sum_list (map (count_list fs) bs) = length fs \<Longrightarrow> set fs \<subseteq> set bs"
proof -
  assume d: "distinct bs" and "sum_list (map (count_list fs) bs) = length fs"
  then have "sum (count_list fs) (set bs) = sum (count_list fs) (set fs)"
    by (simp add: sum_list_distinct_conv_sum_set sum_count_set)
  moreover have "sum (count_list fs) (set bs) = sum (count_list fs) (set bs \<inter> set fs)"
    by (rule sum.mono_neutral_right) (auto simp: count_notin)
  moreover have "sum (count_list fs) (set fs) = sum (count_list fs) (set bs \<inter> set fs) + sum (count_list fs) (set fs - set bs)"
    by (metis Diff_Int2 Int_commute finite_set inf_le1 sum.subset_diff add.commute Diff_Int_distrib2 Diff_disjoint inf.cobounded2 sum.Int_Diff)
  ultimately have "sum (count_list fs) (set fs - set bs) = 0" by simp
  then show ?thesis by (auto simp: count_list_0_iff)
qed

lemma configure_group_matches:
  assumes "configure_group (map_of (zip (map fst (cf_Backends config)) [0..<length backends])) (name, c) = Inr (name', bg)"
    and "(name, c) \<in> set (cf_BackendGroups config)"
    and "list_all2 (\<lambda>nc b. Name b = fst nc) (cf_Backends config) backends"
  shows "name' = name \<and> Consensus bg = None \<and> group_matches config backends name bg c"
proof -
  from assms(1) obtain bes fbs n where g: "group_members (map_of (zip (map fst (cf_Backends config)) [0..<length backends]))
       (gc_Fallbacks c) (gc_Backends c) [] 0 = Inr (bes, fbs, n)" "n = length (gc_Fallbacks c)" "name' = name"
    "bg = \<lparr>bg_Name = name, bg_Backends = bes, WeightedRouting = gc_WeightedRouting c, Consensus = None,
       FallbackBackends = fbs, routingStrategy = gc_RoutingStrategy c, multicallRPCErrorCheck = gc_MulticallRPCErrorCheck c\<rparr>"
    by (auto simp: configure_group_def split: if_split_asm)
  have len: "length (cf_Backends config) = length backends" using assms(3) by (rule list_all2_lengthD)
  have at: "be < length backends \<and> Name (backends ! be) = b"
    if "map_of (zip (map fst (cf_Backends config)) [0..<length backends]) b = Some be" for b be
  proof -
    from map_of_SomeD [OF that] len have "be < length backends" "fst (cf_Backends config ! be) = b" by (auto simp: set_zip)
    then show ?thesis using list_all2_nthD2 [OF assms(3), of be] by simp
  qed
  from group_members_result(1) [OF g(1)] have "list_all2 (\<lambda>b be. be < length backends \<and> Name (backends ! be) = b) (gc_Backends c) bes"
    by (rule list_all2_mono) (rule at)
  with group_members_result(2,3) [OF g(1)] g(2-4) assms(2) sum_count_subset [of "gc_Backends c" "gc_Fallbacks c"]
  show ?thesis by (auto simp: group_matches_def)
qed

definition wants_consensus :: "BackendGroupConfig \<Rightarrow> bool" where
  "wants_consensus c \<longleftrightarrow> gc_ConsensusAware c \<or> gc_RoutingStrategy c = ConsensusAwareRoutingStrategy"

lemma ValidateRoutingStrategy_result:
  assumes "ValidateRoutingStrategy c = Done (c', True)"
  shows "gc_RoutingStrategy c' = ConsensusAwareRoutingStrategy \<longleftrightarrow> wants_consensus c"
  using assms by (auto simp: ValidateRoutingStrategy_def wants_consensus_def log_Crit_def Let_def ConsensusAwareRoutingStrategy_def
      MulticallRoutingStrategy_def FallbackRoutingStrategy_def split: if_splits)

lemma start_poller_result:
  assumes "start_poller OS c bg = Done (Inr bg')"
  shows "bg' = bg\<lparr>Consensus := Consensus bg'\<rparr> \<and> (Consensus bg = None \<longrightarrow> (Consensus bg' \<noteq> None \<longleftrightarrow> wants_consensus c))"
proof -
  obtain c' ok where v: "ValidateRoutingStrategy c = Done (c', ok)" using assms by (cases "ValidateRoutingStrategy c") (auto simp: start_poller_def)
  have ok: "ok" using assms v by (cases ok) (auto simp: start_poller_def log_Crit_def)
  show ?thesis
  proof (cases "gc_RoutingStrategy c' = ConsensusAwareRoutingStrategy")
    case True
    then have "\<exists>cp. bg' = bg\<lparr>Consensus := Some cp\<rparr>"
      using assms v ok by (cases "ha_tracker OS (bg_Name bg) c'") (auto simp: start_poller_def log_Crit_def split: if_splits)
    then show ?thesis using True ValidateRoutingStrategy_result v ok by auto
  next
    case False
    then have "bg' = bg" using assms v ok by (simp add: start_poller_def)
    then show ?thesis using False ValidateRoutingStrategy_result v ok by auto
  qed
qed

lemma start_pollers_result:
  "start_pollers OS cfgs bgs = Done (Inr bgs') \<Longrightarrow>
    list_all2 (\<lambda>(n, bg) (n', bg'). n' = n \<and> (\<exists>c. cfgs n = Some c \<and> bg' = bg\<lparr>Consensus := Consensus bg'\<rparr> \<and>
      (Consensus bg = None \<longrightarrow> (Consensus bg' \<noteq> None \<longleftrightarrow> wants_consensus c)))) bgs bgs'"
proof (induction bgs arbitrary: bgs')
  case (Cons p bgs)
  obtain n bg where p: "p = (n, bg)" by (cases p)
  from Cons.prems obtain c where c: "cfgs n = Some c" by (cases "cfgs n") (auto simp: p)
  from Cons.prems obtain bg1 where bg1: "start_poller OS c bg = Done (Inr bg1)"
    by (cases "start_poller OS c bg") (auto simp: p c split: sum.splits)
  from Cons.prems obtain bgs1 where "start_pollers OS cfgs bgs = Done (Inr bgs1)" "bgs' = (n, bg1) # bgs1"
    by (cases "start_pollers OS cfgs bgs") (auto simp: p c bg1)
  with Cons.IH start_poller_result [OF bg1] c show ?case by (simp add: p)
qed simp

lemma group_matches_poller: "group_matches config backends name (bg\<lparr>Consensus := x\<rparr>) c = group_matches config backends name bg c"
  by (simp add: group_matches_def)

definition groups_ok :: "Config \<Rightarrow> 'm Backend list \<Rightarrow> (string \<times> 'p BackendGroup) list \<Rightarrow> bool" where
  "groups_ok config backends bgs \<longleftrightarrow>
     map fst bgs = map fst (cf_BackendGroups config) \<and>
     (\<forall>(name, bg) \<in> set bgs. \<exists>c. map_of (cf_BackendGroups config) name = Some c \<and> group_matches config backends name bg c)"

lemma build_server_cases:
  assumes "build_server E OS SV config = Inr (srv, backends)"
  obtains bgs ws u auth cache where
    "each (configure_backend E OS (cf_BackendOptions config)) (cf_Backends config) = Inr backends"
    "each (configure_group (map_of (zip (map fst (cf_Backends config)) [0..<length backends]))) (cf_BackendGroups config) = Inr bgs"
    "ws_group config bgs = Inr ws" "check_mappings (cf_RPCMethodMappings config) bgs = Inr u"
    "NewServer SV bgs ws (NewStringSetFromStrings (cf_WSMethodWhitelist config))
       (map_of (cf_RPCMethodMappings config)) (cs_MaxBodySizeBytes (cf_Server config)) auth
       (secondsToDuration (cs_TimeoutSeconds (cf_Server config))) (cs_MaxUpstreamBatchSize (cf_Server config))
       (cs_EnableXServedByHeader (cf_Server config)) cache (cf_RateLimit config)
       (cf_SenderRateLimit config) (cs_EnableRequestLog (cf_Server config))
       (cs_MaxRequestBodyLogLen (cf_Server config)) (ba_MaxSize (cf_BatchConfig config)) (limiterFactory config) = Inr srv"
  using assms unfolding build_server_def
  by (elim rbindE) (auto split: if_split_asm option.split_asm sum.split_asm prod.split_asm elim!: rbindE simp del: rbind_Inr intro: that)

lemma configured_backends:
  assumes "each (configure_backend E OS options) cfgs = Inr backends"
  shows "list_all2 (\<lambda>nc b. Name b = fst nc) cfgs backends"
    and "\<forall>b \<in> set backends. rpcURL b \<noteq> [] \<and> receiptsTarget b \<in> valid_targets"
proof -
  have *: "list_all2 (\<lambda>nc b. Name b = fst nc \<and> rpcURL b \<noteq> [] \<and> receiptsTarget b \<in> valid_targets) cfgs backends"
    using assms unfolding each_Inr by (rule list_all2_mono) (metis configure_backend_valid prod.collapse)
  from * show "list_all2 (\<lambda>nc b. Name b = fst nc) cfgs backends" by (rule list_all2_mono) simp
  from * show "\<forall>b \<in> set backends. rpcURL b \<noteq> [] \<and> receiptsTarget b \<in> valid_targets"
    by (auto dest: list_all2_set2)
qed

lemma configured_groups:
  assumes "each (configure_group (map_of (zip (map fst (cf_Backends config)) [0..<length backends]))) (cf_BackendGroups config) = Inr bgs"
    and "distinct (map fst (cf_BackendGroups config))"
    and "list_all2 (\<lambda>nc b. Name b = fst nc) (cf_Backends config) backends"
  shows "groups_ok config backends bgs \<and> (\<forall>(name, bg) \<in> set bgs. Consensus bg = None)"
proof -
  let ?P = "\<lambda>nc nb. fst nb = fst nc \<and> nc \<in> set (cf_BackendGroups config) \<and> Consensus (snd nb) = None \<and> group_matches config backends (fst nb) (snd nb) (snd nc)"
  have *: "list_all2 ?P (cf_BackendGroups config) bgs"
  proof (rule list_all2_all_nthI)
    from assms(1) have l: "list_all2 (\<lambda>x y. configure_group (map_of (zip (map fst (cf_Backends config)) [0..<length backends])) x = Inr y) (cf_BackendGroups config) bgs"
      by (simp add: each_Inr)
    then show "length (cf_BackendGroups config) = length bgs" by (rule list_all2_lengthD)
    fix i assume i: "i < length (cf_BackendGroups config)"
    obtain n c where nc: "cf_BackendGroups config ! i = (n, c)" by (cases "cf_BackendGroups config ! i")
    obtain n' bg where nb: "bgs ! i = (n', bg)" by (cases "bgs ! i")
    have "(n, c) \<in> set (cf_BackendGroups config)" using i nc by (metis nth_mem)
    with configure_group_matches [OF _ this assms(3), of n' bg] list_all2_nthD [OF l i]
    show "?P (cf_BackendGroups config ! i) (bgs ! i)" by (simp add: nc nb)
  qed
  have names: "map fst bgs = map fst (cf_BackendGroups config)"
    using * by (induction rule: list_all2_induct) auto
  have "\<exists>c. map_of (cf_BackendGroups config) n = Some c \<and> group_matches config backends n bg c \<and> Consensus bg = None"
    if "(n, bg) \<in> set bgs" for n bg
    using list_all2_set2 [OF * that] assms(2) by (auto simp: map_of_eq_Some_iff)
  then show ?thesis using names by (auto simp: groups_ok_def)
qed

lemma start_pollers_groups:
  assumes "start_pollers OS (map_of (cf_BackendGroups config)) bgs = Done (Inr groups)"
    and "groups_ok config backends bgs \<and> (\<forall>(name, bg) \<in> set bgs. Consensus bg = None)"
  shows "map fst groups = map fst (cf_BackendGroups config) \<and>
    (\<forall>(name, bg) \<in> set groups. \<exists>c. map_of (cf_BackendGroups config) name = Some c \<and>
       group_matches config backends name bg c \<and> (Consensus bg \<noteq> None \<longleftrightarrow> wants_consensus c))"
proof -
  note l = start_pollers_result [OF assms(1)]
  have "map fst groups = map fst bgs" using l by (induction rule: list_all2_induct) auto
  moreover have "\<exists>c. map_of (cf_BackendGroups config) n = Some c \<and> group_matches config backends n bg' c \<and>
      (Consensus bg' \<noteq> None \<longleftrightarrow> wants_consensus c)" if "(n, bg') \<in> set groups" for n bg'
  proof -
    from list_all2_set2 [OF l that] obtain bg c where bg: "(n, bg) \<in> set bgs" "map_of (cf_BackendGroups config) n = Some c"
      "bg' = bg\<lparr>Consensus := Consensus bg'\<rparr>" "Consensus bg = None \<longrightarrow> (Consensus bg' \<noteq> None \<longleftrightarrow> wants_consensus c)" by auto
    with assms(2) have "group_matches config backends n bg c" "Consensus bg = None" by (auto simp: groups_ok_def)
    with bg show ?thesis by (metis group_matches_poller)
  qed
  ultimately show ?thesis using assms(2) by (auto simp: groups_ok_def)
qed

lemma check_mappings_defined:
  assumes "check_mappings mappings groups = Inr u" "(m, g) \<in> set mappings"
  shows "map_of groups g \<noteq> None"
proof -
  obtain i where "i < length mappings" "mappings ! i = (m, g)" using assms(2) by (auto simp: in_set_conv_nth)
  then show ?thesis using list_all2_nthD [OF assms(1) [unfolded check_mappings_def each_Inr], of i] by (auto split: option.splits)
qed

lemma server_ok_listen [simp]:
  "server_ok (RPCListenAndServe host port s) = server_ok s" "server_ok (WSListenAndServe host port s) = server_ok s"
  "server_ok (s\<lparr>sv_BackendGroups := bgs, sv_wsBackendGroup := ws\<rparr>) = server_ok s"
  by (simp_all add: server_ok_def RPCListenAndServe_def WSListenAndServe_def)

lemma listen_fields [simp]:
  "sv_BackendGroups (RPCListenAndServe host port s) = sv_BackendGroups s"
  "sv_BackendGroups (WSListenAndServe host port s) = sv_BackendGroups s"
  "sv_wsBackendGroup (RPCListenAndServe host port s) = sv_wsBackendGroup s"
  "sv_wsBackendGroup (WSListenAndServe host port s) = sv_wsBackendGroup s"
  "sv_rpcMethodMappings (RPCListenAndServe host port s) = sv_rpcMethodMappings s"
  "sv_rpcMethodMappings (WSListenAndServe host port s) = sv_rpcMethodMappings s"
  by (simp_all add: RPCListenAndServe_def WSListenAndServe_def)

lemma Start_cases:
  assumes "Start E OS SV config = Done (Inr p)"
  obtains srv srv' groups where "build_server E OS SV config = Inr (srv, px_backends p)"
    "start_pollers OS (map_of (cf_BackendGroups config)) (sv_BackendGroups srv) = Done (Inr groups)"
    "px_server p = srv'\<lparr>sv_BackendGroups := groups,
       sv_wsBackendGroup := Option.bind (sv_wsBackendGroup srv) (\<lambda>bg. map_of groups (bg_Name bg))\<rparr>"
    "server_ok srv' = server_ok srv" "sv_rpcMethodMappings srv' = sv_rpcMethodMappings srv"
proof -
  from assms obtain srv backends where b: "build_server E OS SV config = Inr (srv, backends)"
    by (auto simp: Start_def split: option.splits sum.splits)
  have c: "check_config config = None" using assms by (auto simp: Start_def split: option.splits)
  let ?s1 = "if cs_RPCPort (cf_Server config) \<noteq> 0
      then RPCListenAndServe (cs_RPCHost (cf_Server config)) (cs_RPCPort (cf_Server config)) srv else srv"
  let ?s2 = "if cs_WSPort (cf_Server config) \<noteq> 0
      then WSListenAndServe (cs_WSHost (cf_Server config)) (cs_WSPort (cf_Server config)) ?s1 else ?s1"
  have same: "sv_BackendGroups ?s2 = sv_BackendGroups srv" "sv_wsBackendGroup ?s2 = sv_wsBackendGroup srv"
    "server_ok ?s2 = server_ok srv" "sv_rpcMethodMappings ?s2 = sv_rpcMethodMappings srv" by simp_all
  define s2 where "s2 = ?s2"
  have run: "obind (start_pollers OS (map_of (cf_BackendGroups config)) (sv_BackendGroups srv)) (\<lambda>r.
      Done (rbind r (\<lambda>groups. Inr \<lparr>px_server = s2\<lparr>sv_BackendGroups := groups,
          sv_wsBackendGroup := Option.bind (sv_wsBackendGroup srv) (\<lambda>bg. map_of groups (bg_Name bg))\<rparr>,
        px_backends = backends,
        px_semaphore = (if cs_MaxConcurrentRPCs (cf_Server config) = 0 then 2 ^ 63 - 1 else cs_MaxConcurrentRPCs (cf_Server config)),
        px_allOrigins = cs_AllowAllOrigins (cf_Server config),
        px_metrics = (if mc_Enabled (cf_Metrics config)
          then Some (mc_Host (cf_Metrics config) @ '':'' @ int_text (mc_Port (cf_Metrics config))) else None)\<rparr>))) = Done (Inr p)"
    using assms unfolding Start_def c b option.case sum.case prod.case Let_def same(1,2) s2_def .
  then obtain groups where g: "start_pollers OS (map_of (cf_BackendGroups config)) (sv_BackendGroups srv) = Done (Inr groups)"
    by (cases "start_pollers OS (map_of (cf_BackendGroups config)) (sv_BackendGroups srv)") auto
  show thesis by (rule that [OF _ g, of s2]) (use run b g same s2_def in auto)
qed

section \<open>A configuration for evaluation\<close>

definition demo_os :: "(string \<times> string) list os_env" where
  "demo_os = \<lparr>os_Getenv = (\<lambda>_. []), os_ReadFile = (\<lambda>_. Inl (Errorf ''no file'')), os_AppendCertsFromPEM = (\<lambda>_. False),
     os_LoadX509KeyPair = (\<lambda>_ _. Inl (Errorf ''no file'')), os_redis_ParseURL = (\<lambda>_. None), os_redis_ParseClusterURL = (\<lambda>_. None),
     os_redis_Ping = (\<lambda>_. None), os_lru_New = (\<lambda>_. [])\<rparr>"

definition no_redis :: RedisConfig where
  "no_redis = \<lparr>rd_URL = [], rd_Namespace = [], rd_ReadURL = [], rd_FallbackToMemory = False, rd_RedisCluster = False\<rparr>"

definition demo_backend_config :: BackendConfig where
  "demo_backend_config = \<lparr>bc_Username = [], bc_Password = [], bc_RPCURL = ''http://a'', bc_WSURL = ''ws://a'', bc_WSPort = 0, bc_MaxRPS = 0,
     bc_MaxWSConns = 0, bc_CAFile = [], bc_ClientCertFile = [], bc_ClientKeyFile = [], bc_StripTrailingXFF = False, bc_Headers = [],
     bc_Weight = 0, bc_ConsensusSkipPeerCountCheck = False, bc_ConsensusForcedCandidate = False, bc_ConsensusReceiptsTarget = []\<rparr>"

definition demo_group_config :: BackendGroupConfig where
  "demo_group_config = \<lparr>gc_Backends = [''a'', ''b''], gc_WeightedRouting = False, gc_RoutingStrategy = ''consensus_aware'',
     gc_MulticallRPCErrorCheck = False, gc_ConsensusAware = False, gc_ConsensusAsyncHandler = ''noop'', gc_ConsensusPollerInterval = 0,
     gc_ConsensusBanPeriod = 0, gc_ConsensusMaxUpdateThreshold = 0, gc_ConsensusMaxBlockLag = 0, gc_ConsensusMaxBlockRange = 0,
     gc_ConsensusMinPeerCount = 4, gc_ConsensusHA = False, gc_ConsensusHAHeartbeatInterval = 0, gc_ConsensusHALockPeriod = 0,
     gc_ConsensusHARedis = no_redis, gc_Fallbacks = [''b'']\<rparr>"

definition demo_config :: Config where
  "demo_config = \<lparr>cf_WSBackendGroup = ''main'',
     cf_Server = \<lparr>cs_RPCHost = [], cs_RPCPort = 8545, cs_WSHost = [], cs_WSPort = 8546, cs_MaxBodySizeBytes = 0, cs_MaxConcurrentRPCs = 0,
       cs_LogLevel = [], cs_TimeoutSeconds = 0, cs_MaxUpstreamBatchSize = 0, cs_EnableRequestLog = False, cs_MaxRequestBodyLogLen = 0,
       cs_EnablePprof = False, cs_EnableXServedByHeader = False, cs_AllowAllOrigins = False\<rparr>,
     cf_Cache = \<lparr>cc_Enabled = True, cc_TTL = 0\<rparr>, cf_Redis = no_redis, cf_Metrics = \<lparr>mc_Enabled = False, mc_Host = [], mc_Port = 0\<rparr>,
     cf_RateLimit = \<lparr>rlc_UseRedis = False, rlc_BaseRate = 0, rlc_BaseInterval = 0, rlc_ExemptOrigins = [], rlc_ExemptUserAgents = [],
       rlc_ErrorMessage = [], rlc_MethodOverrides = [], rlc_IPHeaderOverride = []\<rparr>,
     cf_BackendOptions = \<lparr>bo_ResponseTimeoutSeconds = 0, bo_MaxResponseSizeBytes = 0, bo_MaxRetries = 2, bo_OutOfServiceSeconds = 0,
       bo_MaxDegradedLatencyThreshold = 0, bo_MaxLatencyThreshold = 0, bo_MaxErrorRateThreshold = 0\<rparr>,
     cf_Backends = [(''a'', demo_backend_config), (''b'', demo_backend_config)],
     cf_BatchConfig = \<lparr>ba_MaxSize = 0, ba_ErrorMessage = []\<rparr>, cf_Authentication = None,
     cf_BackendGroups = [(''main'', demo_group_config)], cf_RPCMethodMappings = [(''eth_call'', ''main'')],
     cf_WSMethodWhitelist = [''eth_call''], cf_WhitelistErrorMessage = [],
     cf_SenderRateLimit = \<lparr>sr_Enabled = False, sr_Interval = 0, sr_Limit = 0, sr_AllowedChainIds = []\<rparr>\<rparr>"

lemma demo_backends:
  "configure_backend scripted demo_os (cf_BackendOptions demo_config) (name, demo_backend_config) =
     Inr (NewBackend scripted name ''http://a'' ''ws://a''
       (backend_opts (cf_BackendOptions demo_config) demo_backend_config @
        [WithHeaders [], WithProxydIP [], WithConsensusSkipPeerCountCheck False, WithConsensusForcedCandidate False,
         WithWeight 0, WithConsensusReceiptTarget ReceiptsTargetDebugGetRawReceipts]))"
  by (simp add: configure_backend_def demo_backend_config_def demo_os_def ReadFromEnvOrConfig_def strings_HasPrefix_def
      configureBackendTLS_def validateReceiptsTarget_def opt_if_def)

lemma demo_groups:
  "configure_group (map_of (zip [''a'', ''b''] [0..<2])) (''main'', demo_group_config) =
     Inr (''main'', \<lparr>bg_Name = ''main'', bg_Backends = [0, 1], WeightedRouting = False, Consensus = None,
       FallbackBackends = [(''a'', False), (''b'', True)], routingStrategy = ''consensus_aware'', multicallRPCErrorCheck = False\<rparr>)"
  by (simp add: configure_group_def demo_group_config_def Let_def upt_conv_Cons numeral_2_eq_2)

abbreviation (input) demo_main :: "script ConsensusPoller BackendGroup" where
  "demo_main \<equiv> \<lparr>bg_Name = ''main'', bg_Backends = [0, 1], WeightedRouting = False, Consensus = None,
     FallbackBackends = [(''a'', False), (''b'', True)], routingStrategy = ''consensus_aware'', multicallRPCErrorCheck = False\<rparr>"

lemma demo_built: "\<exists>srv bs. build_server scripted demo_os demo_libs demo_config = Inr (srv, bs) \<and> sv_BackendGroups srv = [(''main'', demo_main)]"
proof -
  have r: "redis_clients demo_os (cf_Redis demo_config) = Inr (None, None)"
    by (simp add: redis_clients_def demo_config_def no_redis_def)
  have b: "\<exists>b1 b2. each (configure_backend scripted demo_os (cf_BackendOptions demo_config)) (cf_Backends demo_config) = Inr [b1, b2]"
    using demo_backends by (simp add: demo_config_def)
  then obtain b1 b2 where b: "each (configure_backend scripted demo_os (cf_BackendOptions demo_config)) (cf_Backends demo_config) = Inr [b1, b2]"
    by blast
  have n: "map fst (cf_Backends demo_config) = [''a'', ''b'']" "length [b1, b2] = 2" "cf_BackendGroups demo_config = [(''main'', demo_group_config)]"
    by (simp_all add: demo_config_def)
  show ?thesis
    unfolding build_server_def r b rbind.simps prod.case n each.simps demo_groups
    by (simp add: check_sender_limit_def ws_group_def check_mappings_def resolve_auth_def NewServer_def demo_config_def Let_def)
qed

lemma demo_poller: "\<exists>bg. start_poller demo_os demo_group_config demo_main = Done (Inr bg)"
  by (simp add: start_poller_def ValidateRoutingStrategy_def demo_group_config_def ConsensusAwareRoutingStrategy_def ha_tracker_def)

lemma demo_started: "\<exists>p. Start scripted demo_os demo_libs demo_config = Done (Inr p)"
proof -
  obtain srv bs where b: "build_server scripted demo_os demo_libs demo_config = Inr (srv, bs)" "sv_BackendGroups srv = [(''main'', demo_main)]"
    using demo_built by blast
  obtain bg where "start_poller demo_os demo_group_config demo_main = Done (Inr bg)" using demo_poller by blast
  then have g: "start_pollers demo_os (map_of (cf_BackendGroups demo_config)) [(''main'', demo_main)] = Done (Inr [(''main'', bg)])"
    by (simp add: demo_config_def)
  have c: "check_config demo_config = None" by (simp add: check_config_def demo_config_def)
  show ?thesis
    unfolding Start_def c b option.case sum.case prod.case Let_def if_distrib [of sv_BackendGroups] listen_fields if_cancel g by simp
qed

section \<open>Properties\<close>

text \<open>
  C9: When \<open>Start\<close> succeeds, the parts of the proxy fit together. The server is well-formed; every
  mapped method leads to an existing group, so that no request meets a nil group. The groups are
  those of the configuration; the backends of a group are the configured ones, in order, each
  marked as fallback exactly when it is configured as one; and a group has a consensus poller
  exactly when the configuration asks for it. Every backend has a URL and a supported receipts
  target. If a WebSocket port is configured, its group exists and is one of the server's groups.
\<close>

theorem start_wellformed:
  assumes "Start E OS SV config = Done (Inr p)" and "distinct (map fst (cf_BackendGroups config))"
  defines "s \<equiv> px_server p"
  shows "server_ok s \<and>
    (\<forall>m g. sv_rpcMethodMappings s m = Some g \<longrightarrow> map_of (sv_BackendGroups s) g \<noteq> None) \<and>
    map fst (sv_BackendGroups s) = map fst (cf_BackendGroups config) \<and>
    (\<forall>(name, bg) \<in> set (sv_BackendGroups s). \<exists>c. map_of (cf_BackendGroups config) name = Some c \<and>
       group_matches config (px_backends p) name bg c \<and> (Consensus bg \<noteq> None \<longleftrightarrow> wants_consensus c)) \<and>
    (\<forall>b \<in> set (px_backends p). rpcURL b \<noteq> [] \<and> receiptsTarget b \<in> valid_targets) \<and>
    (cs_WSPort (cf_Server config) \<noteq> 0 \<longrightarrow>
       sv_wsBackendGroup s \<noteq> None \<and> sv_wsBackendGroup s = map_of (sv_BackendGroups s) (cf_WSBackendGroup config))"
proof -
  obtain srv srv' groups where b: "build_server E OS SV config = Inr (srv, px_backends p)"
    and g: "start_pollers OS (map_of (cf_BackendGroups config)) (sv_BackendGroups srv) = Done (Inr groups)"
    and s: "s = srv'\<lparr>sv_BackendGroups := groups,
       sv_wsBackendGroup := Option.bind (sv_wsBackendGroup srv) (\<lambda>bg. map_of groups (bg_Name bg))\<rparr>"
      "server_ok srv' = server_ok srv" "sv_rpcMethodMappings srv' = sv_rpcMethodMappings srv"
    using Start_cases [OF assms(1)] unfolding s_def by blast
  from b obtain bgs ws u auth cache where
    bs: "each (configure_backend E OS (cf_BackendOptions config)) (cf_Backends config) = Inr (px_backends p)"
    and bgs: "each (configure_group (map_of (zip (map fst (cf_Backends config)) [0..<length (px_backends p)]))) (cf_BackendGroups config) = Inr bgs"
    and ws: "ws_group config bgs = Inr ws" and mm: "check_mappings (cf_RPCMethodMappings config) bgs = Inr u"
    and new: "NewServer SV bgs ws (NewStringSetFromStrings (cf_WSMethodWhitelist config))
       (map_of (cf_RPCMethodMappings config)) (cs_MaxBodySizeBytes (cf_Server config)) auth
       (secondsToDuration (cs_TimeoutSeconds (cf_Server config))) (cs_MaxUpstreamBatchSize (cf_Server config))
       (cs_EnableXServedByHeader (cf_Server config)) cache (cf_RateLimit config)
       (cf_SenderRateLimit config) (cs_EnableRequestLog (cf_Server config))
       (cs_MaxRequestBodyLogLen (cf_Server config)) (ba_MaxSize (cf_BatchConfig config)) (limiterFactory config) = Inr srv"
    by (rule build_server_cases)
  note conf = configured_groups [OF bgs assms(2) configured_backends(1) [OF bs]]
  note started = start_pollers_groups [OF g [unfolded NewServer_fields(7) [OF new]] conf]
  have names: "map_of groups n = None \<longleftrightarrow> map_of bgs n = None" for n
    using started conf by (simp add: groups_ok_def map_of_eq_None_iff flip: set_map)
  have "map_of groups g \<noteq> None" if "map_of (cf_RPCMethodMappings config) m = Some g" for m g
    using check_mappings_defined [OF mm map_of_SomeD [OF that]] by (simp add: names)
  moreover have "sv_wsBackendGroup s = map_of groups (cf_WSBackendGroup config) \<and> map_of groups (cf_WSBackendGroup config) \<noteq> None"
    if port: "cs_WSPort (cf_Server config) \<noteq> 0"
  proof -
    obtain bg where bg: "ws = Some bg" "map_of bgs (cf_WSBackendGroup config) = Some bg"
      using ws port by (auto simp: ws_group_def split: if_splits option.splits)
    from conf map_of_SomeD [OF bg(2)] have "bg_Name bg = cf_WSBackendGroup config" by (auto simp: groups_ok_def group_matches_def)
    then show ?thesis using names [of "cf_WSBackendGroup config"] by (simp add: s(1) NewServer_wiring [OF new] bg)
  qed
  ultimately show ?thesis
    using started NewServer_ok(1) [OF new] configured_backends(2) [OF bs]
    by (auto simp: s NewServer_fields(8) [OF new])
qed

lemma start_wellformed_witness:
  "\<exists>p. Start scripted demo_os demo_libs demo_config = Done (Inr p) \<and> server_ok (px_server p) \<and>
     map fst (sv_BackendGroups (px_server p)) = [''main''] \<and> sv_wsBackendGroup (px_server p) \<noteq> None"
proof -
  obtain p where p: "Start scripted demo_os demo_libs demo_config = Done (Inr p)" using demo_started by blast
  have d: "distinct (map fst (cf_BackendGroups demo_config))" "map fst (cf_BackendGroups demo_config) = [''main'']"
    "cs_WSPort (cf_Server demo_config) \<noteq> 0" by (simp_all add: demo_config_def)
  note w = start_wellformed [OF p d(1)]
  have "server_ok (px_server p)" "map fst (sv_BackendGroups (px_server p)) = map fst (cf_BackendGroups demo_config)"
    "sv_wsBackendGroup (px_server p) \<noteq> None" using w d(3) by blast+
  with p d(2) show ?thesis by auto
qed

end
