(* ===== verification/Signer.thy ===== *)
theory Signer
  imports RPC
begin

unbundle bit_operations_syntax

text \<open>
  The signing service op-signer (\<open>op-signer/service\<close>, \<open>op-signer/client\<close>, \<open>op-signer/app.go\<close>): client
  authentication, the authorization of transactions and block payloads, and signatures from Cloud KMS.

  Transaction arguments and transactions of go-ethereum and op-service are of types \<open>'a\<close>, \<open>'b\<close> and
  \<open>'t\<close> with the operations of \<open>signer_lib\<close>; the KMS has a state of any type \<open>'k\<close>. The DER signature,
  the checksum and the compact signature are computed on bytes; elliptic curve operations and the
  decoding of PEM keys are parameters (\<open>kms_lib\<close>).
\<close>

section \<open>Clients and their authorization\<close>

type_synonym address = bytes

record ClientInfo =
  ClientName :: string

text \<open>The leaf certificate of the peer, by its DNS names. The result is an HTTP error or the client.\<close>

definition AuthMiddleware :: "string list option \<Rightarrow> int \<times> string + ClientInfo" where
  "AuthMiddleware leaf =
     (case leaf of
        None \<Rightarrow> Inl (401, ''client certificate was not provided'')
      | Some [] \<Rightarrow> Inl (401, ''client certificate verified but did not contain DNS SAN extension'')
      | Some (name # _) \<Rightarrow> Inr \<lparr>ClientName = name\<rparr>)"

record AuthConfig =
  ac_ClientName :: string
  ac_KeyName :: string
  ac_ChainID :: uint64
  ac_FromAddress :: address
  ac_ToAddresses :: "string list"
  ac_MaxValue :: string

record SignerServiceConfig =
  Auth :: "AuthConfig list"

definition GetAuthConfigForClient :: "SignerServiceConfig \<Rightarrow> string \<Rightarrow> address option \<Rightarrow> error + AuthConfig" where
  "GetAuthConfigForClient s clientName fromAddress =
     (if clientName = [] then Inl (Errorf ''client name is empty'')
      else case find (\<lambda>ac. ac_ClientName ac = clientName \<and> \<not> (fromAddress \<noteq> None \<and> fromAddress \<noteq> Some (ac_FromAddress ac))) (Auth s) of
        Some ac \<Rightarrow> Inr ac
      | None \<Rightarrow> Inl (Errorf (''client '' @ [CHR 0x27] @ clientName @ [CHR 0x27] @ '' is not authorized to use any keys'')))"

text \<open>\<open>hex_Decode\<close> and \<open>hex_DecodeBig\<close> are the decoders of \<open>hexutil\<close>, \<open>addr_Hex\<close> prints an address.\<close>

record ('a, 'b, 't) signer_lib =
  hex_Decode :: "string \<Rightarrow> error + bytes"
  hex_DecodeBig :: "string \<Rightarrow> error + int"
  addr_Hex :: "address \<Rightarrow> string"
  ta_Check :: "'a \<Rightarrow> error option"
  ta_From :: "'a \<Rightarrow> address option"
  ta_To :: "'a \<Rightarrow> address option"
  ta_Value :: "'a \<Rightarrow> int option"
  ta_ToTransaction :: "'a \<Rightarrow> error + 't"
  tx_ChainId :: "'t \<Rightarrow> int"
  signer_Hash :: "int \<Rightarrow> 't \<Rightarrow> bytes"
  tx_WithSignature :: "int \<Rightarrow> bytes \<Rightarrow> 't \<Rightarrow> error + 't"
  signer_Sender :: "int \<Rightarrow> 't \<Rightarrow> error + address"
  tx_MarshalBinary :: "'t \<Rightarrow> error + bytes"
  bp_Check :: "'b \<Rightarrow> error option"
  bp_SenderAddress :: "'b \<Rightarrow> address option"
  bp_ChainID :: "'b \<Rightarrow> int option"
  bp_ToSigningHash :: "'b \<Rightarrow> error + bytes"

text \<open>The checks of \<open>ReadConfig\<close> on the decoded file. The maximal value is looked at once per address,
  so not at all without addresses.\<close>

definition check_to_address :: "('a, 'b, 't) signer_lib \<Rightarrow> AuthConfig \<Rightarrow> string \<Rightarrow> error option" where
  "check_to_address L ac toAddress =
     (case hex_Decode L toAddress of
        Inl err \<Rightarrow> Some (Wrapf (''invalid toAddress '' @ [CHR 0x27] @ toAddress @ [CHR 0x27] @ '' in auth config:'') (Some err))
      | Inr _ \<Rightarrow>
          (if ac_MaxValue ac \<noteq> [] then
             (case hex_DecodeBig L (ac_MaxValue ac) of
                Inl err \<Rightarrow> Some (Wrapf (''invalid maxValue '' @ [CHR 0x27] @ toAddress @ [CHR 0x27] @ '' in auth config:'') (Some err))
              | Inr _ \<Rightarrow> None)
           else None))"

definition first_error :: "error option list \<Rightarrow> error option" where
  "first_error es = (case filter (\<lambda>e. e \<noteq> None) es of [] \<Rightarrow> None | e # _ \<Rightarrow> e)"

definition ReadConfig :: "('a, 'b, 't) signer_lib \<Rightarrow> error + SignerServiceConfig \<Rightarrow> error + SignerServiceConfig" where
  "ReadConfig L file =
     (case file of
        Inl err \<Rightarrow> Inl err
      | Inr config \<Rightarrow>
          (case first_error (concat (map (\<lambda>ac. map (check_to_address L ac) (ac_ToAddresses ac)) (Auth config))) of
             Some err \<Rightarrow> Inl err
           | None \<Rightarrow> Inr config))"

definition MaxValueToInt :: "('a, 'b, 't) signer_lib \<Rightarrow> AuthConfig \<Rightarrow> int outcome" where
  "MaxValueToInt L ac = (case hex_DecodeBig L (ac_MaxValue ac) of Inl err \<Rightarrow> Panic ''MustDecodeBig'' | Inr n \<Rightarrow> Done n)"

section \<open>The service\<close>

datatype signer_error =
    HTTPError int string
  | InvalidTransactionError string
  | UnauthorizedTransactionError string
  | InvalidBlockPayloadError string
  | UnauthorizedBlockPayloadError string

fun ErrorCode :: "signer_error \<Rightarrow> int" where
  "ErrorCode (HTTPError code _) = code"
| "ErrorCode (InvalidTransactionError _) = - 32010"
| "ErrorCode (UnauthorizedTransactionError _) = - 32011"
| "ErrorCode (InvalidBlockPayloadError _) = - 32012"
| "ErrorCode (UnauthorizedBlockPayloadError _) = - 32013"

text \<open>The provider of signatures, on a state of the key management service.\<close>

type_synonym 'k sign_digest = "string \<Rightarrow> bytes \<Rightarrow> 'k \<Rightarrow> ('k \<times> (error + bytes)) outcome"

text \<open>\<open>strings.EqualFold\<close>; an address in hex has only characters whose case folding is that of ASCII.\<close>

definition containsNormalized :: "string list \<Rightarrow> string \<Rightarrow> bool" where
  "containsNormalized s e = list_ex (\<lambda>a. map to_lower a = map to_lower e) s"

definition deref :: "'a option \<Rightarrow> 'a outcome" where
  "deref p = (case p of None \<Rightarrow> Panic ''invalid memory address or nil pointer dereference'' | Some x \<Rightarrow> Done x)"

text \<open>The two checks of the recipient and of the value against the configuration of the client.\<close>

definition to_allowed :: "('a, 'b, 't) signer_lib \<Rightarrow> AuthConfig \<Rightarrow> 'a \<Rightarrow> bool outcome" where
  "to_allowed L ac args =
     (if length (ac_ToAddresses ac) > 0 then
        obind (deref (ta_To L args)) (\<lambda>to. Done (containsNormalized (ac_ToAddresses ac) (addr_Hex L to)))
      else Done True)"

definition value_allowed :: "('a, 'b, 't) signer_lib \<Rightarrow> AuthConfig \<Rightarrow> 'a \<Rightarrow> bool outcome" where
  "value_allowed L ac args =
     (if length (ac_MaxValue ac) > 0 then
        obind (MaxValueToInt L ac) (\<lambda>mx. obind (deref (ta_Value L args)) (\<lambda>v. Done (\<not> v > mx)))
      else Done True)"

definition err_text :: "error \<Rightarrow> string" where
  "err_text e = error_text global_errs e"

definition sign_tx ::
  "('a, 'b, 't) signer_lib \<Rightarrow> 'k sign_digest \<Rightarrow> AuthConfig \<Rightarrow> 'a \<Rightarrow> 't \<Rightarrow> 'k
    \<Rightarrow> ('k \<times> (signer_error + bytes)) outcome" where
  "sign_tx L SignDigest ac args tx k =
     (let chain = tx_ChainId L tx; digest = signer_Hash L chain tx
      in obind (SignDigest (ac_KeyName ac) digest k) (\<lambda>(k, r). Done (k, case r of
           Inl err \<Rightarrow> Inl (InvalidTransactionError (err_text err))
         | Inr signature \<Rightarrow>
             (case tx_WithSignature L chain signature tx of
                Inl err \<Rightarrow> Inl (InvalidTransactionError (err_text err))
              | Inr stx \<Rightarrow>
                  (case signer_Sender L chain stx of
                     Inl err \<Rightarrow> Inl (InvalidTransactionError (err_text err))
                   | Inr signerFrom \<Rightarrow>
                       if ta_From L args \<noteq> None \<and> ta_From L args \<noteq> Some signerFrom then
                         Inl (InvalidTransactionError ''unexpected from address'')
                       else
                         (case tx_MarshalBinary L stx of
                            Inl err \<Rightarrow> Inl (InvalidTransactionError (err_text err))
                          | Inr txraw \<Rightarrow> Inr txraw))))))"

definition SignTransaction ::
  "('a, 'b, 't) signer_lib \<Rightarrow> 'k sign_digest \<Rightarrow> SignerServiceConfig \<Rightarrow> ClientInfo \<Rightarrow> 'a \<Rightarrow> 'k
    \<Rightarrow> ('k \<times> (signer_error + bytes)) outcome" where
  "SignTransaction L SignDigest config clientInfo args k =
     (case GetAuthConfigForClient config (ClientName clientInfo) None of
        Inl err \<Rightarrow> Done (k, Inl (HTTPError 403 (err_text err)))
      | Inr ac \<Rightarrow>
          (case ta_Check L args of
             Some err \<Rightarrow> Done (k, Inl (InvalidTransactionError (err_text err)))
           | None \<Rightarrow>
               obind (to_allowed L ac args) (\<lambda>to_ok.
                 if \<not> to_ok then Done (k, Inl (UnauthorizedTransactionError ''to address not authorized''))
                 else
                   obind (value_allowed L ac args) (\<lambda>value_ok.
                     if \<not> value_ok then Done (k, Inl (UnauthorizedTransactionError ''value exceeds maximum''))
                     else
                       (case ta_ToTransaction L args of
                          Inl err \<Rightarrow> Done (k, Inl (InvalidTransactionError (err_text err)))
                        | Inr tx \<Rightarrow> sign_tx L SignDigest ac args tx k)))))"

text \<open>\<open>Uint64\<close> of a big integer: the low 64 bits of its absolute value.\<close>

definition big_Uint64 :: "int \<Rightarrow> uint64" where
  "big_Uint64 n = word_of_int \<bar>n\<bar>"

definition SignBlockPayload ::
  "('a, 'b, 't) signer_lib \<Rightarrow> 'k sign_digest \<Rightarrow> SignerServiceConfig \<Rightarrow> ClientInfo \<Rightarrow> 'b \<Rightarrow> 'k
    \<Rightarrow> ('k \<times> (signer_error + bytes)) outcome" where
  "SignBlockPayload L SignDigest config clientInfo args k =
     (case GetAuthConfigForClient config (ClientName clientInfo) (bp_SenderAddress L args) of
        Inl err \<Rightarrow> Done (k, Inl (HTTPError 403 (err_text err)))
      | Inr ac \<Rightarrow>
          (case bp_Check L args of
             Some err \<Rightarrow> Done (k, Inl (InvalidBlockPayloadError (err_text err)))
           | None \<Rightarrow>
               obind (deref (bp_SenderAddress L args)) (\<lambda>sender.
                 if sender \<noteq> ac_FromAddress ac then Done (k, Inl (UnauthorizedBlockPayloadError ''unexpected from address''))
                 else
                   obind (deref (bp_ChainID L args)) (\<lambda>chain.
                     if big_Uint64 chain \<noteq> ac_ChainID ac then Done (k, Inl (UnauthorizedBlockPayloadError ''unexpected chainId''))
                     else
                       (case bp_ToSigningHash L args of
                          Inl err \<Rightarrow> Done (k, Inl (InvalidBlockPayloadError (err_text err)))
                        | Inr signingHash \<Rightarrow>
                            obind (SignDigest (ac_KeyName ac) signingHash k) (\<lambda>(k, r). Done (k, case r of
                              Inl err \<Rightarrow> Inl (InvalidBlockPayloadError (err_text err))
                            | Inr signature \<Rightarrow> Inr signature)))))))"

text \<open>The methods of the RPC server: the namespaces under which the two services are registered.\<close>

definition RegisterAPIs :: "string list" where
  "RegisterAPIs = [''eth_signTransaction'', ''opsigner_signBlockPayload'']"

text \<open>The method names that the client of the repository calls.\<close>

definition client_SignTransaction_method :: string where "client_SignTransaction_method = ''eth_signTransaction''"
definition client_SignBlockPayload_method :: string where "client_SignBlockPayload_method = ''eth_signBlockPayload''"

definition HandleSign ::
  "('a, 'b, 't) signer_lib \<Rightarrow> 'k sign_digest \<Rightarrow> SignerServiceConfig \<Rightarrow> string list option \<Rightarrow> 'a + 'b \<Rightarrow> 'k
    \<Rightarrow> ('k \<times> (int \<times> string + (signer_error + bytes))) outcome" where
  "HandleSign L SignDigest config leaf call k =
     (case AuthMiddleware leaf of
        Inl http \<Rightarrow> Done (k, Inl http)
      | Inr info \<Rightarrow>
          obind (case call of Inl args \<Rightarrow> SignTransaction L SignDigest config info args k
                            | Inr args \<Rightarrow> SignBlockPayload L SignDigest config info args k) (\<lambda>(k, r). Done (k, Inr r)))"

section \<open>Signatures from Cloud KMS\<close>

text \<open>CRC-32 with the Castagnoli polynomial, bit by bit.\<close>

definition crc_bit :: "32 word \<Rightarrow> 32 word" where
  "crc_bit c = (if odd c then drop_bit 1 c XOR 0x82F63B78 else drop_bit 1 c)"

definition crc_byte :: "char \<Rightarrow> 32 word \<Rightarrow> 32 word" where
  "crc_byte b c = (crc_bit ^^ 8) (c XOR word_of_nat (of_char b))"

definition crc32c :: "bytes \<Rightarrow> 32 word" where
  "crc32c data = NOT (fold crc_byte data (NOT 0))"

text \<open>
  The decoder of \<open>encoding/asn1\<close> for a sequence of two integers: a tag, a definite and minimal length,
  and integers in minimal two's complement. Bytes after the second integer are ignored.
\<close>

definition byte :: "char \<Rightarrow> nat" where
  "byte c = of_char c"

fun der_long_length :: "nat \<Rightarrow> bytes \<Rightarrow> nat \<Rightarrow> (nat \<times> bytes) option" where
  "der_long_length 0 bs len = (if len < 128 then None else Some (len, bs))"
| "der_long_length (Suc n) [] len = None"
| "der_long_length (Suc n) (b # bs) len =
     (if len \<ge> 2 ^ 23 then None
      else let len = len * 256 + byte b in if len = 0 then None else der_long_length n bs len)"

fun der_length :: "bytes \<Rightarrow> (nat \<times> bytes) option" where
  "der_length [] = None"
| "der_length (b # bs) =
     (if byte b < 128 then Some (byte b, bs)
      else if byte b = 128 then None
      else der_long_length (byte b - 128) bs 0)"

text \<open>A field with the given tag: its content and the rest.\<close>

definition der_field :: "nat \<Rightarrow> bytes \<Rightarrow> (bytes \<times> bytes) option" where
  "der_field tag bs =
     (case bs of
        [] \<Rightarrow> None
      | b # bs \<Rightarrow>
          (if byte b \<noteq> tag then None
           else case der_length bs of
                  None \<Rightarrow> None
                | Some (len, bs) \<Rightarrow> if len \<le> length bs then Some (take len bs, drop len bs) else None))"

definition bytes_nat :: "bytes \<Rightarrow> nat" where
  "bytes_nat bs = foldl (\<lambda>n b. n * 256 + byte b) 0 bs"

fun der_integer :: "bytes \<Rightarrow> int option" where
  "der_integer [] = None"
| "der_integer [b] = Some (if byte b \<ge> 128 then int (byte b) - 256 else int (byte b))"
| "der_integer (b # c # bs) =
     (if byte b = 0 \<and> byte c < 128 \<or> byte b = 255 \<and> byte c \<ge> 128 then None
      else Some (int (bytes_nat (b # c # bs)) - (if byte b \<ge> 128 then 256 ^ length (b # c # bs) else 0)))"

definition asn1_signature :: "bytes \<Rightarrow> (int \<times> int) option" where
  "asn1_signature der =
     (case der_field 0x30 der of
        None \<Rightarrow> None
      | Some (seq, _) \<Rightarrow>
          (case der_field 2 seq of
             None \<Rightarrow> None
           | Some (r, rest) \<Rightarrow>
               (case der_field 2 rest of
                  None \<Rightarrow> None
                | Some (s, _) \<Rightarrow>
                    (case (der_integer r, der_integer s) of (Some r, Some s) \<Rightarrow> Some (r, s) | _ \<Rightarrow> None))))"

text \<open>\<open>big.Int.Bytes\<close>: the absolute value, big-endian, without leading zeros.\<close>

fun nat_bytes :: "nat \<Rightarrow> bytes" where
  "nat_bytes n = (if n = 0 then [] else nat_bytes (n div 256) @ [char_of (n mod 256)])"

declare nat_bytes.simps [simp del]

definition big_Bytes :: "int \<Rightarrow> bytes" where
  "big_Bytes n = nat_bytes (nat \<bar>n\<bar>)"

text \<open>\<open>copy(dst[off:], src)\<close>; a negative offset panics.\<close>

definition copy_at :: "int \<Rightarrow> bytes \<Rightarrow> bytes \<Rightarrow> bytes outcome" where
  "copy_at off src dst =
     (if off < 0 then Panic ''slice bounds out of range''
      else let k = nat off; src = take (length dst - k) src
           in Done (take k dst @ src @ drop (k + length src) dst))"

definition curveOrder :: int where
  "curveOrder = 0xFFFFFFFFFFFFFFFFFFFFFFFFFFFFFFFEBAAEDCE6AF48A03BBFD25E8CD0364141"

definition convertToCompactSignature :: "bytes \<Rightarrow> (error + bytes) outcome" where
  "convertToCompactSignature derSignature =
     (case asn1_signature derSignature of
        None \<Rightarrow> Done (Inl (Errorf ''asn1.Unmarshal error''))
      | Some (r, s) \<Rightarrow>
          (let s = (if s > curveOrder div 2 then curveOrder - s else s);
               rBytes = big_Bytes r; sBytes = big_Bytes s
           in obind (copy_at (32 - int (length rBytes)) rBytes (replicate 64 CHR 0x00)) (\<lambda>signature.
              obind (copy_at (64 - int (length sBytes)) sBytes signature) (\<lambda>signature. Done (Inr signature)))))"

text \<open>The first two conditions of the check never hold for a byte.\<close>

definition compactSignatureMalleabilityCheck :: "bytes \<Rightarrow> error option" where
  "compactSignatureMalleabilityCheck sig =
     (let b = byte (sig ! 32)
      in if (b div 128 = 1) \<noteq> (b mod 256 \<ge> 128) then Some (Errorf ''highest bit'')
         else if b mod 256 \<ge> 128 then Some (Errorf ''highest bit'')
         else None)"

text \<open>\<open>RecoverPubkey\<close> and \<open>VerifySignature\<close> of secp256k1, the public key of a PEM text, and the KMS client.\<close>

record 'k kms_lib =
  secp_RecoverPubkey :: "bytes \<Rightarrow> bytes \<Rightarrow> error + bytes"
  secp_VerifySignature :: "bytes \<Rightarrow> bytes \<Rightarrow> bytes \<Rightarrow> bool"
  pem_Decode :: "bytes \<Rightarrow> bytes option \<times> bytes"
  asn1_publicKeyInfo :: "bytes \<Rightarrow> error + (nat list \<times> bytes \<times> bytes) \<times> bytes"
  asn1_ObjectIdentifier :: "bytes \<Rightarrow> error + nat list \<times> bytes"
  kms_GetPublicKey :: "string \<Rightarrow> 'k \<Rightarrow> 'k \<times> (error + bytes \<times> int)"
  kms_AsymmetricSign :: "string \<Rightarrow> bytes \<Rightarrow> int \<Rightarrow> 'k \<Rightarrow> 'k \<times> (error + string \<times> bool \<times> bytes \<times> int)"

fun recovery_from :: "'k kms_lib \<Rightarrow> bytes \<Rightarrow> bytes \<Rightarrow> bytes \<Rightarrow> nat list \<Rightarrow> error option \<Rightarrow> error + nat" where
  "recovery_from K signature digest pubKey [] errorRes =
     Inl (Wrapf ''failed to calculate recovery id, should never happen:'' errorRes)"
| "recovery_from K signature digest pubKey (i # is) errorRes =
     (case secp_RecoverPubkey K digest (signature @ [char_of i]) of
        Inl err \<Rightarrow> recovery_from K signature digest pubKey is (Some err)
      | Inr publicKey \<Rightarrow>
          if publicKey = pubKey then Inr i else recovery_from K signature digest pubKey is errorRes)"

definition calculateRecoveryID :: "'k kms_lib \<Rightarrow> bytes \<Rightarrow> bytes \<Rightarrow> bytes \<Rightarrow> error + nat" where
  "calculateRecoveryID K signature digest pubKey = recovery_from K signature digest pubKey [0, 1, 2, 3] None"

definition convertToCompactRecoverableSignature :: "'k kms_lib \<Rightarrow> bytes \<Rightarrow> bytes \<Rightarrow> bytes \<Rightarrow> (error + bytes) outcome" where
  "convertToCompactRecoverableSignature K derSignature digest publicKey =
     obind (convertToCompactSignature derSignature) (\<lambda>r. Done (case r of
        Inl err \<Rightarrow> Inl (Wrapf ''failed to convert to compact signature:'' (Some err))
      | Inr signature \<Rightarrow>
          (case compactSignatureMalleabilityCheck signature of
             Some err \<Rightarrow> Inl (Wrapf ''signature failed malleability check:'' (Some err))
           | None \<Rightarrow>
               if \<not> secp_VerifySignature K publicKey digest signature then
                 Inl (Errorf ''signature could not be verified with public key'')
               else
                 (case calculateRecoveryID K signature digest publicKey of
                    Inl err \<Rightarrow> Inl (Wrapf ''failed to calculate recovery id:'' (Some err))
                  | Inr recId \<Rightarrow> Inr (signature @ [char_of recId])))))"

definition oidPublicKeyECDSA :: "nat list" where "oidPublicKeyECDSA = [1, 2, 840, 10045, 2, 1]"
definition oidNamedCurveSECP256K1 :: "nat list" where "oidNamedCurveSECP256K1 = [1, 3, 132, 0, 10]"

definition x509ParseECDSAPublicKey :: "'k kms_lib \<Rightarrow> bytes \<Rightarrow> (error + bytes) outcome" where
  "x509ParseECDSAPublicKey K derBytes =
     (case asn1_publicKeyInfo K derBytes of
        Inl err \<Rightarrow> Done (Inl err)
      | Inr ((algorithm, paramsData, asn1Data), rest) \<Rightarrow>
          if length rest \<noteq> 0 then Done (Inl (Errorf ''x509: trailing data after ASN.1 of public-key''))
          else if algorithm \<noteq> oidPublicKeyECDSA then Done (Inl (Errorf ''x509: unknown public key algorithm''))
          else
            (case asn1_ObjectIdentifier K paramsData of
               Inl err \<Rightarrow> Done (Inl (Wrapf ''x509: failed to parse ECDSA parameters as named curve:'' (Some err)))
             | Inr (namedCurveOID, rest) \<Rightarrow>
                 if length rest \<noteq> 0 then Done (Inl (Errorf ''x509: trailing data after ECDSA parameters''))
                 else if namedCurveOID \<noteq> oidNamedCurveSECP256K1 then Done (Inl (Errorf ''x509: unsupported elliptic curve''))
                 else case asn1Data of
                        [] \<Rightarrow> Panic ''index out of range''
                      | b # _ \<Rightarrow>
                          if byte b \<noteq> 4 then Done (Inl (Errorf ''x509: only uncompressed keys are supported''))
                          else Done (Inr asn1Data)))"

definition decodePublicKeyPEM :: "'k kms_lib \<Rightarrow> bytes \<Rightarrow> (error + bytes) outcome" where
  "decodePublicKeyPEM K key =
     (let (block, rest) = pem_Decode K key
      in if length rest > 0 then
           Done (Inl (Errorf ''crypto: failed to parse PEM string, not all bytes in PEM key were decoded''))
         else
           obind (deref block) (\<lambda>der. obind (x509ParseECDSAPublicKey K der) (\<lambda>r. Done (case r of
             Inl err \<Rightarrow> Inl (Wrapf ''crypto: failed to parse PEM string:'' (Some err))
           | Inr pk \<Rightarrow> Inr pk))))"

definition GetPublicKey :: "'k kms_lib \<Rightarrow> string \<Rightarrow> 'k \<Rightarrow> ('k \<times> (error + bytes)) outcome" where
  "GetPublicKey K keyName k =
     (case kms_GetPublicKey K keyName k of
        (k, Inl err) \<Rightarrow> Done (k, Inl (Wrapf ''kms get public key request failed:'' (Some err)))
      | (k, Inr (pem, pemCrc)) \<Rightarrow>
          if uint (crc32c pem) \<noteq> pemCrc then Done (k, Inl (Errorf ''cloud kms public key response corrupted in transit''))
          else obind (decodePublicKeyPEM K pem) (\<lambda>r. Done (k, r)))"

text \<open>A sign request has the name of the key, the digest and the checksum of the digest.\<close>

definition createSignRequestFromDigest :: "string \<Rightarrow> bytes \<Rightarrow> string \<times> bytes \<times> int" where
  "createSignRequestFromDigest keyName digest = (keyName, digest, uint (crc32c digest))"

definition kms_SignDigest :: "'k kms_lib \<Rightarrow> 'k sign_digest" where
  "kms_SignDigest K keyName digest k =
     obind (GetPublicKey K keyName k) (\<lambda>(k, r). case r of
       Inl err \<Rightarrow> Done (k, Inl (Wrapf ''failed to get public key:'' (Some err)))
     | Inr publicKey \<Rightarrow>
         (let (name, dg, crc) = createSignRequestFromDigest keyName digest
          in case kms_AsymmetricSign K name dg crc k of
               (k, Inl err) \<Rightarrow> Done (k, Inl (Wrapf ''cloud kms sign request failed:'' (Some err)))
             | (k, Inr (resName, verified, sig, sigCrc)) \<Rightarrow>
                 if resName \<noteq> name then Done (k, Inl (Errorf ''cloud kms sign request corrupted in transit''))
                 else if \<not> verified then Done (k, Inl (Errorf ''cloud kms sign request corrupted in transit''))
                 else if uint (crc32c sig) \<noteq> sigCrc then Done (k, Inl (Errorf ''cloud kms sign response corrupted in transit''))
                 else obind (convertToCompactRecoverableSignature K sig digest publicKey) (\<lambda>r. Done (k, r))))"

section \<open>What is signed\<close>

lemma obind_Done: "obind x f = Done y \<longleftrightarrow> (\<exists>z. x = Done z \<and> f z = Done y)"
  by (cases x) auto

text \<open>The conditions under which the service asks for a signature.\<close>

definition tx_authorized :: "('a, 'b, 't) signer_lib \<Rightarrow> SignerServiceConfig \<Rightarrow> string \<Rightarrow> 'a \<Rightarrow> AuthConfig \<Rightarrow> bool" where
  "tx_authorized L config name args ac \<longleftrightarrow>
     ac \<in> set (Auth config) \<and> ac_ClientName ac = name \<and> name \<noteq> [] \<and> ta_Check L args = None \<and>
     (ac_ToAddresses ac = [] \<or>
      (\<exists>to. ta_To L args = Some to \<and> (\<exists>a \<in> set (ac_ToAddresses ac). map to_lower a = map to_lower (addr_Hex L to)))) \<and>
     (ac_MaxValue ac = [] \<or>
      (\<exists>mx v. hex_DecodeBig L (ac_MaxValue ac) = Inr mx \<and> ta_Value L args = Some v \<and> v \<le> mx))"

definition payload_authorized :: "('a, 'b, 't) signer_lib \<Rightarrow> SignerServiceConfig \<Rightarrow> string \<Rightarrow> 'b \<Rightarrow> AuthConfig \<Rightarrow> bool" where
  "payload_authorized L config name args ac \<longleftrightarrow>
     ac \<in> set (Auth config) \<and> ac_ClientName ac = name \<and> name \<noteq> [] \<and> bp_Check L args = None \<and>
     bp_SenderAddress L args = Some (ac_FromAddress ac) \<and>
     (\<exists>chain. bp_ChainID L args = Some chain \<and> big_Uint64 chain = ac_ChainID ac)"

lemma GetAuthConfigForClient_Inr:
  assumes "GetAuthConfigForClient config name from = Inr ac"
  shows "ac \<in> set (Auth config)" "ac_ClientName ac = name" "name \<noteq> []"
  using assms by (auto simp: GetAuthConfigForClient_def find_Some_iff split: if_splits option.splits)

lemma to_allowed_True:
  "to_allowed L ac args = Done True \<longleftrightarrow> ac_ToAddresses ac = [] \<or>
     (\<exists>to. ta_To L args = Some to \<and> (\<exists>a \<in> set (ac_ToAddresses ac). map to_lower a = map to_lower (addr_Hex L to)))"
  by (auto simp: to_allowed_def deref_def obind_Done containsNormalized_def list_ex_iff split: option.splits)

lemma value_allowed_True:
  "value_allowed L ac args = Done True \<longleftrightarrow> ac_MaxValue ac = [] \<or>
     (\<exists>mx v. hex_DecodeBig L (ac_MaxValue ac) = Inr mx \<and> ta_Value L args = Some v \<and> v \<le> mx)"
  by (auto simp: value_allowed_def deref_def MaxValueToInt_def obind_Done split: option.splits sum.splits)

text \<open>The service relies on its provider of signatures for one thing: a signature it returns is a
  signature of the digest with the key.\<close>

locale signature_provider =
  fixes sign :: "'k sign_digest" and valid :: "string \<Rightarrow> bytes \<Rightarrow> bytes \<Rightarrow> bool"
  assumes sign_valid: "sign key digest k = Done (k', Inr sig) \<Longrightarrow> valid key digest sig"
begin

lemma SignTransaction_safe:
  assumes "SignTransaction L sign config info args k = Done (k', r)"
  shows "k' = k \<and> (\<exists>err. r = Inl err) \<or>
    (\<exists>ac tx. tx_authorized L config (ClientName info) args ac \<and> ta_ToTransaction L args = Inr tx \<and>
      (\<forall>raw. r = Inr raw \<longrightarrow>
        (\<exists>sig stx from. valid (ac_KeyName ac) (signer_Hash L (tx_ChainId L tx) tx) sig \<and>
          tx_WithSignature L (tx_ChainId L tx) sig tx = Inr stx \<and> signer_Sender L (tx_ChainId L tx) stx = Inr from \<and>
          ta_From L args \<in> {None, Some from} \<and> tx_MarshalBinary L stx = Inr raw)))"
proof (cases "\<exists>ac tx. GetAuthConfigForClient config (ClientName info) None = Inr ac \<and> ta_Check L args = None \<and>
      to_allowed L ac args = Done True \<and> value_allowed L ac args = Done True \<and> ta_ToTransaction L args = Inr tx")
  case True
  then obtain ac tx where *: "GetAuthConfigForClient config (ClientName info) None = Inr ac" "ta_Check L args = None"
      "to_allowed L ac args = Done True" "value_allowed L ac args = Done True" "ta_ToTransaction L args = Inr tx" by blast
  have auth: "tx_authorized L config (ClientName info) args ac"
    using *(2) GetAuthConfigForClient_Inr [OF *(1)] *(3) [unfolded to_allowed_True] *(4) [unfolded value_allowed_True]
    unfolding tx_authorized_def by blast
  have run: "sign_tx L sign ac args tx k = Done (k', r)" using assms by (simp add: SignTransaction_def *)
  then obtain k1 r1 where s: "sign (ac_KeyName ac) (signer_Hash L (tx_ChainId L tx) tx) k = Done (k1, r1)"
    by (auto simp: sign_tx_def obind_Done Let_def)
  have "\<exists>sig stx from. valid (ac_KeyName ac) (signer_Hash L (tx_ChainId L tx) tx) sig \<and>
          tx_WithSignature L (tx_ChainId L tx) sig tx = Inr stx \<and> signer_Sender L (tx_ChainId L tx) stx = Inr from \<and>
          ta_From L args \<in> {None, Some from} \<and> tx_MarshalBinary L stx = Inr raw" if "r = Inr raw" for raw
    using run s that sign_valid by (cases r1) (auto simp: sign_tx_def Let_def split: sum.splits if_splits, blast+)
  then show ?thesis using auth *(5) by blast
next
  case False
  then have "k' = k \<and> (\<exists>err. r = Inl err)"
    using assms by (auto simp: SignTransaction_def obind_Done split: sum.splits option.splits if_splits)
  then show ?thesis ..
qed

lemma SignBlockPayload_safe:
  assumes "SignBlockPayload L sign config info args k = Done (k', r)"
  shows "k' = k \<and> (\<exists>err. r = Inl err) \<or>
    (\<exists>ac hash. payload_authorized L config (ClientName info) args ac \<and> bp_ToSigningHash L args = Inr hash \<and>
      (\<forall>sig. r = Inr sig \<longrightarrow> valid (ac_KeyName ac) hash sig))"
proof (cases "\<exists>ac chain hash. GetAuthConfigForClient config (ClientName info) (bp_SenderAddress L args) = Inr ac \<and> bp_Check L args = None \<and>
      bp_SenderAddress L args = Some (ac_FromAddress ac) \<and> bp_ChainID L args = Some chain \<and> big_Uint64 chain = ac_ChainID ac \<and>
      bp_ToSigningHash L args = Inr hash")
  case True
  then obtain ac chain hash where *: "GetAuthConfigForClient config (ClientName info) (bp_SenderAddress L args) = Inr ac"
      "bp_Check L args = None" "bp_SenderAddress L args = Some (ac_FromAddress ac)" "bp_ChainID L args = Some chain"
      "big_Uint64 chain = ac_ChainID ac" "bp_ToSigningHash L args = Inr hash" by blast
  have "payload_authorized L config (ClientName info) args ac"
    using *(2-5) GetAuthConfigForClient_Inr [OF *(1)] unfolding payload_authorized_def by blast
  moreover obtain k1 r1 where "sign (ac_KeyName ac) hash k = Done (k1, r1)"
    using assms * by (auto simp: SignBlockPayload_def deref_def obind_Done)
  then have "valid (ac_KeyName ac) hash sig" if "r = Inr sig" for sig
    using assms that sign_valid * by (cases r1) (auto simp: SignBlockPayload_def deref_def)
  ultimately show ?thesis using *(6) by blast
next
  case False
  then have "k' = k \<and> (\<exists>err. r = Inl err)"
    using assms by (auto simp: SignBlockPayload_def deref_def obind_Done split: sum.splits option.splits if_splits)
  then show ?thesis ..
qed

end

text \<open>A signature of Cloud KMS: 64 bytes that verify under the public key of the key, then a recovery ID
  with which that public key is recovered; the high bit of the second half is clear.\<close>

definition kms_valid :: "'k kms_lib \<Rightarrow> string \<Rightarrow> bytes \<Rightarrow> bytes \<Rightarrow> bool" where
  "kms_valid K key digest sig \<longleftrightarrow>
     (\<exists>pub k k' compact recId. GetPublicKey K key k = Done (k', Inr pub) \<and> sig = compact @ [char_of recId] \<and>
        length compact = 64 \<and> recId < (4 :: nat) \<and> byte (compact ! 32) < 128 \<and>
        secp_VerifySignature K pub digest compact \<and> secp_RecoverPubkey K digest sig = Inr pub)"

lemma copy_at_length: "copy_at off src dst = Done r \<Longrightarrow> length r = length dst"
  by (auto simp: copy_at_def Let_def min_def split: if_splits)

lemma convertToCompactSignature_length: "convertToCompactSignature der = Done (Inr sig) \<Longrightarrow> length sig = 64"
  by (auto simp: convertToCompactSignature_def Let_def obind_Done dest!: copy_at_length split: option.splits)

lemma recovery_from_Inr:
  "recovery_from K sig digest pub is e = Inr i \<Longrightarrow> i \<in> set is \<and> secp_RecoverPubkey K digest (sig @ [char_of i]) = Inr pub"
  by (induction "is" arbitrary: e) (auto split: sum.splits if_splits)

lemma malleability_None: "compactSignatureMalleabilityCheck sig = None \<Longrightarrow> byte (sig ! 32) < 128"
  by (auto simp: compactSignatureMalleabilityCheck_def byte_def Let_def split: if_splits)

lemma convertToCompactRecoverableSignature_Inr:
  assumes "convertToCompactRecoverableSignature K der digest pub = Done (Inr sig)"
  shows "\<exists>compact recId. sig = compact @ [char_of recId] \<and> length compact = 64 \<and> recId < (4 :: nat) \<and> byte (compact ! 32) < 128 \<and>
        secp_VerifySignature K pub digest compact \<and> secp_RecoverPubkey K digest sig = Inr pub"
proof -
  from assms obtain x where x: "convertToCompactSignature der = Done x"
    by (auto simp: convertToCompactRecoverableSignature_def obind_Done)
  with assms obtain compact recId where c: "convertToCompactSignature der = Done (Inr compact)"
      "compactSignatureMalleabilityCheck compact = None" "secp_VerifySignature K pub digest compact"
      "calculateRecoveryID K compact digest pub = Inr recId" "sig = compact @ [char_of recId]"
    by (auto simp: convertToCompactRecoverableSignature_def split: sum.split_asm option.split_asm if_split_asm)
  from recovery_from_Inr [OF c(4) [unfolded calculateRecoveryID_def]] have "recId < 4" "secp_RecoverPubkey K digest sig = Inr pub"
    by (auto simp: c(5))
  with c convertToCompactSignature_length malleability_None show ?thesis by blast
qed

interpretation kms: signature_provider "kms_SignDigest K" "kms_valid K" for K :: "'k kms_lib"
proof
  fix key digest and k k' :: 'k and sig
  assume run: "kms_SignDigest K key digest k = Done (k', Inr sig)"
  then obtain k1 r where g: "GetPublicKey K key k = Done (k1, r)" by (auto simp: kms_SignDigest_def obind_Done)
  with run obtain pub where p: "GetPublicKey K key k = Done (k1, Inr pub)" by (cases r) (auto simp: kms_SignDigest_def)
  obtain k2 a where a: "kms_AsymmetricSign K key digest (uint (crc32c digest)) k1 = (k2, a)" by fastforce
  with run p obtain der where c: "convertToCompactRecoverableSignature K der digest pub = Done (Inr sig)"
    by (cases a) (auto simp: kms_SignDigest_def createSignRequestFromDigest_def obind_Done split: if_split_asm)
  from p convertToCompactRecoverableSignature_Inr [OF c] show "kms_valid K key digest sig"
    unfolding kms_valid_def by blast
qed

section \<open>Compact signatures\<close>

lemma bytes_nat_snoc [simp]: "bytes_nat (bs @ [b]) = bytes_nat bs * 256 + byte b" "bytes_nat [] = 0"
  by (simp_all add: bytes_nat_def)

lemma bytes_nat_nat_bytes: "bytes_nat (nat_bytes n) = n"
  by (induction n rule: nat_bytes.induct) (subst nat_bytes.simps, simp add: byte_def)

lemma length_nat_bytes: "n < 256 ^ k \<Longrightarrow> length (nat_bytes n) \<le> k"
proof (induction n arbitrary: k rule: nat_bytes.induct)
  case (1 n)
  show ?case
  proof (cases "n = 0")
    case False
    with "1.prems" obtain j where j: "k = Suc j" by (cases k) auto
    have "n div 256 < 256 ^ j" using "1.prems" by (simp add: j less_mult_imp_div_less mult.commute)
    with False "1.IH" [of j] show ?thesis by (subst nat_bytes.simps) (simp add: j)
  qed (subst nat_bytes.simps, simp)
qed

lemma bytes_nat_pad: "bytes_nat (replicate k CHR 0x00 @ bs) = bytes_nat bs"
proof -
  have "foldl (\<lambda>n b. n * 256 + byte b) 0 (replicate k CHR 0x00) = 0" by (induction k) (simp_all add: byte_def)
  then show ?thesis by (simp add: bytes_nat_def)
qed

text \<open>The properties below are about signatures with both numbers between 1 and the order of the curve.\<close>

lemma curveOrder_bound: "0 \<le> n \<Longrightarrow> n < curveOrder \<Longrightarrow> nat n < 256 ^ 32"
  by (simp add: curveOrder_def nat_less_iff)

lemma compact_halves:
  assumes "nat r < 256 ^ 32" "nat s < 256 ^ 32" "0 \<le> r" "0 \<le> s"
  shows "\<exists>a b. obind (copy_at (32 - int (length (big_Bytes r))) (big_Bytes r) (replicate 64 CHR 0x00)) (\<lambda>sig.
      copy_at (64 - int (length (big_Bytes s))) (big_Bytes s) sig) = Done (a @ b) \<and> length a = 32 \<and> length b = 32 \<and>
    bytes_nat a = nat r \<and> bytes_nat b = nat s"
proof -
  let ?r = "big_Bytes r" and ?s = "big_Bytes s"
  have l: "length ?r \<le> 32" "length ?s \<le> 32" using assms by (auto simp: big_Bytes_def intro: length_nat_bytes)
  define a where "a = replicate (32 - length ?r) CHR 0x00 @ ?r"
  define b where "b = replicate (32 - length ?s) CHR 0x00 @ ?s"
  have la: "length a = 32" "length b = 32" using l by (simp_all add: a_def b_def)
  have n: "nat (32 - int (length ?r)) = 32 - length ?r" "nat (64 - int (length ?s)) = 64 - length ?s" using l by auto
  have 1: "copy_at (32 - int (length ?r)) ?r (replicate 64 CHR 0x00) = Done (a @ replicate 32 CHR 0x00)"
    using l by (simp add: copy_at_def n a_def Let_def min_def)
  have 2: "copy_at (64 - int (length ?s)) ?s (a @ replicate 32 CHR 0x00) = Done (a @ b)"
    using l by (simp add: copy_at_def n b_def Let_def min_def la)
  have "bytes_nat a = nat r" "bytes_nat b = nat s"
    using assms by (simp_all add: a_def b_def bytes_nat_pad big_Bytes_def bytes_nat_nat_bytes)
  with 1 2 la show ?thesis by auto
qed

lemma bytes_nat_Cons: "bytes_nat (b # bs) = byte b * 256 ^ length bs + bytes_nat bs"
  by (induction bs rule: rev_induct) (simp_all add: bytes_nat_def algebra_simps)

lemma low_second_half:
  assumes "length b = 32" "bytes_nat b < 2 ^ 255"
  shows "byte (b ! 0) < 128"
proof -
  obtain c cs where b: "b = c # cs" "length cs = 31" using assms(1) by (cases b) auto
  have "byte c * 256 ^ 31 < 2 ^ 255" using assms(2) by (simp add: b bytes_nat_Cons)
  then show ?thesis by (simp add: b)
qed

section \<open>The application\<close>

text \<open>
  The servers an application holds, in the order of \<open>Stop\<close>. \<open>app_lib\<close> has the results of starting and
  stopping them; \<open>app_stopped\<close> logs what was stopped.
\<close>

datatype app_server = RPCServer | PprofServer | MetricsServer

record app_lib =
  al_cfg_Check :: "error option"
  al_pprof_ListenEnabled :: bool
  al_pprof_Start :: "error option"
  al_metrics_Enabled :: bool
  al_metrics_Start :: "error option"
  al_ReadFile_ca :: "error + bytes"
  al_certman_New :: "error option"
  al_certman_Watch :: "error option"
  al_service_config :: "error + SignerServiceConfig"
  al_NewKeyManagementClient :: "error option"
  al_rpc_Start :: "error option"
  al_Stop :: "app_server \<Rightarrow> error option"

record SignerApp =
  app_servers :: "app_server set"
  app_signer :: "SignerServiceConfig option"
  app_stopped :: "app_server list"

definition initPprof :: "app_lib \<Rightarrow> SignerApp \<Rightarrow> SignerApp \<times> error option" where
  "initPprof A s =
     (if \<not> al_pprof_ListenEnabled A then (s, None)
      else let s = s\<lparr>app_servers := insert PprofServer (app_servers s)\<rparr>
           in (s, map_option (\<lambda>err. Wrapf ''failed to start pprof server:'' (Some err)) (al_pprof_Start A)))"

definition initMetrics :: "app_lib \<Rightarrow> SignerApp \<Rightarrow> SignerApp \<times> error option" where
  "initMetrics A s =
     (if \<not> al_metrics_Enabled A then (s, None)
      else case al_metrics_Start A of
             Some err \<Rightarrow> (s, Some (Wrapf ''failed to start metrics server:'' (Some err)))
           | None \<Rightarrow> (s\<lparr>app_servers := insert MetricsServer (app_servers s)\<rparr>, None))"

definition initRPC :: "('a, 'b, 't) signer_lib \<Rightarrow> app_lib \<Rightarrow> SignerApp \<Rightarrow> (SignerApp \<times> error option) outcome" where
  "initRPC L A s =
     (case al_ReadFile_ca A of
        Inl _ \<Rightarrow> Done (s, Some (Errorf ''failed to read tls ca cert: ''))
      | Inr _ \<Rightarrow>
          (case al_certman_New A of
             Some err \<Rightarrow> Done (s, Some (Wrapf ''failed to read tls cert or key:'' (Some err)))
           | None \<Rightarrow>
               (case al_certman_Watch A of
                  Some err \<Rightarrow> Done (s, Some (Wrapf ''failed to start certman watcher:'' (Some err)))
                | None \<Rightarrow>
                    (let s = s\<lparr>app_servers := insert RPCServer (app_servers s)\<rparr>
                     in case ReadConfig L (al_service_config A) of
                          Inl err \<Rightarrow> Done (s, Some (Wrapf ''failed to read service config:'' (Some err)))
                        | Inr serviceCfg \<Rightarrow>
                            if al_NewKeyManagementClient A \<noteq> None then Panic ''failed to initialize kms client''
                            else Done (s\<lparr>app_signer := Some serviceCfg\<rparr>,
                              map_option (\<lambda>err. Wrapf ''error starting RPC server:'' (Some err)) (al_rpc_Start A))))))"

definition app_init :: "('a, 'b, 't) signer_lib \<Rightarrow> app_lib \<Rightarrow> SignerApp \<Rightarrow> (SignerApp \<times> error option) outcome" where
  "app_init L A s =
     (case initPprof A s of
        (s, Some err) \<Rightarrow> Done (s, Some (Wrapf ''pprof error:'' (Some err)))
      | (s, None) \<Rightarrow>
          (case initMetrics A s of
             (s, Some err) \<Rightarrow> Done (s, Some (Wrapf ''metrics error:'' (Some err)))
           | (s, None) \<Rightarrow>
               obind (initRPC L A s) (\<lambda>(s, e). Done (s, map_option (\<lambda>err. Wrapf ''metrics error:'' (Some err)) e))))"

text \<open>The errors that \<open>Stop\<close> joins.\<close>

definition app_Stop :: "app_lib \<Rightarrow> SignerApp \<Rightarrow> SignerApp \<times> error list" where
  "app_Stop A s =
     (let srvs = filter (\<lambda>x. x \<in> app_servers s) [RPCServer, PprofServer, MetricsServer]
      in (s\<lparr>app_stopped := app_stopped s @ srvs\<rparr>,
          concat (map (\<lambda>x. case al_Stop A x of None \<Rightarrow> [] | Some err \<Rightarrow>
            [Wrapf (case x of RPCServer \<Rightarrow> ''failed to stop RPC server:'' | PprofServer \<Rightarrow> ''failed to stop pprof server:''
               | MetricsServer \<Rightarrow> ''failed to stop metrics server:'') (Some err)]) srvs)))"

definition InitFromConfig :: "('a, 'b, 't) signer_lib \<Rightarrow> app_lib \<Rightarrow> (SignerApp \<times> error list) outcome" where
  "InitFromConfig L A =
     (let app = \<lparr>app_servers = {}, app_signer = None, app_stopped = []\<rparr>
      in case al_cfg_Check A of
           Some err \<Rightarrow> Done (app, [Wrapf ''invalid config:'' (Some err)])
         | None \<Rightarrow>
             obind (app_init L A app) (\<lambda>(app, e). case e of
               Some err \<Rightarrow> (let (app, errs) = app_Stop A app in Done (app, err # errs))
             | None \<Rightarrow> Done (app, [])))"

lemma initPprof_keeps: "app_stopped (fst (initPprof A s)) = app_stopped s"
  by (simp add: initPprof_def Let_def)

lemma initMetrics_keeps: "app_stopped (fst (initMetrics A s)) = app_stopped s"
  by (simp add: initMetrics_def split: option.split)

lemma initRPC_keeps:
  assumes "initRPC L A s = Done (s1, e)"
  shows "app_stopped s1 = app_stopped s" and "e = None \<Longrightarrow> app_signer s1 \<noteq> None"
  using assms by (simp_all add: initRPC_def Let_def split: option.split_asm sum.split_asm if_split_asm) auto

lemma app_init_keeps:
  assumes "app_init L A s = Done (s1, e)"
  shows "app_stopped s1 = app_stopped s \<and> (e = None \<longrightarrow> app_signer s1 \<noteq> None)"
proof (cases "snd (initPprof A s)")
  case None
  then obtain a where a: "initPprof A s = (a, None)" by (metis prod.collapse)
  then have ka: "app_stopped a = app_stopped s" using initPprof_keeps [of A s] by simp
  show ?thesis
  proof (cases "snd (initMetrics A a)")
    case None
    then obtain b where b: "initMetrics A a = (b, None)" by (metis prod.collapse)
    then have kb: "app_stopped b = app_stopped a" using initMetrics_keeps [of A a] by simp
    from assms a b obtain e' where "initRPC L A b = Done (s1, e')" "e = map_option (\<lambda>err. Wrapf ''metrics error:'' (Some err)) e'"
      by (auto simp: app_init_def obind_Done)
    with initRPC_keeps [OF this(1)] ka kb show ?thesis by simp
  next
    case (Some err)
    then obtain b where b: "initMetrics A a = (b, Some err)" by (metis prod.collapse)
    with assms a ka initMetrics_keeps [of A a] show ?thesis by (auto simp: app_init_def)
  qed
next
  case (Some err)
  then obtain a where a: "initPprof A s = (a, Some err)" by (metis prod.collapse)
  with assms initPprof_keeps [of A s] show ?thesis by (auto simp: app_init_def)
qed

lemma app_Stop_servers: "app_servers (fst (app_Stop A s)) = app_servers s"
  by (simp add: app_Stop_def Let_def)

lemma app_Stop_all: "app_servers s \<subseteq> set (app_stopped (fst (app_Stop A s)))"
proof
  fix x assume "x \<in> app_servers s"
  then show "x \<in> set (app_stopped (fst (app_Stop A s)))" by (cases x) (simp_all add: app_Stop_def Let_def)
qed

text \<open>A failed start stops every server that it created, and a successful one has a signer and stops none.\<close>

lemma InitFromConfig_stops:
  assumes "InitFromConfig L A = Done (app, errs)"
  shows "if errs = [] then app_stopped app = [] \<and> app_signer app \<noteq> None else app_servers app \<subseteq> set (app_stopped app)"
proof (cases "al_cfg_Check A")
  case None
  with assms obtain s1 e where init: "app_init L A \<lparr>app_servers = {}, app_signer = None, app_stopped = []\<rparr> = Done (s1, e)"
    by (auto simp: InitFromConfig_def obind_Done Let_def)
  show ?thesis
  proof (cases e)
    case e: None
    with assms None init app_init_keeps [OF init] show ?thesis by (auto simp: InitFromConfig_def)
  next
    case (Some err)
    obtain s2 errs' where stop: "app_Stop A s1 = (s2, errs')" by (cases "app_Stop A s1")
    with assms None init Some have "app = s2" "errs = err # errs'" by (auto simp: InitFromConfig_def)
    with app_Stop_all [of s1 A] app_Stop_servers [of A s1] stop show ?thesis by simp
  qed
next
  case (Some err)
  with assms show ?thesis by (auto simp: InitFromConfig_def Let_def)
qed

section \<open>A signer for evaluation\<close>

definition demo_signer :: "(unit, int, unit) signer_lib" where
  "demo_signer = \<lparr>hex_Decode = Inr, hex_DecodeBig = (\<lambda>t. if t = ''0x2'' then Inr 2 else Inl (Errorf ''invalid hex'')),
     addr_Hex = (\<lambda>a. ''0x'' @ a), ta_Check = (\<lambda>_. None), ta_From = (\<lambda>_. None), ta_To = (\<lambda>_. Some ''Aa''), ta_Value = (\<lambda>_. Some 1),
     ta_ToTransaction = Inr, tx_ChainId = (\<lambda>_. 10), signer_Hash = (\<lambda>_ _. ''digest''), tx_WithSignature = (\<lambda>_ _. Inr),
     signer_Sender = (\<lambda>_ _. Inr ''from''), tx_MarshalBinary = (\<lambda>_. Inr ''raw''), bp_Check = (\<lambda>_. None),
     bp_SenderAddress = (\<lambda>_. Some ''from''), bp_ChainID = Some, bp_ToSigningHash = (\<lambda>_. Inr ''hash'')\<rparr>"

definition demo_auth :: AuthConfig where
  "demo_auth = \<lparr>ac_ClientName = ''client'', ac_KeyName = ''key'', ac_ChainID = 10, ac_FromAddress = ''from'',
     ac_ToAddresses = [''0xAA''], ac_MaxValue = ''0x2''\<rparr>"

definition demo_der :: bytes where
  "demo_der = map char_of [0x30, 6, 2, 1, 1, 2, 1, 1 :: nat]"

definition demo_kms :: "unit kms_lib" where
  "demo_kms = \<lparr>secp_RecoverPubkey = (\<lambda>_ _. Inr [CHR 0x04]), secp_VerifySignature = (\<lambda>_ _ _. True), pem_Decode = (\<lambda>_. (Some [], [])),
     asn1_publicKeyInfo = (\<lambda>_. Inr ((oidPublicKeyECDSA, [], [CHR 0x04]), [])),
     asn1_ObjectIdentifier = (\<lambda>_. Inr (oidNamedCurveSECP256K1, [])), kms_GetPublicKey = (\<lambda>_ k. (k, Inr ([], uint (crc32c [])))),
     kms_AsymmetricSign = (\<lambda>name _ _ k. (k, Inr (name, True, demo_der, uint (crc32c demo_der))))\<rparr>"

lemma demo_asn1: "asn1_signature demo_der = Some (1, 1)"
  by code_simp

lemma demo_compact:
  "convertToCompactSignature demo_der =
     Done (Inr (replicate 31 CHR 0x00 @ [CHR 0x01] @ replicate 31 CHR 0x00 @ [CHR 0x01]))"
  by code_simp

lemma demo_SignDigest: "\<exists>sig. kms_SignDigest demo_kms ''key'' digest k = Done ((), Inr sig)"
proof -
  have "GetPublicKey demo_kms ''key'' k = Done ((), Inr [CHR 0x04])"
    by (simp add: GetPublicKey_def demo_kms_def decodePublicKeyPEM_def deref_def x509ParseECDSAPublicKey_def byte_def)
  moreover have "\<exists>sig. convertToCompactRecoverableSignature demo_kms demo_der digest [CHR 0x04] = Done (Inr sig)"
    by (simp add: convertToCompactRecoverableSignature_def demo_compact compactSignatureMalleabilityCheck_def nth_append byte_def
        calculateRecoveryID_def demo_kms_def)
  ultimately show ?thesis by (auto simp: kms_SignDigest_def createSignRequestFromDigest_def demo_kms_def)
qed

section \<open>Properties\<close>

text \<open>
  C40: A DER signature of two numbers between 1 and the order of the curve becomes 64 bytes: the first
  number in 32 bytes, then the second one lowered to at most half the order, in 32 bytes. It passes
  the malleability check.
\<close>

theorem compact_signature:
  assumes "asn1_signature der = Some (r, s)" and "0 < r" "r < curveOrder" "0 < s" "s < curveOrder"
  shows "\<exists>sig. convertToCompactSignature der = Done (Inr sig) \<and> length sig = 64 \<and> int (bytes_nat (take 32 sig)) = r \<and>
    int (bytes_nat (drop 32 sig)) = min s (curveOrder - s) \<and> compactSignatureMalleabilityCheck sig = None"
proof -
  define s' where "s' = (if s > curveOrder div 2 then curveOrder - s else s)"
  have s': "s' = min s (curveOrder - s)" "0 < s'" "s' < curveOrder" "s' < 2 ^ 255"
    using assms(4,5) by (auto simp: s'_def curveOrder_def min_def)
  obtain a b where ab: "obind (copy_at (32 - int (length (big_Bytes r))) (big_Bytes r) (replicate 64 CHR 0x00)) (\<lambda>sig.
      copy_at (64 - int (length (big_Bytes s'))) (big_Bytes s') sig) = Done (a @ b)" "length a = 32" "length b = 32"
      "bytes_nat a = nat r" "bytes_nat b = nat s'"
    using compact_halves [of r s'] curveOrder_bound [of r] curveOrder_bound [of s'] assms(2,3) s' by auto
  have conv: "convertToCompactSignature der = Done (Inr (a @ b))"
    using ab(1) by (auto simp: convertToCompactSignature_def assms(1) s'_def [symmetric] obind_Done Let_def)
  have "byte (b ! 0) < 128" using low_second_half [OF ab(3)] s'(2,4) by (simp add: ab(5) nat_less_iff)
  then have "compactSignatureMalleabilityCheck (a @ b) = None"
    using ab(2) by (simp add: compactSignatureMalleabilityCheck_def nth_append)
  then show ?thesis using conv ab assms(2) s' by simp
qed

lemma compact_signature_witness:
  "asn1_signature demo_der = Some (1, 1) \<and>
     (\<exists>sig. convertToCompactSignature demo_der = Done (Inr sig) \<and> length sig = 64 \<and> int (bytes_nat (drop 32 sig)) = 1)"
  using compact_signature [OF demo_asn1] demo_asn1 by (auto simp: curveOrder_def min_def)


text \<open>
  C7: The key management service is asked only for requests with a client certificate whose first DNS
  name has an entry in the configuration that allows the request: a transaction that is well-formed,
  goes to an allowed address and does not exceed the maximal value; a block payload of the sender
  and, up to 64 bits, of the chain of the entry. Any other request changes nothing and gets an error. What is
  returned is made from a signature of exactly that transaction or payload with the key of the entry: it
  verifies under the public key of that key, and the recovered sender is the requested one.
\<close>

theorem signer_safe:
  assumes "HandleSign L (kms_SignDigest K) config leaf call k = Done (k', r)"
  shows "k' = k \<and> (\<forall>raw. r \<noteq> Inr (Inr raw)) \<or>
    (\<exists>name names ac. leaf = Some (name # names) \<and>
      (case call of
         Inl args \<Rightarrow> tx_authorized L config name args ac \<and>
           (\<exists>tx. ta_ToTransaction L args = Inr tx \<and> (\<forall>raw. r = Inr (Inr raw) \<longrightarrow>
             (\<exists>sig stx from. kms_valid K (ac_KeyName ac) (signer_Hash L (tx_ChainId L tx) tx) sig \<and>
               tx_WithSignature L (tx_ChainId L tx) sig tx = Inr stx \<and> signer_Sender L (tx_ChainId L tx) stx = Inr from \<and>
               ta_From L args \<in> {None, Some from} \<and> tx_MarshalBinary L stx = Inr raw)))
       | Inr args \<Rightarrow> payload_authorized L config name args ac \<and>
           (\<exists>hash. bp_ToSigningHash L args = Inr hash \<and>
             (\<forall>sig. r = Inr (Inr sig) \<longrightarrow> kms_valid K (ac_KeyName ac) hash sig))))"
proof (cases "\<exists>name names. leaf = Some (name # names)")
  case True
  then obtain name names where leaf: "leaf = Some (name # names)" by blast
  show ?thesis
  proof (cases call)
    case (Inl args)
    then obtain r1 where r1: "SignTransaction L (kms_SignDigest K) config \<lparr>ClientName = name\<rparr> args k = Done (k', r1)" "r = Inr r1"
      using assms by (auto simp: HandleSign_def AuthMiddleware_def leaf obind_Done)
    from kms.SignTransaction_safe [OF r1(1)] show ?thesis by (auto simp: Inl leaf r1(2))
  next
    case (Inr args)
    then obtain r1 where r1: "SignBlockPayload L (kms_SignDigest K) config \<lparr>ClientName = name\<rparr> args k = Done (k', r1)" "r = Inr r1"
      using assms by (auto simp: HandleSign_def AuthMiddleware_def leaf obind_Done)
    from kms.SignBlockPayload_safe [OF r1(1)] show ?thesis by (auto simp: Inr leaf r1(2))
  qed
next
  case False
  then have "k' = k \<and> (\<exists>e. r = Inl e)" using assms by (auto simp: HandleSign_def AuthMiddleware_def split: option.splits list.splits)
  then show ?thesis by blast
qed

lemma signer_safe_witness:
  "\<exists>raw. HandleSign demo_signer (kms_SignDigest demo_kms) \<lparr>Auth = [demo_auth]\<rparr> (Some [''client'']) (Inl ()) () = Done ((), Inr (Inr raw)) \<and>
     tx_authorized demo_signer \<lparr>Auth = [demo_auth]\<rparr> ''client'' () demo_auth"
proof -
  obtain sig where "kms_SignDigest demo_kms ''key'' ''digest'' () = Done ((), Inr sig)" using demo_SignDigest by blast
  moreover have "containsNormalized [''0xAA''] ''0xAa''" by code_simp
  ultimately have run: "HandleSign demo_signer (kms_SignDigest demo_kms) \<lparr>Auth = [demo_auth]\<rparr> (Some [''client'']) (Inl ()) () = Done ((), Inr (Inr ''raw''))"
    by (simp add: HandleSign_def AuthMiddleware_def SignTransaction_def GetAuthConfigForClient_def demo_auth_def demo_signer_def
        to_allowed_def value_allowed_def deref_def MaxValueToInt_def sign_tx_def Let_def)
  from signer_safe [OF run] have "\<exists>ac. tx_authorized demo_signer \<lparr>Auth = [demo_auth]\<rparr> ''client'' () ac" by auto
  then have "tx_authorized demo_signer \<lparr>Auth = [demo_auth]\<rparr> ''client'' () demo_auth" by (auto simp: tx_authorized_def)
  with run show ?thesis by blast
qed

section \<open>Two gaps\<close>

text \<open>Without recipients the maximal value is not checked when the configuration is read; if it is no
  number, the first transaction of the client makes the service panic.\<close>

lemma max_value_unchecked:
  assumes "hex_DecodeBig L (ac_MaxValue ac) = Inl err" "ac_MaxValue ac \<noteq> []" "ac_ToAddresses ac = []" "ac_ClientName ac \<noteq> []"
    and "ta_Check L args = None"
  shows "ReadConfig L (Inr \<lparr>Auth = [ac]\<rparr>) = Inr \<lparr>Auth = [ac]\<rparr> \<and>
    (\<exists>msg. SignTransaction L sign \<lparr>Auth = [ac]\<rparr> \<lparr>ClientName = ac_ClientName ac\<rparr> args k = Panic msg)"
  using assms by (simp add: ReadConfig_def first_error_def SignTransaction_def GetAuthConfigForClient_def to_allowed_def
      value_allowed_def MaxValueToInt_def)

text \<open>The chain is compared in 64 bits: a payload for a chain whose ID differs by a multiple of \<open>2 ^ 64\<close> passes.\<close>

lemma chain_id_truncated: "0 \<le> n \<Longrightarrow> big_Uint64 (n + 2 ^ 64) = big_Uint64 n"
  by (simp add: big_Uint64_def word_of_int_eq_iff take_bit_eq_mod)

text \<open>The client calls a method for block payloads that the server does not have.\<close>

lemma client_block_payload_unknown: "client_SignBlockPayload_method \<notin> set RegisterAPIs \<and> client_SignTransaction_method \<in> set RegisterAPIs"
  by (simp add: client_SignBlockPayload_method_def client_SignTransaction_method_def RegisterAPIs_def)

end
