(* ===== verification/Spec2Isabelle.thy ===== *)
theory Spec2Isabelle
  imports Sliding_Window Rewriter Rate_Limiter IO_Util Cache Backend_Group WS_Proxy Startup Signer
begin

text \<open>
  A verification library for \<open>proxyd\<close>, the JSON-RPC proxy of this repository, and for the services that
  stand beside it.

  \<^bold>\<open>The program.\<close> A client posts a JSON-RPC request or batch. The server (\<open>src/proxyd/server.go\<close>)
  authenticates it, applies the rate limits, answers what the cache knows, groups the rest into
  minibatches and hands each to a backend group (\<open>BackendGroup\<close> of \<open>src/proxyd/backend.go\<close>). The
  group orders its backends by health and consensus, rewrites block tags to the agreed blocks
  (\<open>rewriter.go\<close>), and tries the backends in turn; a backend sends the HTTP request, retries, sorts
  the responses and keeps error rate and latency in sliding windows. In the background the consensus
  poller asks each backend for its blocks and computes the highest block all agree on; a consensus
  tracker keeps the result, in memory or shared through Redis.

  \<^bold>\<open>Theories.\<close>
  \<^item> \<open>Prelude\<close>: Go types, panics as the type \<open>outcome\<close>, clock arithmetic, functions of \<open>strings\<close>.
  \<^item> \<open>Sliding_Window\<close> (\<open>pkg/avg-sliding-window/sliding.go\<close>): \<open>Add\<close>, \<open>Incr\<close>, \<open>Sum\<close>, \<open>Count\<close>, \<open>Avg\<close>,
    \<open>Clear\<close>; they refine sums over the list of added points.
  \<^item> \<open>JSON\<close>, \<open>RPC\<close> (\<open>rpc.go\<close>, \<open>errors.go\<close>): scanner, decoder and encoder of \<open>encoding/json\<close> as far as
    used; requests, responses, validation and error values.
  \<^item> \<open>Eth_Lib\<close>: the go-ethereum functions used, as a record of parameters with the contract in a
    locale, which the concrete record \<open>geth\<close> satisfies.
  \<^item> \<open>Rewriter\<close> (\<open>rewriter.go\<close>): block tags and ranges; passed requests name no block above latest.
  \<^item> \<open>Rate_Limiter\<close> (\<open>frontend_rate_limiter.go\<close>): the memory, Redis and fallback limiters.
  \<^item> \<open>IO_Util\<close> (\<open>reader.go\<close>, \<open>string_set.go\<close>): the limited reader with \<open>io.ReadAll\<close>, string sets.
  \<^item> \<open>Cache\<close> (\<open>cache.go\<close>, \<open>methods.go\<close>): the caches behind one interface and the per-method handlers.
  \<^item> \<open>Backend\<close> (\<open>backend.go\<close>): options, health, \<open>doForward\<close>, \<open>Forward\<close> with its retries and accounting.
  \<^item> \<open>Consensus_Tracker\<close> (\<open>consensus_tracker.go\<close>): both trackers, the Redis heartbeat as a step.
  \<^item> \<open>Consensus_Poller\<close> (\<open>consensus_poller.go\<close>): bans, backend updates, candidates, consensus; the
    goroutines as an interleaving of steps.
  \<^item> \<open>Backend_Group\<close> (\<open>backend.go\<close>): \<open>orderedBackendsForRequest\<close>, \<open>Forward\<close>, the consensus overrides,
    multicall.
  \<^item> \<open>Server\<close> (\<open>server.go\<close>): \<open>NewServer\<close>, \<open>HandleRPC\<close>, \<open>handleBatchRPC\<close>, \<open>populateContext\<close>, limits.
  \<^item> \<open>WS_Proxy\<close> (\<open>backend.go\<close>, \<open>server.go\<close>): \<open>HandleWS\<close>, \<open>ProxyWS\<close> and the two pumps of \<open>WSProxier\<close> in any
    interleaving; the backend gets exactly the whitelisted requests.
  \<^item> \<open>Startup\<close> (\<open>proxyd.go\<close>, \<open>config.go\<close>, \<open>tls.go\<close>, \<open>redis.go\<close>): the configuration and \<open>Start\<close>, after which
    server, groups, backends and pollers fit together.
  \<^item> \<open>Signer\<close> (\<open>src/op-signer\<close>): client authorization, \<open>SignTransaction\<close>, \<open>SignBlockPayload\<close>, the Cloud KMS
    provider with its conversion of DER signatures, start and stop; only authorized requests are signed.

  \<^bold>\<open>State and effects.\<close> Each Go struct is a record and each method a function from the state to the
  state and its result. Errors are values; a panic is \<open>Panic\<close>. Times are integers in nanoseconds,
  \<open>uint64\<close> is a 64-bit word, \<open>float64\<close> is an exact rational. Map iteration order, the arrival order of
  goroutine results and the random shuffle are arguments over which the theorems quantify. The
  network, clocks, semaphores, random numbers and the Redis server are parameters.

  \<^bold>\<open>Bounds.\<close> Recursion is structural or has a termination proof, except the search for the common
  block: \<open>consensus_loop\<close> goes one block back per round on fuel and is \<open>None\<close> when the fuel does not
  suffice. \<open>consensus_highest_common_block\<close> shows that fuel above the distance from the lowest latest
  block to the agreed one suffices.

  \<^bold>\<open>Not modelled.\<close> Metrics and logging, on which no behaviour depends; the HTTP listeners and the
  shutdown of the process; the other services of the repository.
\<close>

end
